(* ===== verification/Prelude.thy ===== *)
theory Prelude
  imports Main "HOL-Library.Word" "HOL-Library.AList"
begin

text \<open>
  What every component of the model shares: the outcome of running a piece of the C++ code,
  C strings and pointers into them, bytes and signed characters, the standard containers the
  code uses, and the generic facts about event-driven components.
\<close>

section \<open>Outcomes\<close>

text \<open>
  A call either does not return (\<open>None\<close>), or stops with a fault (\<open>Inl\<close>: undefined behaviour
  that the code reaches, or an exception that leaves the function), or returns (\<open>Inr\<close>).
  \<open>'a res\<close> is used where the code cannot run forever, \<open>'a prog\<close> where it can.
\<close>

datatype fault =
    OutOfBounds           \<comment> \<open>a read or a write outside an object\<close>
  | Uninitialised         \<comment> \<open>a read of an indeterminate value\<close>
  | NullDeref             \<comment> \<open>a null pointer is dereferenced\<close>
  | OutOfRange            \<comment> \<open>\<open>std::out_of_range\<close>\<close>
  | InvalidArgument       \<comment> \<open>\<open>std::invalid_argument\<close>\<close>
  | MissingKey string     \<comment> \<open>\<open>throw new std::exception()\<close> of \<open>JsonObject::GetStr\<close>\<close>
  | ThrownPointer         \<comment> \<open>\<open>throw new std::exception()\<close> elsewhere\<close>
  | RuntimeError string   \<comment> \<open>\<open>std::runtime_error\<close>\<close>

type_synonym 'a res = "fault + 'a"
type_synonym 'a prog = "'a res option"

definition ret :: "'a \<Rightarrow> 'a prog" where
  "ret x = Some (Inr x)"

definition fail :: "fault \<Rightarrow> 'a prog" where
  "fail e = Some (Inl e)"

definition bindP :: "'a prog \<Rightarrow> ('a \<Rightarrow> 'b prog) \<Rightarrow> 'b prog" where
  "bindP m f = Option.bind m (\<lambda>r. case r of Inl e \<Rightarrow> Some (Inl e) | Inr x \<Rightarrow> f x)"

definition bindR :: "'a res \<Rightarrow> ('a \<Rightarrow> 'b res) \<Rightarrow> 'b res" where
  "bindR m f = (case m of Inl e \<Rightarrow> Inl e | Inr x \<Rightarrow> f x)"

definition lift_res :: "'a res \<Rightarrow> 'a prog" where
  "lift_res r = Some r"

lemma bindP_simps [simp]:
  "bindP None f = None"
  "bindP (fail e) f = fail e"
  "bindP (ret x) f = f x"
  "bindP (Some (Inl e)) f = Some (Inl e)"
  "bindP (Some (Inr x)) f = f x"
  by (simp_all add: bindP_def ret_def fail_def)

lemma bindR_simps [simp]:
  "bindR (Inl e) f = Inl e"
  "bindR (Inr x) f = f x"
  by (simp_all add: bindR_def)

lemma lift_res_simps [simp]:
  "lift_res (Inl e) = fail e"
  "lift_res (Inr x) = ret x"
  by (simp_all add: lift_res_def fail_def ret_def)

lemma ret_inject [simp]: "ret x = ret y \<longleftrightarrow> x = y"
  by (simp add: ret_def)

lemma fail_inject [simp]: "fail e = fail e' \<longleftrightarrow> e = e'"
  by (simp add: fail_def)

lemma ret_fail_distinct [simp]:
  "ret x \<noteq> fail e" "fail e \<noteq> ret x" "ret x \<noteq> None" "fail e \<noteq> None"
  "None \<noteq> ret x" "None \<noteq> fail e"
  by (simp_all add: ret_def fail_def)

lemma bindP_cases:
  assumes "bindP m f = r"
  obtains (diverges) "m = None" "r = None"
  | (fails) e where "m = fail e" "r = fail e"
  | (returns) x where "m = ret x" "f x = r"
proof (cases m)
  case None
  then show thesis using assms diverges by simp
next
  case (Some y)
  show thesis
  proof (cases y)
    case (Inl e)
    then show thesis using assms Some fails [of e] by (simp add: fail_def)
  next
    case (Inr x)
    then show thesis using assms Some returns [of x] by (simp add: ret_def)
  qed
qed

lemma bindP_eq_ret: "bindP m f = ret y \<longleftrightarrow> (\<exists>x. m = ret x \<and> f x = ret y)"
proof
  assume "bindP m f = ret y"
  then show "\<exists>x. m = ret x \<and> f x = ret y"
    by (cases rule: bindP_cases) auto
next
  assume "\<exists>x. m = ret x \<and> f x = ret y"
  then show "bindP m f = ret y" by auto
qed

lemma bindR_eq_Inr: "bindR m f = Inr y \<longleftrightarrow> (\<exists>x. m = Inr x \<and> f x = Inr y)"
  by (cases m) auto

text \<open>Recursive definitions may call themselves under \<open>bindP\<close>.\<close>

lemma bindP_mono [partial_function_mono]:
  assumes B: "mono_option B" and C: "\<And>y. mono_option (\<lambda>f. C y f)"
  shows "mono_option (\<lambda>f. bindP (B f) (\<lambda>y. C y f))"
proof -
  have "mono_option (\<lambda>f. case r of Inl e \<Rightarrow> Some (Inl e) | Inr x \<Rightarrow> C x f)" for r
    by (cases r) (simp_all add: C option.const_mono)
  then show ?thesis
    unfolding bindP_def by (rule bind_mono [OF B])
qed

text \<open>
  Code that works on a database or another state besides: what it returns, and the state after
  it, which a fault does not undo.
\<close>

type_synonym ('db, 'a) action = "'db \<Rightarrow> 'a res \<times> 'db"

definition retD :: "'a \<Rightarrow> ('db, 'a) action" where
  "retD x db = (Inr x, db)"

definition liftD :: "'a res \<Rightarrow> ('db, 'a) action" where
  "liftD r db = (r, db)"

definition bindD :: "('db, 'a) action \<Rightarrow> ('a \<Rightarrow> ('db, 'b) action) \<Rightarrow> ('db, 'b) action" where
  "bindD m f db = (case m db of (Inl e, db) \<Rightarrow> (Inl e, db) | (Inr x, db) \<Rightarrow> f x db)"

lemma bindD_simps [simp]:
  "bindD (retD x) f db = f x db"
  "bindD (liftD (Inr x)) f db = f x db"
  "bindD (liftD (Inl e)) f db = (Inl e, db)"
  "retD x db = (Inr x, db)" "liftD r db = (r, db)"
  by (simp_all add: bindD_def retD_def liftD_def)

lemma bindD_eqs:
  "m db = (Inr x, db') \<Longrightarrow> bindD m f db = f x db'"
  "m db = (Inl e, db') \<Longrightarrow> bindD m f db = (Inl e, db')"
  by (simp_all add: bindD_def)

lemma bindD_cases:
  obtains (fails) e db' where "m db = (Inl e, db')" "bindD m f db = (Inl e, db')"
  | (returns) x db' where "m db = (Inr x, db')" "bindD m f db = f x db'"
proof -
  obtain r db' where "m db = (r, db')" by (cases "m db")
  with that show thesis by (cases r) (simp_all add: bindD_def)
qed

section \<open>Characters, bytes and C strings\<close>

abbreviation (input) NUL :: char where "NUL \<equiv> CHR 0x00"
abbreviation (input) TAB :: char where "TAB \<equiv> CHR 0x09"
abbreviation (input) LF :: char where "LF \<equiv> CHR 0x0A"
abbreviation (input) CR :: char where "CR \<equiv> CHR 0x0D"
abbreviation (input) DQ :: char where "DQ \<equiv> CHR 0x22"
abbreviation (input) BSL :: char where "BSL \<equiv> CHR 0x5C"

text \<open>\<open>char\<close> is signed on the platforms the code is built for.\<close>

definition uchar :: "char \<Rightarrow> nat" where
  "uchar c = of_char c"

definition schar :: "char \<Rightarrow> int" where
  "schar c = (if 128 \<le> uchar c then int (uchar c) - 256 else int (uchar c))"

definition to_char :: "int \<Rightarrow> char" where
  "to_char n = char_of n"

text \<open>
  \<open>c_str\<close> is what code sees that reads \<open>std::string::c_str()\<close> up to its terminator.
  \<open>deref s p\<close> reads the character at offset \<open>p\<close> of a character array that holds \<open>s\<close> and its
  terminator; outside of it there is nothing to read.
\<close>

definition c_str :: "string \<Rightarrow> string" where
  "c_str s = takeWhile (\<lambda>c. c \<noteq> NUL) s"

definition deref :: "string \<Rightarrow> int \<Rightarrow> char option" where
  "deref s p =
     (if p < 0 \<or> int (length s) < p then None
      else if p = int (length s) then Some NUL
      else Some (s ! nat p))"

lemma deref_append [simp]: "deref (pre @ c # post) (int (length pre)) = Some c"
  by (simp add: deref_def)

lemma deref_append_end [simp]: "deref pre (int (length pre)) = Some NUL"
  by (simp add: deref_def)

lemma deref_shift:
  "0 \<le> k \<Longrightarrow> deref (pre @ s) (int (length pre) + k) = deref s k"
  by (auto simp: deref_def nth_append nat_add_distrib)

lemma c_str_id: "NUL \<notin> set s \<Longrightarrow> c_str s = s"
  by (auto simp: c_str_def takeWhile_eq_all_conv)

lemma c_str_no_NUL: "NUL \<notin> set (c_str s)"
  by (auto simp: c_str_def dest: set_takeWhileD)

text \<open>
  A pointer that only moves forward is the rest of the array from it on; the empty list is a
  pointer to the terminator.
\<close>

definition peek :: "string \<Rightarrow> char" where
  "peek s = (case s of [] \<Rightarrow> NUL | c # _ \<Rightarrow> c)"

definition starts_with :: "string \<Rightarrow> string \<Rightarrow> bool" where
  "starts_with s p = (take (length p) s = p)"

lemma peek_simps [simp]: "peek [] = NUL" "peek (c # s) = c"
  by (simp_all add: peek_def)

lemma starts_with_append [simp]: "starts_with (p @ s) p"
  by (simp add: starts_with_def)

lemma starts_with_Nil [simp]: "starts_with s []"
  by (simp add: starts_with_def)

lemma starts_withE:
  assumes "starts_with s p" obtains r where "s = p @ r"
  using assms unfolding starts_with_def by (metis append_take_drop_id)

section \<open>Searching and numerals\<close>

text \<open>\<open>std::string::find\<close> from the beginning: the least index where the pattern occurs.\<close>

fun find_sub :: "string \<Rightarrow> string \<Rightarrow> nat option" where
  "find_sub pat [] = (if pat = [] then Some 0 else None)"
| "find_sub pat (c # s) =
     (if starts_with (c # s) pat then Some 0 else map_option Suc (find_sub pat s))"

lemma find_sub_Some:
  "find_sub pat s = Some i \<Longrightarrow> i + length pat \<le> length s \<and> starts_with (drop i s) pat"
proof (induction pat s arbitrary: i rule: find_sub.induct)
  case (2 pat c s)
  then show ?case
    by (cases "starts_with (c # s) pat")
      (auto simp: starts_with_def min_def dest!: arg_cong [where f = length] split: if_splits)
qed (auto split: if_splits)

lemma find_sub_None:
  "find_sub pat s = None \<longleftrightarrow> (\<forall>i \<le> length s. \<not> starts_with (drop i s) pat)"
proof (induction pat s rule: find_sub.induct)
  case (1 pat)
  then show ?case by (auto simp: starts_with_def)
next
  case (2 pat c s)
  show ?case
  proof
    assume a: "find_sub pat (c # s) = None"
    then have "\<not> starts_with (c # s) pat" and "find_sub pat s = None" by (auto split: if_splits)
    with 2 show "\<forall>i \<le> length (c # s). \<not> starts_with (drop i (c # s)) pat"
      by (auto simp: drop_Cons split: nat.splits)
  next
    assume "\<forall>i \<le> length (c # s). \<not> starts_with (drop i (c # s)) pat"
    then have "\<not> starts_with (c # s) pat" and "\<forall>i \<le> length s. \<not> starts_with (drop i s) pat"
      by (auto dest: spec [of _ 0] spec [of _ "Suc _"])
    with 2 show "find_sub pat (c # s) = None" by simp
  qed
qed

lemma find_sub_least:
  "find_sub pat s = Some i \<Longrightarrow> j < i \<Longrightarrow> \<not> starts_with (drop j s) pat"
proof (induction pat s arbitrary: i j rule: find_sub.induct)
  case (2 pat c s)
  then show ?case
    by (cases j) (auto split: if_splits)
qed (auto split: if_splits)

text \<open>\<open>std::to_string\<close> and \<open>std::stoi\<close>.\<close>

definition digit :: "nat \<Rightarrow> char" where
  "digit n = char_of (48 + n)"

definition is_digit :: "char \<Rightarrow> bool" where
  "is_digit c = (48 \<le> uchar c \<and> uchar c \<le> 57)"

definition is_space :: "char \<Rightarrow> bool" where
  "is_space c = (uchar c = 32 \<or> 9 \<le> uchar c \<and> uchar c \<le> 13)"

fun to_string :: "nat \<Rightarrow> string" where
  "to_string n = (if n < 10 then [digit n] else to_string (n div 10) @ [digit (n mod 10)])"

declare to_string.simps [simp del]

definition digits_value :: "string \<Rightarrow> nat" where
  "digits_value ds = foldl (\<lambda>n c. 10 * n + (uchar c - 48)) 0 ds"

definition stoi :: "string \<Rightarrow> int res" where
  "stoi s =
     (let s1 = dropWhile is_space (c_str s);
          neg = (peek s1 = CHR ''-'');
          s2 = (if peek s1 = CHR ''-'' \<or> peek s1 = CHR ''+'' then tl s1 else s1);
          ds = takeWhile is_digit s2;
          v = (if neg then - int (digits_value ds) else int (digits_value ds))
      in if ds = [] then Inl InvalidArgument
         else if v < - (2 ^ 31) \<or> 2 ^ 31 \<le> v then Inl OutOfRange
         else Inr v)"

lemma uchar_char_of: "n < 256 \<Longrightarrow> uchar (char_of n) = n"
  by (simp add: uchar_def of_char_of)

lemma uchar_char_of_mod: "uchar (char_of (n :: nat)) = n mod 256"
  by (simp add: uchar_def of_char_of)

lemma uchar_lt: "uchar c < 256"
  by (simp add: uchar_def)

lemma char_of_uchar [simp]: "char_of (uchar c) = c"
  by (simp add: uchar_def)

lemma uchar_digit [simp]: "n < 10 \<Longrightarrow> uchar (digit n) = 48 + n"
  by (simp add: digit_def uchar_char_of)

lemma uchar_inject: "uchar c = uchar d \<Longrightarrow> c = d"
  by (metis char_of_uchar)

lemma schar_zero: "schar c = 0 \<longleftrightarrow> c = NUL"
proof
  assume "schar c = 0"
  then have "uchar c = 0" using uchar_lt [of c] by (auto simp: schar_def split: if_splits)
  then show "c = NUL" by (intro uchar_inject) (simp add: uchar_def)
qed (simp add: schar_def uchar_def)

lemma uchar_neq: "uchar c \<noteq> uchar d \<Longrightarrow> c \<noteq> d"
  by auto

lemma is_digit_digit [simp]: "n < 10 \<Longrightarrow> is_digit (digit n)"
  by (simp add: is_digit_def)

lemma to_string_digits: "\<forall>c \<in> set (to_string n). is_digit c"
proof (induction n rule: to_string.induct)
  case (1 n)
  then show ?case by (subst to_string.simps) auto
qed

lemma to_string_nonempty: "to_string n \<noteq> []"
  by (subst to_string.simps) simp

lemma digits_value_snoc: "digits_value (ds @ [c]) = 10 * digits_value ds + (uchar c - 48)"
  by (simp add: digits_value_def)

lemma digits_value_to_string: "digits_value (to_string n) = n"
proof (induction n rule: to_string.induct)
  case (1 n)
  show ?case
  proof (cases "n < 10")
    case True
    then show ?thesis by (subst to_string.simps) (simp add: digits_value_def)
  next
    case False
    with 1 have "digits_value (to_string (n div 10)) = n div 10" by simp
    with False show ?thesis by (subst to_string.simps) (simp add: digits_value_snoc)
  qed
qed

lemma stoi_to_string:
  assumes "n < 2 ^ 31"
  shows "stoi (to_string n) = Inr (int n)"
proof -
  have d: "\<forall>c \<in> set (to_string n). is_digit c" by (rule to_string_digits)
  obtain c cs where c: "to_string n = c # cs" using to_string_nonempty by (cases "to_string n") auto
  with d have "is_digit c" by simp
  then have nz: "\<not> is_space c" "c \<noteq> CHR ''-''" "c \<noteq> CHR ''+''"
    by (auto simp: is_digit_def is_space_def uchar_def)
  have "NUL \<notin> set (to_string n)"
    using d by (auto simp: is_digit_def uchar_def)
  then have "c_str (to_string n) = to_string n" by (rule c_str_id)
  moreover have "takeWhile is_digit (to_string n) = to_string n"
    using d by (simp add: takeWhile_eq_all_conv)
  ultimately show ?thesis
    using assms nz c digits_value_to_string [of n] by (simp add: stoi_def Let_def)
qed

section \<open>Hash tables\<close>

text \<open>
  \<open>std::unordered_map\<close> as an association list with distinct keys, listed in the order the
  implementation iterates over it.  That order is unspecified: the model puts a new key at the
  end, and a theorem about an iteration is stated for every order of the table it starts from.
  \<open>um_find\<close> is all that insertion and erasure are specified by.
\<close>

type_synonym ('k, 'v) umap = "('k \<times> 'v) list"

definition um_find :: "('k, 'v) umap \<Rightarrow> 'k \<Rightarrow> 'v option" where
  "um_find m k = map_of m k"

definition um_count :: "('k, 'v) umap \<Rightarrow> 'k \<Rightarrow> bool" where
  "um_count m k = (map_of m k \<noteq> None)"

definition um_set :: "'k \<Rightarrow> 'v \<Rightarrow> ('k, 'v) umap \<Rightarrow> ('k, 'v) umap" where
  "um_set k v m = AList.update k v m"

definition um_erase :: "'k \<Rightarrow> ('k, 'v) umap \<Rightarrow> ('k, 'v) umap" where
  "um_erase k m = AList.delete k m"

definition um_wf :: "('k, 'v) umap \<Rightarrow> bool" where
  "um_wf m = distinct (map fst m)"

text \<open>The contract of a hash table, and the facts its clients need, proved from it alone.\<close>

locale table =
  fixes find :: "'t \<Rightarrow> 'k \<Rightarrow> 'v option"
    and insert :: "'k \<Rightarrow> 'v \<Rightarrow> 't \<Rightarrow> 't"
    and erase :: "'k \<Rightarrow> 't \<Rightarrow> 't"
    and empty :: 't
    and wf :: "'t \<Rightarrow> bool"
  assumes find_empty: "find empty k = None"
    and find_insert: "find (insert k v t) k' = (if k' = k then Some v else find t k')"
    and find_erase: "find (erase k t) k' = (if k' = k then None else find t k')"
    and wf_empty: "wf empty"
    and wf_insert: "wf t \<Longrightarrow> wf (insert k v t)"
    and wf_erase: "wf t \<Longrightarrow> wf (erase k t)"
begin

lemma find_insert_same: "find (insert k v t) k = Some v"
  by (simp add: find_insert)

lemma find_insert_other: "k' \<noteq> k \<Longrightarrow> find (insert k v t) k' = find t k'"
  by (simp add: find_insert)

lemma find_erase_insert: "find (erase k (insert k v t)) = find (erase k t)"
  by (rule ext) (simp add: find_erase find_insert)

lemma find_insert_commute:
  "k \<noteq> k' \<Longrightarrow> find (insert k v (insert k' v' t)) = find (insert k' v' (insert k v t))"
  by (rule ext) (auto simp: find_insert)

end

interpretation um: table um_find um_set um_erase "[]" um_wf
proof (unfold_locales, goal_cases)
  case (2 k v t k')
  then show ?case by (simp add: um_find_def um_set_def update_conv')
next
  case (3 k t k')
  then show ?case by (simp add: um_find_def um_erase_def delete_conv')
qed (simp_all add: um_find_def um_wf_def um_set_def um_erase_def distinct_update
      distinct_delete)

lemmas um_defs = um_find_def um_count_def

lemma um_count_find: "um_count m k \<longleftrightarrow> um_find m k \<noteq> None"
  by (simp add: um_defs)

lemma um_count_set [simp]: "um_count (um_set k v m) k' \<longleftrightarrow> k' = k \<or> um_count m k'"
  by (auto simp: um_count_find um.find_insert)

lemma um_count_erase [simp]: "um_count (um_erase k m) k' \<longleftrightarrow> k' \<noteq> k \<and> um_count m k'"
  by (auto simp: um_count_find um.find_erase)

lemma um_find_set [simp]: "um_find (um_set k v m) k' = (if k' = k then Some v else um_find m k')"
  by (rule um.find_insert)

lemma um_find_erase [simp]: "um_find (um_erase k m) k' = (if k' = k then None else um_find m k')"
  by (rule um.find_erase)

lemma um_find_Nil [simp]: "um_find [] k = None"
  by (rule um.find_empty)

lemma um_find_Cons: "um_find ((k, v) # m) k' = (if k' = k then Some v else um_find m k')"
  by (simp add: um_find_def)

lemma um_set_Nil [simp]: "um_set k v [] = [(k, v)]"
  by (simp add: um_set_def)

lemma um_count_Nil [simp]: "\<not> um_count [] k"
  by (simp add: um_count_def)

section \<open>Bounded logs\<close>

text \<open>A log that is pushed at the front and popped at the back holds the newest entries.\<close>

lemma newest_take:
  assumes "0 < n"
  shows "(if n < length (m # take n ms) then butlast (m # take n ms) else m # take n ms) = take n (m # ms)"
proof (cases "n \<le> length ms")
  case True
  with assms have "butlast (m # take n ms) = m # take (n - 1) ms" by (auto simp: butlast_take)
  with True assms show ?thesis by (simp add: take_Cons')
qed (simp add: take_Cons')

section \<open>Event-driven components\<close>

text \<open>
  A server, a client or a protocol peer handles one event after another.  \<open>run_steps\<close> is its
  execution over a sequence of events; an invariant that every event keeps holds throughout.
\<close>

fun run_steps :: "('s \<Rightarrow> 'e \<Rightarrow> 's) \<Rightarrow> 's \<Rightarrow> 'e list \<Rightarrow> 's" where
  "run_steps step s [] = s"
| "run_steps step s (e # es) = run_steps step (step s e) es"

lemma run_steps_append [simp]:
  "run_steps step s (es @ fs) = run_steps step (run_steps step s es) fs"
  by (induction es arbitrary: s) auto

fun admissible_run :: "('s \<Rightarrow> 'e \<Rightarrow> 's) \<Rightarrow> ('s \<Rightarrow> 'e \<Rightarrow> bool) \<Rightarrow> 's \<Rightarrow> 'e list \<Rightarrow> bool" where
  "admissible_run step ok s [] = True"
| "admissible_run step ok s (e # es) = (ok s e \<and> admissible_run step ok (step s e) es)"

locale event_machine =
  fixes step :: "'s \<Rightarrow> 'e \<Rightarrow> 's"
    and inv :: "'s \<Rightarrow> bool"
    and admissible :: "'s \<Rightarrow> 'e \<Rightarrow> bool"
  assumes step_inv: "inv s \<Longrightarrow> admissible s e \<Longrightarrow> inv (step s e)"
begin

lemma run_inv: "inv s \<Longrightarrow> admissible_run step admissible s es \<Longrightarrow> inv (run_steps step s es)"
  by (induction es arbitrary: s) (auto intro: step_inv)

lemma run_inv_always:
  assumes "inv s" and "\<And>t e. admissible t e"
  shows "inv (run_steps step s es)"
proof -
  have "admissible_run step admissible t es" for t
    by (induction es arbitrary: t) (auto intro: assms(2))
  then show ?thesis using assms(1) by (blast intro: run_inv)
qed

end

section \<open>Encodings\<close>

text \<open>
  A pair of an encoder and a decoder that gets every acceptable value back.  The string
  escapes, the URL encoding and the wire formats of the code have this shape.
\<close>

locale codec =
  fixes enc :: "'a \<Rightarrow> 'b" and dec :: "'b \<Rightarrow> 'a option" and ok :: "'a \<Rightarrow> bool"
  assumes dec_enc: "ok x \<Longrightarrow> dec (enc x) = Some x"
begin

lemma enc_inj: "ok x \<Longrightarrow> ok y \<Longrightarrow> enc x = enc y \<Longrightarrow> x = y"
  by (metis dec_enc option.inject)

lemma map_dec_enc:
  assumes "\<forall>x \<in> set xs. ok x"
  shows "map (dec \<circ> enc) xs = map Some xs"
  using assms by (induction xs) (auto simp: dec_enc)

end

end
