(* ===== verification/Json.thy ===== *)
theory Json
  imports Prelude
begin

text \<open>
  \<open>cpp-source/json.hpp\<close> and \<open>cpp-source/json.cpp\<close>: the JSON tree, its character-level parser,
  the string escapes and the printer.  The parser is the loop of \<open>JsonObject::parse\<close>, with the
  pointer \<open>it\<close> as an offset into the C string; it may run forever, so its result is an \<open>option\<close>.
\<close>

section \<open>Data\<close>

datatype JsonType = NOTYPE | STRING | OBJECT | ARRAY

datatype JsonObjectState = NOSTATE | GETKEY | GOTKEY | GETVALUE | GOTVALUE

text \<open>Every object has all the members, whatever its type says.\<close>

datatype JsonObject = JsonObject
  (jtype: JsonType)
  (stringValue: string)
  (objectValues: "(string \<times> JsonObject) list")
  (arrayValues: "JsonObject list")

definition new_typed :: "JsonType \<Rightarrow> JsonObject" where
  "new_typed new_type = JsonObject new_type [] [] []"

definition new_string :: "string \<Rightarrow> JsonObject" where
  "new_string new_stringValue = JsonObject STRING new_stringValue [] []"

definition new_empty :: JsonObject where
  "new_empty = JsonObject NOTYPE [] [] []"

fun typeString :: "JsonType \<Rightarrow> string" where
  "typeString NOTYPE = ''No Json''"
| "typeString STRING = ''String''"
| "typeString OBJECT = ''Object''"
| "typeString ARRAY = ''Array''"

fun set_type :: "JsonType \<Rightarrow> JsonObject \<Rightarrow> JsonObject" where
  "set_type t (JsonObject _ sv ovs avs) = JsonObject t sv ovs avs"

fun set_stringValue :: "string \<Rightarrow> JsonObject \<Rightarrow> JsonObject" where
  "set_stringValue sv (JsonObject t _ ovs avs) = JsonObject t sv ovs avs"

fun set_objectValue :: "string \<Rightarrow> JsonObject \<Rightarrow> JsonObject \<Rightarrow> JsonObject" where
  "set_objectValue k v (JsonObject t sv ovs avs) = JsonObject t sv (um_set k v ovs) avs"

fun erase_objectValue :: "string \<Rightarrow> JsonObject \<Rightarrow> JsonObject" where
  "erase_objectValue k (JsonObject t sv ovs avs) = JsonObject t sv (um_erase k ovs) avs"

fun push_arrayValue :: "JsonObject \<Rightarrow> JsonObject \<Rightarrow> JsonObject" where
  "push_arrayValue v (JsonObject t sv ovs avs) = JsonObject t sv ovs (avs @ [v])"

section \<open>The parser\<close>

text \<open>The end of the loop body: only strings and keys collect the current character.\<close>

definition collect :: "JsonObject \<Rightarrow> JsonObjectState \<Rightarrow> string \<Rightarrow> char \<Rightarrow> string" where
  "collect obj objState ss c =
     (if jtype obj = STRING \<or> jtype obj = OBJECT \<and> objState = GETKEY then ss @ [c] else ss)"

text \<open>
  One pass through the \<open>switch\<close>: the loop goes on (\<open>Next\<close>), the function returns the object
  and a pointer (\<open>Return\<close>), a value is parsed from the current character on by a call on a fresh
  object (\<open>Nested\<close>), or a character outside of the array is read (\<open>Broken\<close>).
\<close>

datatype parse_action =
    Next int JsonObject JsonObjectState string
  | Return JsonObject int
  | Nested char
  | Broken

definition skip_char :: "int \<Rightarrow> JsonObject \<Rightarrow> JsonObjectState \<Rightarrow> string \<Rightarrow> char \<Rightarrow> parse_action" where
  "skip_char it obj objState ss c = Next (it + 1) obj objState (collect obj objState ss c)"

definition parse_step ::
  "string \<Rightarrow> int \<Rightarrow> JsonObject \<Rightarrow> JsonObjectState \<Rightarrow> string \<Rightarrow> parse_action" where
  "parse_step s it obj objState ss =
    (case deref s it of
      None \<Rightarrow> Broken
    | Some c \<Rightarrow>
      if c = NUL then Return obj (it - 1)
      else if c = BSL then
        (case deref s (it + 1) of
          None \<Rightarrow> Broken
        | Some d \<Rightarrow>
          if d = CHR ''n'' \<or> d = CHR ''r'' \<or> d = CHR ''t'' then Next (it + 2) obj objState ss
          else skip_char (it + 1) obj objState ss d)
      else if c = DQ then
        (case jtype obj of
          NOTYPE \<Rightarrow> Next (it + 1) (set_type STRING obj) objState ss
        | STRING \<Rightarrow> Return (set_stringValue ss obj) (it + 1)
        | OBJECT \<Rightarrow>
            if objState = NOSTATE then Next (it + 1) obj GETKEY ss
            else if objState = GETKEY then Next (it + 1) obj GOTKEY ss
            else skip_char it obj objState ss c
        | ARRAY \<Rightarrow> Nested c)
      else if c = CHR ''{'' then
        (case jtype obj of
          NOTYPE \<Rightarrow> Next (it + 1) (set_type OBJECT obj) objState ss
        | ARRAY \<Rightarrow> Nested c
        | _ \<Rightarrow> skip_char it obj objState ss c)
      else if c = CHR ''}'' then
        (if jtype obj = OBJECT \<and> objState = NOSTATE \<or> jtype obj = ARRAY then Return obj it
         else skip_char it obj objState ss c)
      else if c = CHR ''['' then
        (case jtype obj of
          NOTYPE \<Rightarrow> Next (it + 1) (set_type ARRAY obj) objState ss
        | ARRAY \<Rightarrow> Nested c
        | _ \<Rightarrow> skip_char it obj objState ss c)
      else if c = CHR '']'' then
        (if jtype obj = ARRAY
            \<or> jtype obj = OBJECT \<and> objState \<noteq> GETKEY \<and> objState \<noteq> GETVALUE then Return obj it
         else skip_char it obj objState ss c)
      else if c = CHR '':'' \<and> jtype obj = OBJECT \<and> objState = GOTKEY then Nested c
      else skip_char it obj objState ss c)"

text \<open>
  What the code does with a nested value, by the character that started it.  A string value in
  an array (\<open>"\<close>) and any value of a member that is no object and no array (\<open>:\<close>) step the
  returned pointer back (\<open>--it\<close>); then the \<open>++it\<close> of the loop follows.
\<close>

definition parse_resume ::
  "char \<Rightarrow> JsonObject \<Rightarrow> JsonObjectState \<Rightarrow> string \<Rightarrow> JsonObject \<times> int \<Rightarrow>
    int \<times> JsonObject \<times> JsonObjectState \<times> string" where
  "parse_resume c obj objState ss r =
    (let value = fst r; p = snd r in
     if c = CHR '':'' then
       ((if jtype value \<noteq> OBJECT \<and> jtype value \<noteq> ARRAY then p - 1 else p) + 1,
         set_objectValue ss value obj, NOSTATE, [])
     else if c = DQ then (p - 1 + 1, push_arrayValue value obj, objState, ss)
     else (p + 1, push_arrayValue value obj, objState, ss))"

text \<open>
  \<open>parse_loop s it obj objState ss\<close> is the loop with the object being filled, the parser state
  and the string collected so far; it returns the object and the pointer that \<open>parse\<close> returns.
\<close>

partial_function (option) parse_loop ::
  "string \<Rightarrow> int \<Rightarrow> JsonObject \<Rightarrow> JsonObjectState \<Rightarrow> string \<Rightarrow> (JsonObject \<times> int) prog" where
  "parse_loop s it obj objState ss =
    (case parse_step s it obj objState ss of
      Broken \<Rightarrow> fail OutOfBounds
    | Return obj' it' \<Rightarrow> ret (obj', it')
    | Next it' obj' objState' ss' \<Rightarrow> parse_loop s it' obj' objState' ss'
    | Nested c \<Rightarrow>
        bindP (parse_loop s it new_empty NOSTATE [])
          (\<lambda>r. case parse_resume c obj objState ss r of
              (it', obj', objState', ss') \<Rightarrow> parse_loop s it' obj' objState' ss'))"

text \<open>\<open>obj.parse(str)\<close>, for an object that may already have a type and members.\<close>

definition parse_into :: "JsonObject \<Rightarrow> string \<Rightarrow> JsonObject prog" where
  "parse_into obj str = bindP (parse_loop str 0 obj NOSTATE []) (\<lambda>r. ret (fst r))"

section \<open>Escapes and the printer\<close>

fun escape_char :: "char \<Rightarrow> string" where
  "escape_char c =
     (if c = LF then [BSL, CHR ''n'']
      else if c = CR then [BSL, CHR ''r'']
      else if c = TAB then [BSL, CHR ''t'']
      else if c = DQ then [BSL, DQ]
      else if c = BSL then [BSL, BSL]
      else [c])"

definition escape :: "string \<Rightarrow> string" where
  "escape value = [DQ] @ concat (map escape_char value) @ [DQ]"

text \<open>Reading \<open>value[value.length()]\<close> is the terminator, which no branch matches.\<close>

fun deescape :: "string \<Rightarrow> string" where
  "deescape [] = []"
| "deescape [c] = [c]"
| "deescape (c # d # cs) =
     (if c = BSL \<and> d = CHR ''n'' then LF # deescape cs
      else if c = BSL \<and> d = CHR ''r'' then CR # deescape cs
      else if c = BSL \<and> d = CHR ''t'' then TAB # deescape cs
      else if c = BSL \<and> d = DQ then DQ # deescape cs
      else if c = BSL \<and> d = BSL then BSL # deescape cs
      else c # deescape (d # cs))"

definition indent :: "bool \<Rightarrow> nat \<Rightarrow> string" where
  "indent pretty depth = (if pretty then replicate depth TAB else [])"

definition newline_if :: "bool \<Rightarrow> string" where
  "newline_if pretty = (if pretty then [LF] else [])"

fun stringify :: "bool \<Rightarrow> nat \<Rightarrow> JsonObject \<Rightarrow> string"
  and stringify_members :: "bool \<Rightarrow> nat \<Rightarrow> (string \<times> JsonObject) list \<Rightarrow> string"
  and stringify_items :: "bool \<Rightarrow> nat \<Rightarrow> JsonObject list \<Rightarrow> string" where
  "stringify pretty depth (JsonObject t sv ovs avs) =
     (case t of
        NOTYPE \<Rightarrow> [DQ, DQ]
      | STRING \<Rightarrow> escape sv
      | OBJECT \<Rightarrow>
          let depth' = (if pretty then depth + 1 else depth) in
          ''{'' @ newline_if pretty @ stringify_members pretty depth' ovs
            @ indent pretty depth @ ''}''
      | ARRAY \<Rightarrow>
          let depth' = (if pretty then depth + 1 else depth) in
          ''['' @ newline_if pretty @ stringify_items pretty depth' avs
            @ indent pretty depth @ '']'')"
| "stringify_members pretty depth [] = []"
| "stringify_members pretty depth ((k, v) # rest) =
     indent pretty depth @ escape k @ '':'' @ stringify pretty depth v
       @ (if rest \<noteq> [] then '','' else []) @ newline_if pretty
       @ stringify_members pretty depth rest"
| "stringify_items pretty depth [] = []"
| "stringify_items pretty depth (v # rest) =
     indent pretty depth @ stringify pretty depth v
       @ (if rest \<noteq> [] then '','' else []) @ newline_if pretty
       @ stringify_items pretty depth rest"

section \<open>Member access\<close>

definition HasObj :: "JsonObject \<Rightarrow> string \<Rightarrow> JsonType \<Rightarrow> bool" where
  "HasObj obj key t =
     (case um_find (objectValues obj) key of None \<Rightarrow> False | Some v \<Rightarrow> jtype v = t)"

definition GetStr :: "JsonObject \<Rightarrow> string \<Rightarrow> string res" where
  "GetStr obj key =
     (case um_find (objectValues obj) key of
        None \<Rightarrow> Inl (MissingKey key) | Some v \<Rightarrow> Inr (stringValue v))"

text \<open>\<open>j->objectValues[k]->stringValue = v\<close> on an object without the member is a null pointer.\<close>

definition assign_member :: "string \<Rightarrow> string \<Rightarrow> JsonObject \<Rightarrow> JsonObject res" where
  "assign_member k v j =
     (case um_find (objectValues j) k of
        None \<Rightarrow> Inl NullDeref
      | Some old \<Rightarrow> Inr (set_objectValue k (set_stringValue v old) j))"

fun assign_members :: "(string \<times> string) list \<Rightarrow> JsonObject \<Rightarrow> JsonObject res" where
  "assign_members [] j = Inr j"
| "assign_members ((k, v) # kvs) j = bindR (assign_member k v j) (assign_members kvs)"

section \<open>Reading one value\<close>

lemma parse_loop_Next:
  "parse_step s it obj st ss = Next it' obj' st' ss' \<Longrightarrow>
    parse_loop s it obj st ss = parse_loop s it' obj' st' ss'"
  by (subst parse_loop.simps) simp

lemma parse_loop_Return:
  "parse_step s it obj st ss = Return obj' it' \<Longrightarrow> parse_loop s it obj st ss = ret (obj', it')"
  by (subst parse_loop.simps) simp

lemma parse_loop_Broken:
  "parse_step s it obj st ss = Broken \<Longrightarrow> parse_loop s it obj st ss = fail OutOfBounds"
  by (subst parse_loop.simps) simp

lemma parse_loop_Nested:
  assumes "parse_step s it obj st ss = Nested c"
    and "parse_loop s it new_empty NOSTATE [] = ret r"
    and "parse_resume c obj st ss r = (it', obj', st', ss')"
  shows "parse_loop s it obj st ss = parse_loop s it' obj' st' ss'"
  by (subst parse_loop.simps) (simp add: assms)

lemma set_accessors [simp]:
  "jtype (set_type t obj) = t"
  "jtype (set_stringValue sv obj) = jtype obj"
  "jtype (set_objectValue k v obj) = jtype obj"
  "jtype (erase_objectValue k obj) = jtype obj"
  "jtype (push_arrayValue v obj) = jtype obj"
  "jtype new_empty = NOTYPE" "jtype (new_typed t) = t" "jtype (new_string s) = STRING"
  "stringValue (new_string s) = s" "stringValue (new_typed t) = []"
  "stringValue (set_stringValue sv obj) = sv"
  "objectValues (set_objectValue k v obj) = um_set k v (objectValues obj)"
  "objectValues (set_type t obj) = objectValues obj"
  "objectValues (set_stringValue sv obj) = objectValues obj"
  "objectValues (erase_objectValue k obj) = um_erase k (objectValues obj)"
  "objectValues (new_typed t) = []"
  "stringValue (set_type t obj) = stringValue obj"
  by (cases obj; simp add: new_empty_def new_typed_def new_string_def)+

text \<open>
  The parser drops the escapes \<open>\n\<close>, \<open>\r\<close> and \<open>\t\<close>: what is read back of a printed string is the
  string without these three characters.
\<close>

definition strip_controls :: "string \<Rightarrow> string" where
  "strip_controls s = filter (\<lambda>c. c \<noteq> LF \<and> c \<noteq> CR \<and> c \<noteq> TAB) s"

definition escaped :: "string \<Rightarrow> string" where
  "escaped s = concat (map escape_char s)"

lemma escape_escaped: "escape s = DQ # escaped s @ [DQ]"
  by (simp add: escape_def escaped_def)

lemma escaped_simps [simp]:
  "escaped [] = []" "escaped (c # s) = escape_char c @ escaped s"
  by (simp_all add: escaped_def)

lemma deref_append1 [simp]: "deref (pre @ c # d # post) (int (length pre) + 1) = Some d"
  using deref_shift [of 1 pre "c # d # post"] by (simp add: deref_def)

text \<open>Collecting: the text of a string or of a key is read up to its closing quote.\<close>

lemma parse_step_plain:
  assumes "deref s it = Some c" and "jtype obj = STRING \<or> jtype obj = OBJECT \<and> st = GETKEY"
    and "c \<noteq> NUL" "c \<noteq> BSL" "c \<noteq> DQ"
  shows "parse_step s it obj st ss = Next (it + 1) obj st (ss @ [c])"
  using assms(2-) by (elim disjE conjE) (simp_all add: parse_step_def assms(1) skip_char_def collect_def)

lemma parse_step_escape:
  assumes "deref s it = Some BSL" and "deref s (it + 1) = Some d"
    and "jtype obj = STRING \<or> jtype obj = OBJECT \<and> st = GETKEY"
  shows "parse_step s it obj st ss = Next (it + 2) obj st
    (if d = CHR ''n'' \<or> d = CHR ''r'' \<or> d = CHR ''t'' then ss else ss @ [d])"
  using assms(3) by (simp add: parse_step_def assms(1,2) skip_char_def collect_def)

lemma parse_collect_char:
  assumes "jtype obj = STRING \<or> jtype obj = OBJECT \<and> st = GETKEY" and "c \<noteq> NUL"
  shows "parse_loop (pre @ escape_char c @ post) (int (length pre)) obj st ss =
    parse_loop (pre @ escape_char c @ post) (int (length (pre @ escape_char c))) obj st
      (ss @ strip_controls [c])"
proof (cases "c = LF \<or> c = CR \<or> c = TAB \<or> c = DQ \<or> c = BSL")
  case False
  then have e: "escape_char c = [c]" and n: "strip_controls [c] = [c]"
    by (simp_all add: strip_controls_def)
  have "parse_step (pre @ c # post) (int (length pre)) obj st ss =
      Next (int (length pre) + 1) obj st (ss @ [c])"
    by (rule parse_step_plain) (use assms False in simp_all)
  from parse_loop_Next [OF this] show ?thesis
    unfolding e n by (simp add: add.commute)
next
  case True
  then obtain d where e: "escape_char c = [BSL, d]"
      and n: "strip_controls [c] =
        (if d = CHR ''n'' \<or> d = CHR ''r'' \<or> d = CHR ''t'' then [] else [d])"
    by (elim disjE) (simp_all add: strip_controls_def)
  have "parse_step (pre @ BSL # d # post) (int (length pre)) obj st ss =
      Next (int (length pre) + 2) obj st
        (if d = CHR ''n'' \<or> d = CHR ''r'' \<or> d = CHR ''t'' then ss else ss @ [d])"
    by (rule parse_step_escape) (use assms(1) in simp_all)
  from parse_loop_Next [OF this] show ?thesis
    unfolding e n by (simp add: add.commute)
qed

lemma parse_collect:
  assumes "jtype obj = STRING \<or> jtype obj = OBJECT \<and> st = GETKEY" and "NUL \<notin> set t"
  shows "parse_loop (pre @ escaped t @ post) (int (length pre)) obj st ss =
    parse_loop (pre @ escaped t @ post) (int (length (pre @ escaped t))) obj st
      (ss @ strip_controls t)"
  using assms(2)
proof (induction t arbitrary: pre ss)
  case Nil
  then show ?case by (simp add: strip_controls_def)
next
  case (Cons c t)
  have "parse_loop (pre @ escape_char c @ escaped t @ post) (int (length pre)) obj st ss =
      parse_loop (pre @ escape_char c @ escaped t @ post) (int (length (pre @ escape_char c)))
        obj st (ss @ strip_controls [c])"
    by (rule parse_collect_char) (use assms(1) Cons.prems in auto)
  also have "\<dots> = parse_loop (pre @ escape_char c @ escaped t @ post)
      (int (length (pre @ escape_char c @ escaped t))) obj st
      (ss @ strip_controls [c] @ strip_controls t)"
    using Cons.IH [of "pre @ escape_char c" "ss @ strip_controls [c]"] Cons.prems by simp
  finally show ?case by (simp add: strip_controls_def)
qed

text \<open>Between the members of an object and the items of an array, punctuation is skipped.\<close>

lemma parse_step_skip:
  assumes "deref s it = Some c" and "c = CHR '','' \<or> c = LF \<or> c = TAB"
    and "jtype obj = ARRAY \<or> jtype obj = OBJECT \<and> st = NOSTATE"
  shows "parse_step s it obj st ss = Next (it + 1) obj st ss"
  using assms(2,3)
  by (elim disjE conjE) (simp_all add: parse_step_def assms(1) skip_char_def collect_def)

lemma parse_skip:
  assumes "jtype obj = ARRAY \<or> jtype obj = OBJECT \<and> st = NOSTATE"
    and "set w \<subseteq> {CHR '','', LF, TAB}"
  shows "parse_loop (pre @ w @ post) (int (length pre)) obj st ss =
    parse_loop (pre @ w @ post) (int (length (pre @ w))) obj st ss"
  using assms(2)
proof (induction w arbitrary: pre)
  case Nil
  then show ?case by simp
next
  case (Cons c w)
  from Cons.prems have "c \<in> {CHR '','', LF, TAB}" by (simp only: list.set insert_subset)
  then have c: "c = CHR '','' \<or> c = LF \<or> c = TAB" by blast
  have "parse_loop (pre @ c # w @ post) (int (length pre)) obj st ss =
      parse_loop (pre @ c # w @ post) (int (length pre) + 1) obj st ss"
    by (rule parse_loop_Next, rule parse_step_skip [OF _ c assms(1)]) simp
  with Cons.IH [of "pre @ [c]"] Cons.prems show ?case by (simp add: add.commute)
qed

lemma parse_string_value:
  assumes "NUL \<notin> set t"
  shows "parse_loop (pre @ escape t @ post) (int (length pre)) new_empty NOSTATE [] =
    ret (new_string (strip_controls t), int (length (pre @ escape t)))"
proof -
  let ?s = "pre @ DQ # escaped t @ DQ # post"
  let ?o = "JsonObject STRING [] [] []"
  have "parse_loop ?s (int (length pre)) new_empty NOSTATE [] =
      parse_loop ?s (int (length (pre @ [DQ]))) ?o NOSTATE []"
    by (rule parse_loop_Next) (simp add: parse_step_def new_empty_def)
  also have "\<dots> = parse_loop ?s (int (length ((pre @ [DQ]) @ escaped t))) ?o NOSTATE
      (strip_controls t)"
    using parse_collect [of ?o NOSTATE t "pre @ [DQ]" "DQ # post" "[]"] assms by simp
  also have "\<dots> = ret (new_string (strip_controls t), int (length ((pre @ [DQ]) @ escaped t)) + 1)"
    by (rule parse_loop_Return)
      (use deref_append [of "(pre @ [DQ]) @ escaped t" DQ post]
        in \<open>simp add: parse_step_def new_string_def\<close>)
  finally show ?thesis by (simp add: escape_escaped add.commute)
qed

text \<open>A key and its colon leave the parser at the colon, about to read the value.\<close>

lemma parse_key:
  assumes "NUL \<notin> set k" and "jtype obj = OBJECT"
  shows "parse_loop (pre @ escape k @ post) (int (length pre)) obj NOSTATE [] =
    parse_loop (pre @ escape k @ post) (int (length (pre @ escape k))) obj GOTKEY
      (strip_controls k)"
proof -
  let ?s = "pre @ DQ # escaped k @ DQ # post"
  have "parse_loop ?s (int (length pre)) obj NOSTATE [] =
      parse_loop ?s (int (length (pre @ [DQ]))) obj GETKEY []"
    by (rule parse_loop_Next) (use assms(2) in \<open>simp add: parse_step_def\<close>)
  also have "\<dots> = parse_loop ?s (int (length ((pre @ [DQ]) @ escaped k))) obj GETKEY
      (strip_controls k)"
    using parse_collect [of obj GETKEY k "pre @ [DQ]" "DQ # post" "[]"] assms by simp
  also have "\<dots> = parse_loop ?s (int (length ((pre @ [DQ]) @ escaped k)) + 1) obj GOTKEY
      (strip_controls k)"
    by (rule parse_loop_Next)
      (use assms(2) deref_append [of "(pre @ [DQ]) @ escaped k" DQ post]
        in \<open>simp add: parse_step_def\<close>)
  finally show ?thesis by (simp add: escape_escaped add.commute)
qed

lemma parse_skip_colon:
  "parse_loop (pre @ CHR '':'' # post) (int (length pre)) new_empty NOSTATE [] =
    parse_loop (pre @ CHR '':'' # post) (int (length (pre @ '':''))) new_empty NOSTATE []"
  by (rule parse_loop_Next) (simp add: parse_step_def skip_char_def collect_def)

section \<open>Members after an assignment\<close>

lemma GetStr_count: "um_count (objectValues j) k \<Longrightarrow> \<exists>s. GetStr j k = Inr s"
  by (auto simp: um_count_find GetStr_def)

lemma stringValue_set [simp]: "stringValue (set_stringValue v j) = v"
  by (cases j) simp

lemma objectValues_set [simp]: "objectValues (set_objectValue k v j) = um_set k v (objectValues j)"
  by (cases j) simp

lemma assign_member_ok:
  assumes "um_count (objectValues j) k"
  shows "\<exists>j'. assign_member k v j = Inr j' \<and> um_count (objectValues j') = um_count (objectValues j)
    \<and> GetStr j' k = Inr v \<and> (\<forall>k'. k' \<noteq> k \<longrightarrow> GetStr j' k' = GetStr j k')"
proof -
  from assms obtain old where "um_find (objectValues j) k = Some old" by (auto simp: um_count_find)
  then show ?thesis
    using assms by (auto simp: assign_member_def GetStr_def fun_eq_iff)
qed

lemma assign_members_ok:
  "list_all (um_count (objectValues j)) (map fst kvs) \<Longrightarrow>
    \<exists>j'. assign_members kvs j = Inr j' \<and> um_count (objectValues j') = um_count (objectValues j)
      \<and> (\<forall>k'. k' \<notin> set (map fst kvs) \<longrightarrow> GetStr j' k' = GetStr j k')"
proof (induction kvs arbitrary: j)
  case (Cons kv kvs)
  obtain k v where kv: "kv = (k, v)" by (cases kv)
  with Cons.prems have "um_count (objectValues j) k" by simp
  from assign_member_ok [OF this, of v] obtain j1 where j1: "assign_member k v j = Inr j1"
      "um_count (objectValues j1) = um_count (objectValues j)"
      "\<forall>k'. k' \<noteq> k \<longrightarrow> GetStr j1 k' = GetStr j k'" by blast
  with Cons.prems kv have "list_all (um_count (objectValues j1)) (map fst kvs)" by simp
  from Cons.IH [OF this] j1 kv show ?case by auto
qed simp

end
