(* ===== verification/JsonRoundtrip.thy ===== *)
theory JsonRoundtrip
  imports Json
begin

text \<open>
  What the JSON parser makes of printed values, when it returns at all, and when it never does.
\<close>

section \<open>Printing and reading back\<close>

text \<open>
  \<open>reread v\<close> is the tree that comes back when the text of \<open>v\<close> is parsed: an object without a
  type is printed as an empty string, strings lose their control characters, and a member keeps
  only the data of its type.
\<close>

fun reread :: "JsonObject \<Rightarrow> JsonObject"
  and reread_members :: "(string \<times> JsonObject) list \<Rightarrow> (string \<times> JsonObject) list \<Rightarrow>
    (string \<times> JsonObject) list"
  and reread_items :: "JsonObject list \<Rightarrow> JsonObject list" where
  "reread (JsonObject t sv ovs avs) =
     (case t of
        NOTYPE \<Rightarrow> new_string []
      | STRING \<Rightarrow> new_string (strip_controls sv)
      | OBJECT \<Rightarrow> JsonObject OBJECT [] (reread_members [] ovs) []
      | ARRAY \<Rightarrow> JsonObject ARRAY [] [] (reread_items avs))"
| "reread_members acc [] = acc"
| "reread_members acc ((k, v) # rest) =
     reread_members (um_set (strip_controls k) (reread v) acc) rest"
| "reread_items [] = []"
| "reread_items (v # rest) = reread v # reread_items rest"

text \<open>The text is read through \<open>c_str()\<close>, so no printed string may hold a NUL.\<close>

fun printable :: "JsonObject \<Rightarrow> bool"
  and printable_members :: "(string \<times> JsonObject) list \<Rightarrow> bool"
  and printable_items :: "JsonObject list \<Rightarrow> bool" where
  "printable (JsonObject t sv ovs avs) =
     (case t of
        NOTYPE \<Rightarrow> True
      | STRING \<Rightarrow> NUL \<notin> set sv
      | OBJECT \<Rightarrow> printable_members ovs
      | ARRAY \<Rightarrow> printable_items avs)"
| "printable_members [] = True"
| "printable_members ((k, v) # rest) = (NUL \<notin> set k \<and> printable v \<and> printable_members rest)"
| "printable_items [] = True"
| "printable_items (v # rest) = (printable v \<and> printable_items rest)"

text \<open>\<open>parse\<close> returns past a string, but at the closing character of an object or an array.\<close>

definition closing :: "JsonObject \<Rightarrow> int" where
  "closing v = (if jtype v = OBJECT \<or> jtype v = ARRAY then 1 else 0)"

definition reads_back :: "string \<Rightarrow> JsonObject \<Rightarrow> bool" where
  "reads_back text v \<longleftrightarrow> (\<forall>pre post.
     parse_loop (pre @ text @ post) (int (length pre)) new_empty NOSTATE [] =
       ret (reread v, int (length (pre @ text)) - closing v))"

lemma reads_backD:
  "reads_back text v \<Longrightarrow> parse_loop (pre @ text @ post) (int (length pre)) new_empty NOSTATE [] =
     ret (reread v, int (length (pre @ text)) - closing v)"
  by (simp add: reads_back_def)

lemma jtype_reread:
  "jtype (reread v) = (if jtype v = NOTYPE then STRING else jtype v)"
  by (cases v) (simp split: JsonType.split)

lemma closing_reread [simp]: "closing (reread v) = closing v"
  by (simp add: closing_def jtype_reread)

lemma escape_no_head: "escape t = DQ # tl (escape t)"
  by (simp add: escape_escaped)

text \<open>A value after a colon: the fresh object first meets the colon and skips it.\<close>

lemma parse_member_value:
  assumes "reads_back text v" and "jtype obj = OBJECT"
  shows "parse_loop (pre @ '':'' @ text @ post) (int (length pre)) obj GOTKEY k =
    parse_loop (pre @ '':'' @ text @ post) (int (length (pre @ '':'' @ text)))
      (set_objectValue k (reread v) obj) NOSTATE []"
proof (rule parse_loop_Nested [where c = "CHR '':''"
      and r = "(reread v, int (length (pre @ '':'' @ text)) - closing v)"])
  show "parse_step (pre @ '':'' @ text @ post) (int (length pre)) obj GOTKEY k =
      Nested (CHR '':'')"
    using assms(2) by (simp add: parse_step_def)
  show "parse_loop (pre @ '':'' @ text @ post) (int (length pre)) new_empty NOSTATE [] =
      ret (reread v, int (length (pre @ '':'' @ text)) - closing v)"
    using parse_skip_colon [of pre "text @ post"]
      reads_backD [OF assms(1), of "pre @ '':''" post] by simp
  show "parse_resume (CHR '':'') obj GOTKEY k
      (reread v, int (length (pre @ '':'' @ text)) - closing v) =
      (int (length (pre @ '':'' @ text)), set_objectValue k (reread v) obj, NOSTATE, [])"
    by (auto simp: parse_resume_def closing_def jtype_reread)
qed

lemma stringify_head:
  "\<exists>rest. stringify pretty depth v =
     (if jtype v = OBJECT then CHR ''{'' else if jtype v = ARRAY then CHR ''['' else DQ) # rest"
  by (cases v) (simp add: escape_escaped Let_def split: JsonType.split)

text \<open>A value in an array is met by a fresh object at its first character.\<close>

lemma parse_item_value:
  assumes "reads_back (stringify pretty depth v) v" and "jtype obj = ARRAY"
  shows "parse_loop (pre @ stringify pretty depth v @ post) (int (length pre)) obj st ss =
    parse_loop (pre @ stringify pretty depth v @ post)
      (int (length (pre @ stringify pretty depth v))) (push_arrayValue (reread v) obj) st ss"
proof -
  let ?text = "stringify pretty depth v"
  let ?c = "if jtype v = OBJECT then CHR ''{'' else if jtype v = ARRAY then CHR ''['' else DQ"
  obtain rest where rest: "?text = ?c # rest" using stringify_head by blast
  show ?thesis
  proof (rule parse_loop_Nested [where c = ?c
        and r = "(reread v, int (length (pre @ ?text)) - closing v)"])
    have "deref (pre @ ?text @ post) (int (length pre)) = Some ?c"
      unfolding rest by simp
    then show "parse_step (pre @ ?text @ post) (int (length pre)) obj st ss = Nested ?c"
      using assms(2) by (simp add: parse_step_def)
    show "parse_loop (pre @ ?text @ post) (int (length pre)) new_empty NOSTATE [] =
        ret (reread v, int (length (pre @ ?text)) - closing v)"
      by (rule reads_backD [OF assms(1)])
    show "parse_resume ?c obj st ss (reread v, int (length (pre @ ?text)) - closing v) =
        (int (length (pre @ ?text)), push_arrayValue (reread v) obj, st, ss)"
      by (simp add: parse_resume_def closing_def)
  qed
qed

lemma set_newline_indent:
  "set (newline_if pretty) \<subseteq> {CHR '','', LF, TAB}"
  "set (indent pretty depth) \<subseteq> {CHR '','', LF, TAB}"
  "set ((if b then '','' else []) @ newline_if pretty) \<subseteq> {CHR '','', LF, TAB}"
  by (cases pretty; cases b; simp add: newline_if_def indent_def set_replicate_conv_if)+

lemma parse_members_step:
  assumes k: "NUL \<notin> set k" and v: "reads_back text v" and o: "jtype obj = OBJECT"
    and w: "set w \<subseteq> {CHR '','', LF, TAB}" and w': "set w' \<subseteq> {CHR '','', LF, TAB}"
  shows "parse_loop (pre @ w @ escape k @ '':'' @ text @ w' @ post) (int (length pre)) obj NOSTATE [] =
    parse_loop (pre @ w @ escape k @ '':'' @ text @ w' @ post)
      (int (length (pre @ w @ escape k @ '':'' @ text @ w')))
      (set_objectValue (strip_controls k) (reread v) obj) NOSTATE []"
proof -
  let ?s = "pre @ w @ escape k @ '':'' @ text @ w' @ post"
  have "parse_loop ?s (int (length pre)) obj NOSTATE [] =
      parse_loop ?s (int (length (pre @ w))) obj NOSTATE []"
    by (rule parse_skip) (use o w in simp_all)
  also have "\<dots> = parse_loop ?s (int (length (pre @ w @ escape k))) obj GOTKEY (strip_controls k)"
    using parse_key [OF k o, of "pre @ w" "'':'' @ text @ w' @ post"] by simp
  also have "\<dots> = parse_loop ?s (int (length (pre @ w @ escape k @ '':'' @ text)))
      (set_objectValue (strip_controls k) (reread v) obj) NOSTATE []"
    using parse_member_value [OF v o, of "pre @ w @ escape k" "w' @ post" "strip_controls k"]
    by simp
  also have "\<dots> = parse_loop ?s (int (length (pre @ w @ escape k @ '':'' @ text @ w')))
      (set_objectValue (strip_controls k) (reread v) obj) NOSTATE []"
    using parse_skip [of "set_objectValue (strip_controls k) (reread v) obj" NOSTATE w'
        "pre @ w @ escape k @ '':'' @ text" post "[]"] o w' by simp
  finally show ?thesis .
qed

lemma parse_items_step:
  assumes v: "reads_back (stringify pretty depth v) v" and o: "jtype obj = ARRAY"
    and w: "set w \<subseteq> {CHR '','', LF, TAB}" and w': "set w' \<subseteq> {CHR '','', LF, TAB}"
  shows "parse_loop (pre @ w @ stringify pretty depth v @ w' @ post) (int (length pre)) obj st ss =
    parse_loop (pre @ w @ stringify pretty depth v @ w' @ post)
      (int (length (pre @ w @ stringify pretty depth v @ w'))) (push_arrayValue (reread v) obj) st ss"
proof -
  let ?t = "stringify pretty depth v"
  let ?s = "pre @ w @ ?t @ w' @ post"
  have "parse_loop ?s (int (length pre)) obj st ss = parse_loop ?s (int (length (pre @ w))) obj st ss"
    by (rule parse_skip) (use o w in simp_all)
  also have "\<dots> = parse_loop ?s (int (length (pre @ w @ ?t))) (push_arrayValue (reread v) obj) st ss"
    using parse_item_value [OF v o, of "pre @ w" "w' @ post" st ss] by simp
  also have "\<dots> = parse_loop ?s (int (length (pre @ w @ ?t @ w'))) (push_arrayValue (reread v) obj) st ss"
    using parse_skip [of "push_arrayValue (reread v) obj" st w' "pre @ w @ ?t" post ss] o w' by simp
  finally show ?thesis .
qed

text \<open>The frame of an object or an array: opening character, contents, closing character.\<close>

lemma parse_open:
  "parse_loop (pre @ CHR ''{'' # post) (int (length pre)) new_empty NOSTATE [] =
    parse_loop (pre @ CHR ''{'' # post) (int (length (pre @ ''{''))) (new_typed OBJECT) NOSTATE []"
  "parse_loop (pre @ CHR ''['' # post) (int (length pre)) new_empty NOSTATE [] =
    parse_loop (pre @ CHR ''['' # post) (int (length (pre @ ''[''))) (new_typed ARRAY) NOSTATE []"
  by (rule parse_loop_Next, simp add: parse_step_def new_empty_def new_typed_def add.commute)+

lemma parse_close:
  "jtype obj = OBJECT \<Longrightarrow>
    parse_loop (pre @ CHR ''}'' # post) (int (length pre)) obj NOSTATE [] = ret (obj, int (length pre))"
  "jtype obj = ARRAY \<Longrightarrow>
    parse_loop (pre @ CHR '']'' # post) (int (length pre)) obj st ss = ret (obj, int (length pre))"
  by (rule parse_loop_Return, simp add: parse_step_def)+

definition reads_members :: "string \<Rightarrow> (string \<times> JsonObject) list \<Rightarrow> bool" where
  "reads_members text ms \<longleftrightarrow> (\<forall>pre post acc.
     parse_loop (pre @ text @ post) (int (length pre)) (JsonObject OBJECT [] acc []) NOSTATE [] =
     parse_loop (pre @ text @ post) (int (length (pre @ text)))
       (JsonObject OBJECT [] (reread_members acc ms) []) NOSTATE [])"

definition reads_items :: "string \<Rightarrow> JsonObject list \<Rightarrow> bool" where
  "reads_items text vs \<longleftrightarrow> (\<forall>pre post acc.
     parse_loop (pre @ text @ post) (int (length pre)) (JsonObject ARRAY [] [] acc) NOSTATE [] =
     parse_loop (pre @ text @ post) (int (length (pre @ text)))
       (JsonObject ARRAY [] [] (acc @ reread_items vs)) NOSTATE [])"

lemma reads_back_string:
  "NUL \<notin> set sv \<Longrightarrow> reads_back (escape sv) (JsonObject STRING sv ovs avs)"
  by (simp add: reads_back_def parse_string_value closing_def)

lemma reads_back_object:
  assumes "reads_members text ovs" and w: "set w \<subseteq> {CHR '','', LF, TAB}"
    and w': "set w' \<subseteq> {CHR '','', LF, TAB}"
  shows "reads_back (''{'' @ w @ text @ w' @ ''}'') (JsonObject OBJECT sv ovs avs)"
  unfolding reads_back_def
proof (intro allI)
  fix pre post
  let ?s = "pre @ (''{'' @ w @ text @ w' @ ''}'') @ post"
  let ?new = "JsonObject OBJECT [] (reread_members [] ovs) []"
  have "parse_loop ?s (int (length pre)) new_empty NOSTATE [] =
      parse_loop ?s (int (length (pre @ ''{''))) (new_typed OBJECT) NOSTATE []"
    using parse_open(1) [of pre "w @ text @ w' @ ''}'' @ post"] by simp
  also have "\<dots> = parse_loop ?s (int (length (pre @ ''{'' @ w))) (new_typed OBJECT) NOSTATE []"
    using parse_skip [of "new_typed OBJECT" NOSTATE w "pre @ ''{''" "text @ w' @ ''}'' @ post" "[]"] w
    by simp
  also have "\<dots> = parse_loop ?s (int (length (pre @ ''{'' @ w @ text))) ?new NOSTATE []"
    using assms(1) [unfolded reads_members_def, rule_format,
        of "pre @ ''{'' @ w" "w' @ ''}'' @ post" "[]"] by (simp add: new_typed_def)
  also have "\<dots> = parse_loop ?s (int (length (pre @ ''{'' @ w @ text @ w'))) ?new NOSTATE []"
    using parse_skip [of ?new NOSTATE w' "pre @ ''{'' @ w @ text" "''}'' @ post" "[]"] w' by simp
  also have "\<dots> = ret (?new, int (length (pre @ ''{'' @ w @ text @ w')))"
    using parse_close(1) [of ?new "pre @ ''{'' @ w @ text @ w'" post] by simp
  finally show "parse_loop ?s (int (length pre)) new_empty NOSTATE [] =
      ret (reread (JsonObject OBJECT sv ovs avs),
        int (length (pre @ ''{'' @ w @ text @ w' @ ''}'')) - closing (JsonObject OBJECT sv ovs avs))"
    by (simp add: closing_def)
qed

lemma reads_back_array:
  assumes "reads_items text avs" and w: "set w \<subseteq> {CHR '','', LF, TAB}"
    and w': "set w' \<subseteq> {CHR '','', LF, TAB}"
  shows "reads_back (''['' @ w @ text @ w' @ '']'') (JsonObject ARRAY sv ovs avs)"
  unfolding reads_back_def
proof (intro allI)
  fix pre post
  let ?s = "pre @ (''['' @ w @ text @ w' @ '']'') @ post"
  let ?new = "JsonObject ARRAY [] [] (reread_items avs)"
  have "parse_loop ?s (int (length pre)) new_empty NOSTATE [] =
      parse_loop ?s (int (length (pre @ ''[''))) (new_typed ARRAY) NOSTATE []"
    using parse_open(2) [of pre "w @ text @ w' @ '']'' @ post"] by simp
  also have "\<dots> = parse_loop ?s (int (length (pre @ ''['' @ w))) (new_typed ARRAY) NOSTATE []"
    using parse_skip [of "new_typed ARRAY" NOSTATE w "pre @ ''[''" "text @ w' @ '']'' @ post" "[]"] w
    by simp
  also have "\<dots> = parse_loop ?s (int (length (pre @ ''['' @ w @ text))) ?new NOSTATE []"
    using assms(1) [unfolded reads_items_def, rule_format,
        of "pre @ ''['' @ w" "w' @ '']'' @ post" "[]"] by (simp add: new_typed_def)
  also have "\<dots> = parse_loop ?s (int (length (pre @ ''['' @ w @ text @ w'))) ?new NOSTATE []"
    using parse_skip [of ?new NOSTATE w' "pre @ ''['' @ w @ text" "'']'' @ post" "[]"] w' by simp
  also have "\<dots> = ret (?new, int (length (pre @ ''['' @ w @ text @ w')))"
    using parse_close(2) [of ?new "pre @ ''['' @ w @ text @ w'" post] by simp
  finally show "parse_loop ?s (int (length pre)) new_empty NOSTATE [] =
      ret (reread (JsonObject ARRAY sv ovs avs),
        int (length (pre @ ''['' @ w @ text @ w' @ '']'')) - closing (JsonObject ARRAY sv ovs avs))"
    by (simp add: closing_def)
qed

lemma reads_members_Cons:
  assumes "NUL \<notin> set k" and "reads_back (stringify pretty depth v) v"
    and "reads_members (stringify_members pretty depth rest) rest"
  shows "reads_members (stringify_members pretty depth ((k, v) # rest)) ((k, v) # rest)"
  unfolding reads_members_def
proof (intro allI)
  fix pre post acc
  let ?w = "indent pretty depth"
  let ?w' = "(if rest \<noteq> [] then '','' else []) @ newline_if pretty"
  let ?t = "stringify_members pretty depth rest"
  show "parse_loop (pre @ stringify_members pretty depth ((k, v) # rest) @ post)
      (int (length pre)) (JsonObject OBJECT [] acc []) NOSTATE [] =
    parse_loop (pre @ stringify_members pretty depth ((k, v) # rest) @ post)
      (int (length (pre @ stringify_members pretty depth ((k, v) # rest))))
      (JsonObject OBJECT [] (reread_members acc ((k, v) # rest)) []) NOSTATE []"
    using parse_members_step [OF assms(1,2), of "JsonObject OBJECT [] acc []" ?w ?w' pre "?t @ post"]
      set_newline_indent
      assms(3) [unfolded reads_members_def, rule_format,
        of "pre @ ?w @ escape k @ '':'' @ stringify pretty depth v @ ?w'" post
          "um_set (strip_controls k) (reread v) acc"]
    by simp
qed

lemma reads_items_Cons:
  assumes "reads_back (stringify pretty depth v) v"
    and "reads_items (stringify_items pretty depth rest) rest"
  shows "reads_items (stringify_items pretty depth (v # rest)) (v # rest)"
  unfolding reads_items_def
proof (intro allI)
  fix pre post acc
  let ?w = "indent pretty depth"
  let ?w' = "(if rest \<noteq> [] then '','' else []) @ newline_if pretty"
  let ?t = "stringify_items pretty depth rest"
  show "parse_loop (pre @ stringify_items pretty depth (v # rest) @ post)
      (int (length pre)) (JsonObject ARRAY [] [] acc) NOSTATE [] =
    parse_loop (pre @ stringify_items pretty depth (v # rest) @ post)
      (int (length (pre @ stringify_items pretty depth (v # rest))))
      (JsonObject ARRAY [] [] (acc @ reread_items (v # rest))) NOSTATE []"
    using parse_items_step [OF assms(1), of "JsonObject ARRAY [] [] acc" ?w ?w' pre "?t @ post"
        NOSTATE "[]"] set_newline_indent
      assms(2) [unfolded reads_items_def, rule_format,
        of "pre @ ?w @ stringify pretty depth v @ ?w'" post "acc @ [reread v]"]
    by simp
qed

lemma stringify_reads_back:
  "printable v \<Longrightarrow> reads_back (stringify pretty depth v) v"
  "printable_members ms \<Longrightarrow> reads_members (stringify_members pretty depth ms) ms"
  "printable_items vs \<Longrightarrow> reads_items (stringify_items pretty depth vs) vs"
proof (induction pretty depth v and pretty depth ms and pretty depth vs
    rule: stringify_stringify_members_stringify_items.induct)
  case (1 pretty depth t sv ovs avs)
  show ?case
  proof (cases t)
    case NOTYPE
    have "reads_back (escape []) (JsonObject STRING [] ovs avs)"
      by (rule reads_back_string) simp
    with NOTYPE show ?thesis
      by (simp add: reads_back_def closing_def escape_escaped strip_controls_def)
  next
    case STRING
    with 1 show ?thesis by (simp add: reads_back_string)
  next
    case OBJECT
    with 1 show ?thesis
      using reads_back_object [of _ ovs "newline_if pretty" "indent pretty depth" sv avs]
      by (simp add: set_newline_indent Let_def)
  next
    case ARRAY
    with 1 show ?thesis
      using reads_back_array [of _ avs "newline_if pretty" "indent pretty depth" sv ovs]
      by (simp add: set_newline_indent Let_def)
  qed
next
  case (2 pretty depth)
  show ?case by (simp add: reads_members_def)
next
  case (3 pretty depth k v rest)
  then show ?case by (intro reads_members_Cons) simp_all
next
  case (4 pretty depth)
  show ?case by (simp add: reads_items_def)
next
  case (5 pretty depth v rest)
  then show ?case by (intro reads_items_Cons) simp_all
qed

text \<open>
  A canonical tree is one the parser can produce from clean text: types and members agree, keys
  are distinct, and no string has a NUL or a character that the escapes lose.
\<close>

definition clean :: "string \<Rightarrow> bool" where
  "clean s = (\<forall>c \<in> set s. c \<noteq> NUL \<and> c \<noteq> LF \<and> c \<noteq> CR \<and> c \<noteq> TAB)"

fun canonical :: "JsonObject \<Rightarrow> bool"
  and canonical_members :: "(string \<times> JsonObject) list \<Rightarrow> bool"
  and canonical_items :: "JsonObject list \<Rightarrow> bool" where
  "canonical (JsonObject t sv ovs avs) =
     (case t of
        NOTYPE \<Rightarrow> False
      | STRING \<Rightarrow> clean sv \<and> ovs = [] \<and> avs = []
      | OBJECT \<Rightarrow> sv = [] \<and> avs = [] \<and> distinct (map fst ovs) \<and> canonical_members ovs
      | ARRAY \<Rightarrow> sv = [] \<and> ovs = [] \<and> canonical_items avs)"
| "canonical_members [] = True"
| "canonical_members ((k, v) # rest) = (clean k \<and> canonical v \<and> canonical_members rest)"
| "canonical_items [] = True"
| "canonical_items (v # rest) = (canonical v \<and> canonical_items rest)"

lemma clean_strip: "clean s \<Longrightarrow> strip_controls s = s"
  by (simp add: clean_def strip_controls_def filter_id_conv)

lemma clean_no_NUL: "clean s \<Longrightarrow> NUL \<notin> set s"
  by (auto simp: clean_def)

lemma um_set_new: "k \<notin> set (map fst m) \<Longrightarrow> um_set k v m = m @ [(k, v)]"
  by (induction m) (auto simp: um_set_def)

lemma canonical_reread:
  "canonical v \<Longrightarrow> printable v \<and> reread v = v"
  "canonical_members ms \<Longrightarrow> distinct (map fst acc @ map fst ms) \<Longrightarrow>
     printable_members ms \<and> reread_members acc ms = acc @ ms"
  "canonical_items vs \<Longrightarrow> printable_items vs \<and> reread_items vs = vs"
proof (induction v and acc ms and vs rule: reread_reread_members_reread_items.induct)
  case (1 t sv ovs avs)
  then show ?case
    by (cases t) (simp_all add: clean_strip clean_no_NUL new_string_def)
next
  case (3 acc k v rest)
  then show ?case by (simp add: clean_strip clean_no_NUL um_set_new)
qed simp_all

lemma parse_stringify:
  "printable v \<Longrightarrow> parse_into new_empty (stringify pretty depth v) = ret (reread v)"
  using reads_backD [OF stringify_reads_back(1), of v "[]" pretty depth "[]"]
  by (simp add: parse_into_def)

lemma parse_stringify_canonical:
  "canonical v \<Longrightarrow> parse_into new_empty (stringify pretty depth v) = ret v"
  using canonical_reread(1) by (simp add: parse_stringify)

section \<open>Termination\<close>

text \<open>How far a call gets: past its start, unless it starts on the terminator.\<close>

lemma parse_step_Next_gt:
  "parse_step s it obj st ss = Next it' obj' st' ss' \<Longrightarrow> it < it'"
  by (auto simp: parse_step_def skip_char_def split: option.splits if_splits JsonType.splits)

lemma parse_step_Return_ge:
  "parse_step s it obj st ss = Return obj' it' \<Longrightarrow>
    it - 1 \<le> it' \<and> (deref s it \<noteq> Some NUL \<longrightarrow> it \<le> it')"
  by (auto simp: parse_step_def skip_char_def split: option.splits if_splits JsonType.splits)

lemma parse_step_Nested:
  assumes "parse_step s it obj st ss = Nested c"
  shows "deref s it = Some c \<and> c \<noteq> NUL \<and>
    (c = CHR '':'' \<and> jtype obj = OBJECT \<and> st = GOTKEY
      \<or> c \<noteq> CHR '':'' \<and> (c = DQ \<or> c = CHR ''{'' \<or> c = CHR ''['') \<and> jtype obj = ARRAY)"
  using assms
  by (auto simp: parse_step_def skip_char_def split: option.splits if_splits JsonType.splits)

lemma parse_resume_ge:
  "parse_resume c obj st ss r = (it', obj', st', ss') \<Longrightarrow> snd r \<le> it'"
  by (auto simp: parse_resume_def Let_def split: if_splits)

lemma parse_loop_progress:
  assumes "parse_loop s it obj st ss = Some (Inr r)"
  shows "it - 1 \<le> snd r \<and> (deref s it \<noteq> Some NUL \<longrightarrow> it \<le> snd r)"
proof -
  let ?P = "\<lambda>(s::string) (it::int) (obj::JsonObject) (st::JsonObjectState) (ss::string)
      (res::(JsonObject \<times> int) res). \<forall>r. res = Inr r \<longrightarrow>
    it - 1 \<le> snd r \<and> (deref s it \<noteq> Some NUL \<longrightarrow> it \<le> snd r)"
  have "?P s it obj st ss (Inr r)"
  proof (rule parse_loop.raw_induct [where P = ?P, OF _ assms])
    fix f :: "string \<Rightarrow> int \<Rightarrow> JsonObject \<Rightarrow> JsonObjectState \<Rightarrow> string \<Rightarrow> (JsonObject \<times> int) prog"
    fix s it obj st ss res
    assume IH: "\<And>s it obj st ss res. f s it obj st ss = Some res \<Longrightarrow> ?P s it obj st ss res"
      and eq: "(case parse_step s it obj st ss of
        Next it' obj' st' ss' \<Rightarrow> f s it' obj' st' ss' | Return obj' it' \<Rightarrow> ret (obj', it')
        | Nested c \<Rightarrow> bindP (f s it new_empty NOSTATE [])
            (\<lambda>r. case parse_resume c obj st ss r of (it', obj', st', ss') \<Rightarrow> f s it' obj' st' ss')
        | Broken \<Rightarrow> fail OutOfBounds) = Some res"
    show "?P s it obj st ss res"
    proof (cases "parse_step s it obj st ss")
      case (Next it' obj' st' ss')
      with eq have "f s it' obj' st' ss' = Some res" by simp
      from IH [OF this] parse_step_Next_gt [OF Next] show ?thesis by auto
    next
      case (Return obj' it')
      with eq parse_step_Return_ge [OF Return] show ?thesis by (auto simp: ret_def)
    next
      case Broken
      with eq show ?thesis by (auto simp: fail_def)
    next
      case (Nested c)
      show ?thesis
      proof (intro allI impI)
        fix r assume "res = Inr r"
        with eq Nested obtain r1 where r1: "f s it new_empty NOSTATE [] = Some (Inr r1)"
          and r2: "(case parse_resume c obj st ss r1 of (it', obj', st', ss') \<Rightarrow> f s it' obj' st' ss') =
            Some (Inr r)"
          by (auto simp: bindP_eq_ret ret_def [symmetric])
        obtain it' obj' st' ss' where p: "parse_resume c obj st ss r1 = (it', obj', st', ss')"
          by (metis prod_cases4)
        from parse_step_Nested [OF Nested] have "deref s it \<noteq> Some NUL" by simp
        with IH [OF r1] have "it \<le> snd r1" by simp
        with parse_resume_ge [OF p] have "it \<le> it'" by simp
        from r2 p have "f s it' obj' st' ss' = Some (Inr r)" by simp
        from IH [OF this] \<open>it \<le> it'\<close> \<open>deref s it \<noteq> Some NUL\<close>
        show "it - 1 \<le> snd r \<and> (deref s it \<noteq> Some NUL \<longrightarrow> it \<le> snd r)"
          by (cases "it' = it") auto
      qed
    qed
  qed
  then show ?thesis by simp
qed

text \<open>
  The one way to make no progress: an opening quote in an array, as the very last character.
\<close>

definition dangling_quote :: "string \<Rightarrow> bool" where
  "dangling_quote s = (s \<noteq> [] \<and> last s = DQ)"

definition parse_rank :: "JsonObject \<Rightarrow> JsonObjectState \<Rightarrow> nat" where
  "parse_rank obj st =
     (if jtype obj = NOTYPE then 0 else if jtype obj = OBJECT \<and> st = GOTKEY then 2 else 1)"

lemma deref_Some_bound: "deref s it = Some c \<Longrightarrow> c \<noteq> NUL \<Longrightarrow> 0 \<le> it \<and> it < int (length s)"
  by (auto simp: deref_def split: if_splits)

lemma deref_after_quote:
  assumes "deref s it = Some DQ" and "NUL \<notin> set s" and "\<not> dangling_quote s"
  shows "deref s (it + 1) \<noteq> Some NUL"
proof -
  from deref_Some_bound [OF assms(1)] have b: "0 \<le> it" "it < int (length s)" by simp_all
  with assms(1) have n: "s ! nat it = DQ" by (simp add: deref_def)
  have "it + 1 \<noteq> int (length s)"
  proof
    assume "it + 1 = int (length s)"
    then have "nat it = length s - 1" and "s \<noteq> []" using b by auto
    with n have "last s = DQ" by (simp add: last_conv_nth)
    with \<open>s \<noteq> []\<close> assms(3) show False by (simp add: dangling_quote_def)
  qed
  with b have "it + 1 < int (length s)" by simp
  then have "deref s (it + 1) = Some (s ! nat (it + 1))" and "nat (it + 1) < length s"
    using b by (auto simp: deref_def)
  then show ?thesis using assms(2) nth_mem [of "nat (it + 1)" s] by force
qed

text \<open>
  Where a call ends: at the last character or before, or past it when it read a string.  The type
  of an object is set once.
\<close>

definition ends_in :: "string \<Rightarrow> JsonObject \<Rightarrow> JsonObject \<times> int \<Rightarrow> bool" where
  "ends_in s obj r \<longleftrightarrow> snd r \<le> int (length s) \<and> (jtype (fst r) \<noteq> STRING \<longrightarrow> snd r < int (length s))
     \<and> (jtype obj \<noteq> NOTYPE \<longrightarrow> jtype (fst r) = jtype obj)"

lemma deref_bound:
  assumes "deref s it = Some c" "NUL \<notin> set s"
  shows "it \<le> int (length s)" "c \<noteq> NUL \<Longrightarrow> it < int (length s)" "c = NUL \<Longrightarrow> it = int (length s)"
proof -
  show "it \<le> int (length s)" "c \<noteq> NUL \<Longrightarrow> it < int (length s)"
    using assms(1) by (auto simp: deref_def split: if_splits)
  show "it = int (length s)" if "c = NUL"
  proof (rule ccontr)
    assume "it \<noteq> int (length s)"
    with assms(1) have "s ! nat it = NUL" "nat it < length s"
      using that by (auto simp: deref_def split: if_splits)
    with assms(2) nth_mem [of "nat it" s] show False by simp
  qed
qed

lemma parse_step_Return_ends:
  "parse_step s it obj st ss = Return obj' it' \<Longrightarrow> NUL \<notin> set s \<Longrightarrow> ends_in s obj (obj', it')"
  by (auto simp: parse_step_def skip_char_def ends_in_def split: option.splits if_splits JsonType.splits
      dest: deref_bound)

lemma parse_step_Next_type:
  "parse_step s it obj st ss = Next it' obj' st' ss' \<Longrightarrow> jtype obj \<noteq> NOTYPE \<Longrightarrow> jtype obj' = jtype obj"
  by (auto simp: parse_step_def skip_char_def split: option.splits if_splits JsonType.splits)

lemma parse_resume_type:
  "parse_resume c obj st ss r = (it', obj', st', ss') \<Longrightarrow> jtype obj' = jtype obj"
  by (auto simp: parse_resume_def Let_def split: if_splits)

lemma parse_loop_ends:
  assumes "parse_loop s it obj st ss = Some (Inr r)" "NUL \<notin> set s"
  shows "ends_in s obj r"
proof -
  let ?P = "\<lambda>(s::string) (it::int) (obj::JsonObject) (st::JsonObjectState) (ss::string)
      (res::(JsonObject \<times> int) res). \<forall>r. res = Inr r \<longrightarrow> NUL \<notin> set s \<longrightarrow> ends_in s obj r"
  have "?P s it obj st ss (Inr r)"
  proof (rule parse_loop.raw_induct [where P = ?P, OF _ assms(1)])
    fix f :: "string \<Rightarrow> int \<Rightarrow> JsonObject \<Rightarrow> JsonObjectState \<Rightarrow> string \<Rightarrow> (JsonObject \<times> int) prog"
    fix s it obj st ss res
    assume IH: "\<And>s it obj st ss res. f s it obj st ss = Some res \<Longrightarrow> ?P s it obj st ss res"
      and eq: "(case parse_step s it obj st ss of
        Next it' obj' st' ss' \<Rightarrow> f s it' obj' st' ss' | Return obj' it' \<Rightarrow> ret (obj', it')
        | Nested c \<Rightarrow> bindP (f s it new_empty NOSTATE [])
            (\<lambda>r. case parse_resume c obj st ss r of (it', obj', st', ss') \<Rightarrow> f s it' obj' st' ss')
        | Broken \<Rightarrow> fail OutOfBounds) = Some res"
    show "?P s it obj st ss res"
    proof (intro allI impI)
      fix r assume r: "res = Inr r" and s: "NUL \<notin> set s"
      show "ends_in s obj r"
      proof (cases "parse_step s it obj st ss")
        case (Next it' obj' st' ss')
        with eq have "f s it' obj' st' ss' = Some res" by simp
        from IH [OF this] r s have "ends_in s obj' r" by simp
        with parse_step_Next_type [OF Next] show ?thesis by (auto simp: ends_in_def)
      next
        case (Return obj' it')
        with eq r parse_step_Return_ends [OF Return s] show ?thesis by (simp add: ret_def)
      next
        case Broken
        with eq r show ?thesis by (simp add: fail_def)
      next
        case (Nested c)
        with eq r obtain r1 where
          r2: "(case parse_resume c obj st ss r1 of (it', obj', st', ss') \<Rightarrow> f s it' obj' st' ss') =
            Some (Inr r)"
          by (auto simp: bindP_eq_ret ret_def [symmetric])
        obtain it' obj' st' ss' where p: "parse_resume c obj st ss r1 = (it', obj', st', ss')"
          by (metis prod_cases4)
        from r2 p have "f s it' obj' st' ss' = Some (Inr r)" by simp
        from IH [OF this] s have "ends_in s obj' r" by simp
        with parse_resume_type [OF p] show ?thesis by (simp add: ends_in_def)
      qed
    qed
  qed
  with assms(2) show ?thesis by simp
qed

text \<open>A value in an array that is begun by a bracket is no string, so that its end is a character.\<close>

lemma parse_resume_le:
  assumes n: "parse_step s it obj st ss = Nested c" and s: "NUL \<notin> set s"
    and r: "parse_loop s it new_empty NOSTATE [] = Some (Inr r)"
    and p: "parse_resume c obj st ss r = (it', obj', st', ss')"
  shows "it' \<le> int (length s)"
proof (cases "c = CHR '':'' \<or> c = DQ")
  case True
  with parse_loop_ends [OF r s] p show ?thesis
    by (auto simp: parse_resume_def ends_in_def Let_def split: if_splits)
next
  case False
  with parse_step_Nested [OF n] have d: "deref s it = Some c" "c = CHR ''{'' \<or> c = CHR ''[''" by auto
  have "\<exists>t. (t = OBJECT \<or> t = ARRAY) \<and>
      parse_step s it new_empty NOSTATE [] = Next (it + 1) (set_type t new_empty) NOSTATE []"
    using d(2)
  proof
    assume "c = CHR ''{''"
    with d(1) show ?thesis by (intro exI [of _ OBJECT]) (simp add: parse_step_def)
  next
    assume "c = CHR ''[''"
    with d(1) show ?thesis by (intro exI [of _ ARRAY]) (simp add: parse_step_def)
  qed
  then obtain t where t: "t = OBJECT \<or> t = ARRAY"
    "parse_step s it new_empty NOSTATE [] = Next (it + 1) (set_type t new_empty) NOSTATE []"
    by blast
  with r have "parse_loop s (it + 1) (set_type t new_empty) NOSTATE [] = Some (Inr r)"
    by (simp add: parse_loop_Next)
  from parse_loop_ends [OF this s] t(1) have "snd r < int (length s)" by (auto simp: ends_in_def)
  with p False show ?thesis by (auto simp: parse_resume_def Let_def)
qed

text \<open>A text that ends in a backslash: the escape takes the terminator for a character.\<close>

definition dangling_escape :: "string \<Rightarrow> bool" where
  "dangling_escape s = (s \<noteq> [] \<and> last s = BSL)"

lemma deref_last:
  assumes "deref s it = Some c" "c \<noteq> NUL" "it + 1 = int (length s)"
  shows "s \<noteq> [] \<and> last s = c"
proof -
  from deref_Some_bound [OF assms(1,2)] have b: "0 \<le> it" "it < int (length s)" by simp_all
  with assms(3) have "nat it = length s - 1" "s \<noteq> []" by auto
  with assms(1) b show ?thesis by (auto simp: deref_def last_conv_nth split: if_splits)
qed

lemma deref_inside: "0 \<le> it \<Longrightarrow> it \<le> int (length s) \<Longrightarrow> deref s it \<noteq> None"
  by (simp add: deref_def)

lemma parse_step_Next_le:
  "parse_step s it obj st ss = Next it' obj' st' ss' \<Longrightarrow> deref s it = Some c \<Longrightarrow>
    c \<noteq> NUL \<and> it' \<le> (if c = BSL then it + 2 else it + 1)"
  by (auto simp: parse_step_def skip_char_def split: option.splits if_splits JsonType.splits)

lemma parse_step_Broken:
  "parse_step s it obj st ss = Broken \<Longrightarrow>
    deref s it = None \<or> deref s it = Some BSL \<and> deref s (it + 1) = None"
  by (auto simp: parse_step_def skip_char_def split: option.splits if_splits JsonType.splits)

lemma parse_step_inside:
  assumes s: "NUL \<notin> set s" "\<not> dangling_escape s" and it: "0 \<le> it" "it \<le> int (length s)"
  shows "parse_step s it obj st ss \<noteq> Broken"
    and "parse_step s it obj st ss = Next it' obj' st' ss' \<Longrightarrow> it' \<le> int (length s)"
proof -
  obtain c where c: "deref s it = Some c" using deref_inside [OF it] by blast
  have lt: "it < int (length s)" if "c \<noteq> NUL" using deref_bound(2) [OF c s(1)] that .
  have lt2: "it + 1 < int (length s)" if b: "c = BSL"
  proof -
    have "it + 1 \<noteq> int (length s)"
      using deref_last [OF c] b s(2) by (auto simp: dangling_escape_def)
    with lt b show ?thesis by simp
  qed
  have "deref s (it + 1) \<noteq> None" if "c = BSL" using lt2 [OF that] it by (intro deref_inside) simp_all
  with parse_step_Broken [of s it obj st ss] c show "parse_step s it obj st ss \<noteq> Broken" by auto
  show "it' \<le> int (length s)" if "parse_step s it obj st ss = Next it' obj' st' ss'"
    using parse_step_Next_le [OF that c] lt lt2 by (auto split: if_splits)
qed

text \<open>
  One induction for both: the loop returns, and without a dangling escape it returns properly.
\<close>

lemma parse_loop_returns:
  assumes "NUL \<notin> set s" and "\<not> dangling_quote s" and "0 \<le> it"
  shows "\<exists>r. parse_loop s it obj st ss = Some r
    \<and> (\<not> dangling_escape s \<longrightarrow> it \<le> int (length s) \<longrightarrow> (\<exists>v. r = Inr v))"
  using assms(3)
proof (induction "(nat (int (length s) + 1 - it), parse_rank obj st)" arbitrary: it obj st ss
    rule: wf_induct_rule [OF wf_lex_prod [OF wf_less wf_less]])
  case (1 it obj st ss)
  let ?good = "\<lambda>it r. \<not> dangling_escape s \<longrightarrow> it \<le> int (length s) \<longrightarrow> (\<exists>v. r = Inr v)"
  have IH: "\<exists>r. parse_loop s it' obj' st' ss' = Some r \<and> ?good it' r"
    if "0 \<le> it'" and "nat (int (length s) + 1 - it') < nat (int (length s) + 1 - it)
      \<or> it' = it \<and> parse_rank obj' st' < parse_rank obj st" for it' obj' st' ss'
    using "1.hyps" [of it' obj' st' ss'] that by auto
  have further: "nat (int (length s) + 1 - it') < nat (int (length s) + 1 - it)"
    if "it < it'" and "it < int (length s)" for it' using that by auto
  note inside = parse_step_inside [OF assms(1) _ "1.prems"]
  show ?case
  proof (cases "parse_step s it obj st ss")
    case (Return obj' it')
    then show ?thesis by (simp add: parse_loop_Return ret_def)
  next
    case Broken
    with inside(1) show ?thesis by (auto simp: parse_loop_Broken fail_def)
  next
    case (Next it' obj' st' ss')
    note gt = parse_step_Next_gt [OF Next]
    from Next have "it < int (length s)"
      by (auto simp: parse_step_def deref_def split: if_splits option.splits)
    then have "\<exists>r. parse_loop s it' obj' st' ss' = Some r \<and> ?good it' r"
      using gt "1.prems" by (intro IH disjI1 further) auto
    with parse_loop_Next [OF Next] inside(2) [OF _ _ Next] show ?thesis by auto
  next
    case (Nested c)
    note n = parse_step_Nested [OF Nested]
    from n have lt: "it < int (length s)" using deref_Some_bound by blast
    have "parse_rank new_empty NOSTATE < parse_rank obj st"
      using n by (auto simp: parse_rank_def)
    then obtain r where r: "parse_loop s it new_empty NOSTATE [] = Some r" "?good it r"
      using IH [of it new_empty NOSTATE "[]"] "1.prems" by auto
    show ?thesis
    proof (cases r)
      case (Inl e)
      with Nested r lt show ?thesis by (subst parse_loop.simps) auto
    next
      case (Inr r1)
      obtain it' obj' st' ss' where p: "parse_resume c obj st ss r1 = (it', obj', st', ss')"
        by (metis prod_cases4)
      have go: "parse_loop s it obj st ss = parse_loop s it' obj' st' ss'"
        using Nested r Inr p by (subst parse_loop.simps) simp
      have ge: "it \<le> snd r1"
        using parse_loop_progress [of s it new_empty NOSTATE "[]" r1] r Inr n by simp
      have le: "it' \<le> int (length s)"
        using parse_resume_le [OF Nested assms(1) _ p] r Inr by simp
      have "it < it' \<or> it' = it \<and> parse_rank obj' st' < parse_rank obj st"
      proof (cases "c = CHR '':''")
        case True
        with p have "st' = NOSTATE" and "jtype obj' = jtype obj" and "snd r1 \<le> it'"
          by (auto simp: parse_resume_def Let_def split: if_splits)
        with True n ge show ?thesis by (auto simp: parse_rank_def)
      next
        case False
        show ?thesis
        proof (cases "c = DQ")
          case True
          have "parse_step s it new_empty NOSTATE [] =
              Next (it + 1) (set_type STRING new_empty) NOSTATE []"
            using True n by (simp add: parse_step_def)
          from parse_loop_Next [OF this] r Inr
          have "parse_loop s (it + 1) (set_type STRING new_empty) NOSTATE [] = Some (Inr r1)"
            by simp
          from parse_loop_progress [OF this] deref_after_quote [of s it] True n assms(1,2)
          have "it + 1 \<le> snd r1" by simp
          with parse_resume_ge [OF p] show ?thesis by simp
        next
          case False
          with \<open>c \<noteq> CHR '':''\<close> p ge show ?thesis by (auto simp: parse_resume_def Let_def)
        qed
      qed
      then have "\<exists>r. parse_loop s it' obj' st' ss' = Some r \<and> ?good it' r"
        using "1.prems" lt by (intro IH) (auto simp: further)
      with go le show ?thesis by auto
    qed
  qed
qed

lemma parse_into_proper:
  assumes "NUL \<notin> set s" "\<not> dangling_quote s" "\<not> dangling_escape s"
  shows "\<exists>obj'. parse_into obj s = ret obj'"
proof -
  obtain v where "parse_loop s 0 obj NOSTATE [] = Some (Inr v)"
    using parse_loop_returns [OF assms(1,2), of 0 obj NOSTATE "[]"] assms(3) by auto
  then show ?thesis by (simp add: parse_into_def bindP_def)
qed

text \<open>Printed text is read by an object that already is an object: its members are added.\<close>

lemma escaped_no_NUL: "NUL \<notin> set s \<Longrightarrow> NUL \<notin> set (escape s)"
  by (induction s) (auto simp: escape_escaped)

lemma stringify_no_NUL:
  "printable v \<Longrightarrow> NUL \<notin> set (stringify pretty depth v)"
  "printable_members ms \<Longrightarrow> NUL \<notin> set (stringify_members pretty depth ms)"
  "printable_items vs \<Longrightarrow> NUL \<notin> set (stringify_items pretty depth vs)"
  by (induction pretty depth v and pretty depth ms and pretty depth vs
      rule: stringify_stringify_members_stringify_items.induct)
    (auto simp: Let_def escaped_no_NUL newline_if_def indent_def split: JsonType.splits if_splits)

lemma parse_into_object:
  assumes "printable (JsonObject OBJECT sv ovs avs)"
  shows "parse_into (JsonObject OBJECT [] acc [])
      (stringify pretty depth (JsonObject OBJECT sv ovs avs)) =
    ret (JsonObject OBJECT [] (reread_members acc ovs) [])"
proof -
  let ?d = "if pretty then depth + 1 else depth"
  let ?m = "stringify_members pretty ?d ovs"
  let ?nl = "newline_if pretty" and ?in = "indent pretty depth"
  let ?s = "''{'' @ ?nl @ ?m @ ?in @ ''}''"
  let ?old = "JsonObject OBJECT [] acc []"
  let ?new = "JsonObject OBJECT [] (reread_members acc ovs) []"
  have "reads_members ?m ovs"
    using assms stringify_reads_back(2) [of ovs pretty ?d] by simp
  then have m: "parse_loop (pre @ ?m @ post) (int (length pre)) ?old NOSTATE [] =
      parse_loop (pre @ ?m @ post) (int (length (pre @ ?m))) ?new NOSTATE []" for pre post
    by (simp only: reads_members_def)
  have "parse_step ?s 0 ?old NOSTATE [] = Next 1 ?old NOSTATE []"
    by (simp add: parse_step_def deref_def skip_char_def collect_def)
  from parse_loop_Next [OF this]
  have "parse_loop ?s 0 ?old NOSTATE [] = parse_loop ?s (int (length ''{'')) ?old NOSTATE []"
    by simp
  also have "\<dots> = parse_loop ?s (int (length (''{'' @ ?nl))) ?old NOSTATE []"
    using parse_skip [of ?old NOSTATE ?nl "''{''" "?m @ ?in @ ''}''" "[]"]
    by (simp add: set_newline_indent)
  also have "\<dots> = parse_loop ?s (int (length (''{'' @ ?nl @ ?m))) ?new NOSTATE []"
    using m [of "''{'' @ ?nl" "?in @ ''}''"] by simp
  also have "\<dots> = parse_loop ?s (int (length (''{'' @ ?nl @ ?m @ ?in))) ?new NOSTATE []"
    using parse_skip [of ?new NOSTATE ?in "''{'' @ ?nl @ ?m" "''}''" "[]"]
    by (simp add: set_newline_indent)
  also have "\<dots> = ret (?new, int (length (''{'' @ ?nl @ ?m @ ?in)))"
    using parse_close(1) [of ?new "''{'' @ ?nl @ ?m @ ?in" "[]"] by simp
  finally show ?thesis
    by (simp add: parse_into_def Let_def)
qed

section \<open>Flat objects\<close>

text \<open>An object with strings as members, in the order given, and its text.\<close>

definition message_of :: "(string \<times> string) list \<Rightarrow> JsonObject" where
  "message_of kvs = JsonObject OBJECT [] (map (\<lambda>(k, v). (k, new_string v)) kvs) []"

definition text_of :: "(string \<times> string) list \<Rightarrow> string" where
  "text_of kvs = stringify False 0 (message_of kvs)"

definition plain :: "(string \<times> string) list \<Rightarrow> bool" where
  "plain kvs = (distinct (map fst kvs) \<and> list_all (\<lambda>(k, v). clean k \<and> clean v) kvs)"

lemma parse_plain:
  assumes "plain kvs"
  shows "parse_into new_empty (c_str (text_of kvs)) = ret (message_of kvs)"
proof -
  have "list_all (\<lambda>(k, v). clean k \<and> clean v) kvs \<Longrightarrow>
      canonical_members (map (\<lambda>(k, v). (k, new_string v)) kvs)" for kvs
    by (induction kvs) (auto simp: new_string_def)
  moreover have "map fst (map (\<lambda>(k, v). (k, new_string v)) kvs) = map fst kvs"
    by (simp add: split_def)
  ultimately have c: "canonical (message_of kvs)"
    using assms unfolding message_of_def plain_def by (simp del: map_map)
  then have "NUL \<notin> set (text_of kvs)"
    unfolding text_of_def using canonical_reread(1) stringify_no_NUL(1) by blast
  then show ?thesis
    by (simp add: c_str_id text_of_def parse_stringify_canonical [OF c])
qed

text \<open>The same with a key given more than once: the last one counts.\<close>

lemma reread_strings:
  "list_all (\<lambda>(k, v). clean k \<and> clean v) kvs \<Longrightarrow>
    printable_members (map (\<lambda>(k, v). (k, new_string v)) kvs)
    \<and> reread_members acc (map (\<lambda>(k, v). (k, new_string v)) kvs) =
      foldl (\<lambda>m (k, v). um_set k (new_string v) m) acc kvs"
  by (induction kvs arbitrary: acc) (auto simp: new_string_def clean_strip clean_no_NUL)

lemma parse_strings:
  assumes "list_all (\<lambda>(k, v). clean k \<and> clean v) kvs"
  shows "parse_into new_empty (c_str (text_of kvs)) =
    ret (JsonObject OBJECT [] (foldl (\<lambda>m (k, v). um_set k (new_string v) m) [] kvs) [])"
proof -
  note r = reread_strings [OF assms]
  then have p: "printable (message_of kvs)" by (simp add: message_of_def)
  then have "NUL \<notin> set (text_of kvs)" unfolding text_of_def by (rule stringify_no_NUL(1))
  then show ?thesis
    using r by (simp add: c_str_id text_of_def parse_stringify [OF p]) (simp add: message_of_def)
qed

definition quoted :: "string \<Rightarrow> string" where
  "quoted s = [DQ] @ s @ [DQ]"

text \<open>A text that is written between quotes as it is.\<close>

definition quoteless :: "string \<Rightarrow> bool" where
  "quoteless s \<longleftrightarrow> clean s \<and> DQ \<notin> set s \<and> BSL \<notin> set s"

lemma escape_quoteless: "quoteless s \<Longrightarrow> escape s = quoted s"
proof -
  have "quoteless s \<Longrightarrow> concat (map escape_char s) = s"
    by (induction s) (auto simp: quoteless_def clean_def)
  then show "quoteless s \<Longrightarrow> escape s = quoted s" by (simp add: escape_def quoted_def)
qed

lemma flat_text:
  "indent False d = []" "newline_if False = []" "stringify False d (new_string v) = escape v"
  by (simp_all add: new_string_def indent_def newline_if_def)

lemma text_of_members:
  "text_of kvs = ''{'' @ stringify_members False 0 (map (\<lambda>(k, v). (k, new_string v)) kvs) @ ''}''"
  by (simp add: text_of_def message_of_def newline_if_def indent_def)

section \<open>Divergence\<close>

text \<open>
  An array that meets an opening quote as the last character of the text parses an empty string
  value forever: the nested call returns the position it started from.
\<close>

lemma parse_loop_stuck:
  assumes "jtype obj = ARRAY"
  shows "parse_loop (w @ [DQ]) (int (length w)) obj st ss = None"
proof (rule ccontr)
  assume "parse_loop (w @ [DQ]) (int (length w)) obj st ss \<noteq> None"
  then obtain res where res: "parse_loop (w @ [DQ]) (int (length w)) obj st ss = Some res" by blast
  let ?n = "int (length w)"
  let ?P = "\<lambda>(s::string) (it::int) (obj::JsonObject) (st::JsonObjectState) (ss::string)
      (res::(JsonObject \<times> int) res). s = w @ [DQ] \<longrightarrow>
    (it = ?n \<longrightarrow> jtype obj \<noteq> ARRAY)
    \<and> (it = ?n \<and> jtype obj = NOTYPE \<longrightarrow> (\<exists>o'. res = Inr (o', ?n)))
    \<and> (it = ?n + 1 \<longrightarrow> (\<exists>o'. res = Inr (o', ?n)))"
  have d: "deref (w @ [DQ]) ?n = Some DQ" "deref (w @ [DQ]) (?n + 1) = Some NUL"
    by (simp_all add: deref_def)
  have "?P (w @ [DQ]) ?n obj st ss res"
  proof (rule parse_loop.raw_induct [where P = ?P, OF _ res])
    fix f :: "string \<Rightarrow> int \<Rightarrow> JsonObject \<Rightarrow> JsonObjectState \<Rightarrow> string \<Rightarrow> (JsonObject \<times> int) prog"
    fix s it obj st ss res
    assume IH: "\<And>s it obj st ss res. f s it obj st ss = Some res \<Longrightarrow> ?P s it obj st ss res"
      and eq: "(case parse_step s it obj st ss of
        Next it' obj' st' ss' \<Rightarrow> f s it' obj' st' ss' | Return obj' it' \<Rightarrow> ret (obj', it')
        | Nested c \<Rightarrow> bindP (f s it new_empty NOSTATE [])
            (\<lambda>r. case parse_resume c obj st ss r of (it', obj', st', ss') \<Rightarrow> f s it' obj' st' ss')
        | Broken \<Rightarrow> fail OutOfBounds) = Some res"
    show "?P s it obj st ss res"
    proof (intro impI conjI notI)
      assume s: "s = w @ [DQ]" and it: "it = ?n" and a: "jtype obj = ARRAY"
      then have "parse_step s it obj st ss = Nested DQ" by (simp add: parse_step_def)
      with eq have "bindP (f s it new_empty NOSTATE []) (\<lambda>r. f s (snd r)
          (push_arrayValue (fst r) obj) st ss) = Some res"
        by (simp add: parse_resume_def Let_def)
      then consider r where "f s it new_empty NOSTATE [] = Some (Inr r)"
          "f s (snd r) (push_arrayValue (fst r) obj) st ss = Some res"
        | e where "f s it new_empty NOSTATE [] = Some (Inl e)"
        by (cases rule: bindP_cases) (auto simp: ret_def fail_def)
      then show False
      proof cases
        case (1 r)
        from IH [OF 1(1)] s it have "snd r = ?n" by auto
        with IH [OF 1(2)] s a show False by simp
      next
        case (2 e)
        from IH [OF this] s it show False by simp
      qed
    next
      assume s: "s = w @ [DQ]" and it: "it = ?n \<and> jtype obj = NOTYPE"
      then have "parse_step s it obj st ss = Next (?n + 1) (set_type STRING obj) st ss"
        by (simp add: parse_step_def)
      with eq have "f s (?n + 1) (set_type STRING obj) st ss = Some res" by simp
      from IH [OF this] s show "\<exists>o'. res = Inr (o', ?n)" by simp
    next
      assume s: "s = w @ [DQ]" and it: "it = ?n + 1"
      then have "parse_step s it obj st ss = Return obj ?n"
        using d(2) by (simp add: parse_step_def)
      with eq show "\<exists>o'. res = Inr (o', ?n)" by (auto simp: ret_def)
    qed
  qed
  with assms show False by simp
qed

text \<open>\<open>["\<close> and \<open>["\<close> with a prefix of complete string items never return.\<close>

lemma parse_array_stuck:
  assumes "printable_items vs" and "vs \<noteq> []"
  shows "parse_into new_empty (CHR ''['' # stringify_items False 0 vs @ '','' @ [DQ]) = None"
proof -
  let ?t = "stringify_items False 0 vs"
  let ?s = "''['' @ ?t @ '','' @ [DQ]"
  have "parse_loop ?s 0 new_empty NOSTATE [] =
      parse_loop ?s (int (length ''['')) (JsonObject ARRAY [] [] []) NOSTATE []"
    using parse_open(2) [of "[]" "?t @ '','' @ [DQ]"] by (simp add: new_typed_def)
  also have "\<dots> = parse_loop ?s (int (length (''['' @ ?t))) (JsonObject ARRAY [] [] (reread_items vs))
      NOSTATE []"
    using stringify_reads_back(3) [OF assms(1), of False 0, unfolded reads_items_def, rule_format,
        of "''[''" "'','' @ [DQ]" "[]"] by simp
  also have "\<dots> = parse_loop ?s (int (length (''['' @ ?t @ '',''))) (JsonObject ARRAY [] [] (reread_items vs))
      NOSTATE []"
    using parse_skip [of "JsonObject ARRAY [] [] (reread_items vs)" NOSTATE "'',''" "''['' @ ?t" "[DQ]" "[]"]
    by simp
  also have "\<dots> = None"
    using parse_loop_stuck [of "JsonObject ARRAY [] [] (reread_items vs)" "''['' @ ?t @ '',''"] by simp
  finally show ?thesis by (simp add: parse_into_def)
qed

lemma parse_quote_stuck:
  assumes "jtype obj = NOTYPE"
  shows "parse_into obj [CHR ''['', DQ] = None"
proof -
  let ?s = "[CHR ''[''] @ [DQ]"
  have "parse_step ?s 0 obj NOSTATE [] = Next 1 (set_type ARRAY obj) NOSTATE []"
    using assms by (simp add: parse_step_def deref_def)
  from parse_loop_Next [OF this]
  have "parse_loop ?s 0 obj NOSTATE [] =
      parse_loop ?s (int (length [CHR ''[''])) (set_type ARRAY obj) NOSTATE []" by simp
  also have "\<dots> = None" by (rule parse_loop_stuck) simp
  finally show ?thesis by (simp add: parse_into_def)
qed

section \<open>Escapes\<close>

lemma deescape_plain: "c \<noteq> BSL \<Longrightarrow> deescape (c # s) = c # deescape s"
  by (cases s) simp_all

lemma deescape_escape_char: "deescape (escape_char c @ s) = c # deescape s"
proof (cases "c = LF \<or> c = CR \<or> c = TAB \<or> c = DQ \<or> c = BSL")
  case True
  then show ?thesis by (elim disjE) simp_all
next
  case False
  then show ?thesis by (simp add: deescape_plain)
qed

lemma deescape_escaped: "deescape (escaped s) = s"
  by (induction s) (simp_all add: deescape_escape_char del: escape_char.simps)

text \<open>The body of an escaped string is undone by \<open>deescape\<close>, whatever the string.\<close>

interpretation esc: codec escape "\<lambda>t. Some (deescape (butlast (tl t)))" "\<lambda>_. True"
  by unfold_locales (simp add: escape_escaped deescape_escaped)

interpretation json: codec "stringify False 0"
  "\<lambda>t. case parse_into new_empty t of Some (Inr v) \<Rightarrow> Some v | _ \<Rightarrow> None" canonical
  by unfold_locales (simp add: parse_stringify_canonical ret_def)

section \<open>What the parser and the printer promise\<close>

text \<open>
  C4. Parsing the text that \<open>stringify\<close> prints, compact or indented, gives the same tree back,
  for every tree without control characters and with consistent types: keys, nesting, order of
  items and escaped quotes and backslashes all survive.
\<close>

theorem stringify_roundtrip:
  assumes "canonical v"
  shows "parse_into new_empty (stringify pretty depth v) = ret v"
  by (rule parse_stringify_canonical [OF assms])

definition sample_json :: JsonObject where
  "sample_json = JsonObject OBJECT []
     [(''k'' @ [DQ], JsonObject ARRAY [] [] [JsonObject STRING (''a'' @ [BSL]) [] [],
        JsonObject OBJECT [] [] []]), (''z'', JsonObject STRING [] [] [])] []"

lemma stringify_roundtrip_witness:
  "canonical sample_json \<and> parse_into new_empty (stringify True 0 sample_json) = ret sample_json"
proof -
  have "canonical sample_json" by (simp add: sample_json_def clean_def)
  with stringify_roundtrip [of sample_json True 0] show ?thesis by simp
qed

text \<open>
  Any tree whose strings have no NUL parses back from its own text to \<open>reread\<close> of it: a
  typeless value comes back as an empty string, and line feeds, carriage returns and tabulators,
  which the printer escapes, are lost by the parser.
\<close>

theorem stringify_reread:
  assumes "printable v"
  shows "parse_into new_empty (stringify pretty depth v) = ret (reread v)"
  by (rule parse_stringify [OF assms])

lemma stringify_reread_witness:
  "parse_into new_empty (stringify False 0 (new_string [CHR ''a'', LF, CHR ''b''])) =
     ret (new_string ''ab'')"
proof -
  have "printable (new_string [CHR ''a'', LF, CHR ''b''])" by (simp add: new_string_def)
  from stringify_reread [OF this, of False 0] show ?thesis
    by (simp add: new_string_def strip_controls_def)
qed

text \<open>
  C16. The parser returns a tree, and reads nothing outside of the text, for every text without a
  NUL that ends neither in a quotation mark nor in a backslash, whatever object it fills.
\<close>

theorem parse_terminates:
  assumes "NUL \<notin> set s" and "\<not> dangling_quote s" and "\<not> dangling_escape s"
  shows "\<exists>obj'. parse_into obj s = ret obj'"
  by (rule parse_into_proper [OF assms])

lemma parse_terminates_witness: "\<exists>obj'. parse_into new_empty ''{[}]:'' = ret obj'"
  by (rule parse_terminates) (simp_all add: dangling_quote_def dangling_escape_def)

text \<open>A string that ends in a backslash is read past its terminator.\<close>

theorem dangling_escape_overruns: "parse_into new_empty [DQ, BSL] = fail OutOfBounds"
proof -
  have "parse_loop [DQ, BSL] 0 new_empty NOSTATE [] = parse_loop [DQ, BSL] 1 (set_type STRING new_empty) NOSTATE []"
    by (rule parse_loop_Next) code_simp
  also have "\<dots> = parse_loop [DQ, BSL] 3 (set_type STRING new_empty) NOSTATE [NUL]"
    by (rule parse_loop_Next) code_simp
  also have "\<dots> = fail OutOfBounds" by (rule parse_loop_Broken) code_simp
  finally show ?thesis by (simp add: parse_into_def)
qed

text \<open>
  An opening quote at the very end of an array that was begun, after any complete items,
  makes the parser loop forever: the nested call for the string returns where it started.
\<close>

theorem parse_diverges:
  assumes "printable_items vs" and "vs \<noteq> []"
  shows "parse_into new_empty (CHR ''['' # stringify_items False 0 vs @ '','' @ [DQ]) = None"
  by (rule parse_array_stuck [OF assms])

lemma parse_diverges_witness: "parse_into new_empty ([CHR ''['', DQ, CHR ''a'', DQ] @ '','' @ [DQ]) = None"
  using parse_diverges [of "[new_string ''a'']"] by (simp add: new_string_def escape_def indent_def newline_if_def)

text \<open>
  \<open>deescape\<close> undoes \<open>escape\<close>: the text between the quotes of an escaped string comes back
  character for character, control characters included.
\<close>

theorem deescape_escape: "deescape (butlast (tl (escape s))) = s"
  using esc.dec_enc [of s] by simp

end
