(* ===== verification/Util.thy ===== *)
theory Util
  imports Json
begin

text \<open>
  The string functions of \<open>cpp-source/util.cpp\<close>: the bounded comparison, the URL encoding,
  replacement, prefixes and suffixes, the redirection page; and the two accessors of
  \<open>cpp-source/json.cpp\<close> that use them.
\<close>

section \<open>Comparison\<close>

text \<open>
  \<open>strict_compare_inequal(first, second, count)\<close>.  With a positive \<open>count\<close> the characters are
  compared until they differ, without a look at the terminators; a negative count, the default,
  compares nothing; count 0 compares until the first difference or the first terminator.
\<close>

fun compare_n :: "nat \<Rightarrow> string \<Rightarrow> string \<Rightarrow> bool res" where
  "compare_n 0 first second = Inr False"
| "compare_n (Suc n) first second =
     (if peek first \<noteq> peek second then Inr True
      else if n = 0 then Inr False
      else (case first of
          [] \<Rightarrow> Inl OutOfBounds
        | _ # first' \<Rightarrow> (case second of [] \<Rightarrow> Inl OutOfBounds | _ # second' \<Rightarrow>
            compare_n n first' second')))"

fun compare_all :: "string \<Rightarrow> string \<Rightarrow> bool res" where
  "compare_all first second =
     (let a = schar (peek first); b = schar (peek second) in
      if peek first \<noteq> peek second \<or> a + b = a \<or> a + b = b then Inr True
      else (case first of
          [] \<Rightarrow> Inl OutOfBounds
        | _ # first' \<Rightarrow> (case second of [] \<Rightarrow> Inl OutOfBounds | _ # second' \<Rightarrow>
            compare_all first' second')))"

declare compare_all.simps [simp del]

definition strict_compare_inequal :: "string \<Rightarrow> string \<Rightarrow> int \<Rightarrow> bool res" where
  "strict_compare_inequal first second count =
     (if count \<noteq> 0 then compare_n (nat count) first second else compare_all first second)"

lemma compare_n_prefix:
  "NUL \<notin> set lit \<Longrightarrow> compare_n (length lit) s lit = Inr (\<not> starts_with s lit)"
proof (induction lit arbitrary: s)
  case (Cons a lit)
  show ?case
  proof (cases s)
    case Nil
    with Cons.prems show ?thesis by (auto simp: starts_with_def)
  next
    case (Cons c cs)
    then show ?thesis
      using Cons.prems Cons.IH [of cs] by (cases lit) (auto simp: starts_with_def)
  qed
qed (simp add: starts_with_def)

lemma compare_literal:
  "NUL \<notin> set lit \<Longrightarrow> lit \<noteq> [] \<Longrightarrow>
    strict_compare_inequal s lit (int (length lit)) = Inr (\<not> starts_with s lit)"
  by (simp add: strict_compare_inequal_def compare_n_prefix)

section \<open>URL encoding\<close>

definition hex_digit :: "nat \<Rightarrow> char" where
  "hex_digit n = (if n < 10 then char_of (48 + n) else char_of (55 + n))"

text \<open>\<open>sprintf(buf, "%X", c)\<close>: the argument is the promoted, possibly negative character.\<close>

fun hex_upper :: "nat \<Rightarrow> string" where
  "hex_upper n = (if n < 16 then [hex_digit n] else hex_upper (n div 16) @ [hex_digit (n mod 16)])"

declare hex_upper.simps [simp del]

definition is_alnum :: "char \<Rightarrow> bool" where
  "is_alnum c =
     (is_digit c \<or> 65 \<le> uchar c \<and> uchar c \<le> 90 \<or> 97 \<le> uchar c \<and> uchar c \<le> 122)"

definition url_encode_char :: "char \<Rightarrow> string" where
  "url_encode_char c =
     (if c = CHR '' '' then ''+''
      else if is_alnum c \<or> c = CHR ''-'' \<or> c = CHR ''_'' \<or> c = CHR ''.'' \<or> c = CHR ''~'' then [c]
      else (if schar c < 16 then ''%0'' else ''%'') @ hex_upper (nat (schar c mod 2 ^ 32)))"

definition url_encode :: "string \<Rightarrow> string" where
  "url_encode str = concat (map url_encode_char (c_str str))"

definition is_hex :: "char \<Rightarrow> bool" where
  "is_hex c = (is_digit c \<or> 65 \<le> uchar c \<and> uchar c \<le> 70 \<or> 97 \<le> uchar c \<and> uchar c \<le> 102)"

definition hex_value :: "char \<Rightarrow> nat" where
  "hex_value c =
     (if is_digit c then uchar c - 48 else if uchar c \<le> 70 then uchar c - 55 else uchar c - 87)"

text \<open>
  \<open>sscanf(s, "%x", &ii)\<close>: white space, an optional sign, an optional \<open>0x\<close>, then at least one
  digit; \<open>None\<close> when nothing is converted and \<open>ii\<close> is left as it was.
\<close>

definition scan_hex :: "string \<Rightarrow> int option" where
  "scan_hex s =
     (let s1 = dropWhile is_space (c_str s);
          neg = (peek s1 = CHR ''-'');
          s2 = (if peek s1 = CHR ''-'' \<or> peek s1 = CHR ''+'' then tl s1 else s1);
          s3 = (if starts_with s2 ''0x'' \<or> starts_with s2 ''0X'' then drop 2 s2 else s2);
          ds = takeWhile is_hex s3;
          v = int (foldl (\<lambda>n c. 16 * n + hex_value c) 0 ds)
      in if ds = [] then None else Some (if neg then - v else v))"

text \<open>\<open>ii\<close> has no value before the first conversion succeeds.\<close>

function url_decode_loop :: "string \<Rightarrow> int option \<Rightarrow> string res" where
  "url_decode_loop [] ii = Inr []"
| "url_decode_loop (c # str) ii =
     (if c \<noteq> CHR ''%'' then
        bindR (url_decode_loop str ii) (\<lambda>r. Inr ((if c = CHR ''+'' then CHR '' '' else c) # r))
      else
        (let ii' = (case scan_hex (take 2 str) of None \<Rightarrow> ii | Some v \<Rightarrow> Some v) in
         case ii' of
           None \<Rightarrow> Inl Uninitialised
         | Some v \<Rightarrow> bindR (url_decode_loop (drop 2 str) ii') (\<lambda>r. Inr (to_char v # r))))"
  by pat_completeness auto
termination by (relation "measure (\<lambda>(s, ii). length s)") auto

definition url_decode :: "string \<Rightarrow> string res" where
  "url_decode str = url_decode_loop str None"

section \<open>Replacement\<close>

text \<open>
  \<open>replace_all\<close>: \<open>processed\<close> is the part of the source up to \<open>position\<close>, \<open>rest\<close> what follows it.
\<close>

partial_function (option) replace_loop ::
  "string \<Rightarrow> string \<Rightarrow> string \<Rightarrow> string \<Rightarrow> string prog" where
  "replace_loop from to processed rest =
     (case find_sub from rest of
        None \<Rightarrow> ret (processed @ rest)
      | Some i \<Rightarrow> replace_loop from to (processed @ take i rest @ to) (drop (i + length from) rest))"

declare replace_loop.simps [code]

definition replace_all :: "string \<Rightarrow> string \<Rightarrow> string \<Rightarrow> string prog" where
  "replace_all source from to = replace_loop from to [] source"

section \<open>Suffixes, prefixes, and the redirection page\<close>

definition endsWith :: "string \<Rightarrow> string \<Rightarrow> bool" where
  "endsWith str suffix =
     (length suffix \<le> length str \<and> drop (length str - length suffix) str = suffix)"

definition startsWith :: "string \<Rightarrow> string \<Rightarrow> bool" where
  "startsWith str prefix = (length prefix \<le> length str \<and> take (length prefix) str = prefix)"

definition redirection_body :: "string \<Rightarrow> string" where
  "redirection_body hostname =
     ''<!doctype html><html>'' @ [LF] @ ''<head>'' @ [LF]
     @ ''<title>301 Moved Permanently</title>'' @ [LF] @ ''</head>'' @ [LF] @ ''<body>'' @ [LF]
     @ ''<h1>301 Moved Permanently</h1>'' @ [LF]
     @ ''<p>This page has permanently moved to <a href='' @ [DQ] @ ''https://'' @ hostname
     @ [DQ] @ ''>https://'' @ hostname @ ''</a>.</p>'' @ [LF] @ ''</body>'' @ [LF] @ ''</html>''"

definition get_redirection_html :: "string \<Rightarrow> string" where
  "get_redirection_html hostname =
     ''HTTP/1.1 301 Moved Permanently'' @ [LF] @ ''Location: https://'' @ hostname @ [LF]
     @ ''Accept-Ranges: bytes'' @ [LF] @ ''Content-Type: text/html'' @ [LF]
     @ ''Content-Length: '' @ to_string (length (redirection_body hostname)) @ [LF]
     @ [CR, LF, CR, LF] @ redirection_body hostname"

section \<open>Accessors of JSON members that decode\<close>

definition GetURLEncodedStr :: "JsonObject \<Rightarrow> string \<Rightarrow> string res" where
  "GetURLEncodedStr obj key = bindR (GetStr obj key) (\<lambda>s. Inr (url_encode s))"

definition GetURLDecodedStr :: "JsonObject \<Rightarrow> string \<Rightarrow> string res" where
  "GetURLDecodedStr obj key = bindR (GetStr obj key) url_decode"

section \<open>What the encodings do\<close>

text \<open>
  A byte below 128 that is encoded comes back, and whatever was in \<open>ii\<close> before does not matter.
\<close>

definition ascii :: "string \<Rightarrow> bool" where
  "ascii s = (\<forall>c \<in> set s. 0 < uchar c \<and> uchar c < 128)"

lemma uchar_hex_digit: "n < 16 \<Longrightarrow> uchar (hex_digit n) = (if n < 10 then 48 + n else 55 + n)"
  by (simp add: hex_digit_def uchar_char_of)

lemma hex_digit_facts:
  assumes "n < 16"
  shows "is_hex (hex_digit n)" "hex_value (hex_digit n) = n" "\<not> is_space (hex_digit n)"
    "hex_digit n \<noteq> NUL" "hex_digit n \<noteq> CHR ''-''" "hex_digit n \<noteq> CHR ''+''"
    "hex_digit n \<noteq> CHR ''x''" "hex_digit n \<noteq> CHR ''X''"
proof -
  note u = uchar_hex_digit [OF assms]
  show "is_hex (hex_digit n)" "hex_value (hex_digit n) = n" "\<not> is_space (hex_digit n)"
    using assms by (auto simp: is_hex_def hex_value_def is_digit_def is_space_def u)
  have "uchar (hex_digit n) \<noteq> uchar c" if "uchar c < 48 \<or> 70 < uchar c" for c
    using that assms by (auto simp: u)
  from uchar_neq [OF this]
  show "hex_digit n \<noteq> NUL" "hex_digit n \<noteq> CHR ''-''" "hex_digit n \<noteq> CHR ''+''"
    "hex_digit n \<noteq> CHR ''x''" "hex_digit n \<noteq> CHR ''X''"
    by (simp_all add: uchar_def)
qed

lemma scan_hex_digits:
  "a < 16 \<Longrightarrow> b < 16 \<Longrightarrow> scan_hex [hex_digit a, hex_digit b] = Some (int (16 * a + b))"
  by (simp add: scan_hex_def Let_def c_str_def hex_digit_facts starts_with_def)

lemma hex_upper_small: "n < 16 \<Longrightarrow> hex_upper n = [hex_digit n]"
  by (simp add: hex_upper.simps [of n])

lemma hex_upper_step: "16 \<le> n \<Longrightarrow> hex_upper n = hex_upper (n div 16) @ [hex_digit (n mod 16)]"
  by (simp add: hex_upper.simps [of n])

lemma hex_digit_0: "hex_digit 0 = CHR ''0''"
  by code_simp

lemma url_encode_low:
  assumes "uchar c < 128"
  shows "url_encode_char c =
    (if c = CHR '' '' then ''+''
     else if is_alnum c \<or> c = CHR ''-'' \<or> c = CHR ''_'' \<or> c = CHR ''.'' \<or> c = CHR ''~'' then [c]
     else [CHR ''%'', hex_digit (uchar c div 16), hex_digit (uchar c mod 16)])"
proof -
  have s: "schar c = int (uchar c)" using assms by (simp add: schar_def)
  have n: "nat (int (uchar c) mod 4294967296) = uchar c" using assms by simp
  show ?thesis
  proof (cases "uchar c < 16")
    case True
    then show ?thesis by (simp add: url_encode_char_def n s hex_upper_small hex_digit_0)
  next
    case False
    then have "hex_upper (uchar c) = [hex_digit (uchar c div 16), hex_digit (uchar c mod 16)]"
      using assms by (simp add: hex_upper_step hex_upper_small)
    with False show ?thesis by (simp add: url_encode_char_def n s)
  qed
qed

lemma to_char_uchar: "to_char (int (uchar c)) = c"
  by (simp add: to_char_def uchar_def)

lemma url_decode_encoded_char:
  assumes "uchar c < 128"
  shows "\<exists>ii'. url_decode_loop (url_encode_char c @ s) ii =
    bindR (url_decode_loop s ii') (\<lambda>r. Inr (c # r))"
proof (cases "c = CHR '' '' \<or> is_alnum c \<or> c = CHR ''-'' \<or> c = CHR ''_'' \<or> c = CHR ''.'' \<or> c = CHR ''~''")
  case True
  have "\<not> is_alnum (CHR ''%'')" "\<not> is_alnum (CHR ''+'')"
    by (simp_all add: is_alnum_def is_digit_def uchar_def)
  with True have "url_encode_char c = (if c = CHR '' '' then ''+'' else [c])"
      "c \<noteq> CHR ''%''" "c \<noteq> CHR ''+''"
    using url_encode_low [OF assms] by auto
  then show ?thesis by (intro exI [of _ ii]) simp
next
  case False
  then have e: "url_encode_char c =
      [CHR ''%'', hex_digit (uchar c div 16), hex_digit (uchar c mod 16)]"
    using url_encode_low [OF assms] by simp
  have "scan_hex [hex_digit (uchar c div 16), hex_digit (uchar c mod 16)] = Some (int (uchar c))"
    using assms by (subst scan_hex_digits) simp_all
  then show ?thesis
    by (intro exI [of _ "Some (int (uchar c))"]) (simp add: e to_char_uchar)
qed

lemma url_decode_encoded:
  "ascii s \<Longrightarrow> url_decode_loop (concat (map url_encode_char s)) ii = Inr s"
proof (induction s arbitrary: ii)
  case (Cons c s)
  from Cons.prems have "0 < uchar c" "uchar c < 128" by (simp_all add: ascii_def)
  from url_decode_encoded_char [OF this(2)]
  obtain ii' where "url_decode_loop (url_encode_char c @ concat (map url_encode_char s)) ii =
      bindR (url_decode_loop (concat (map url_encode_char s)) ii') (\<lambda>r. Inr (c # r))" by blast
  moreover have "ascii s" using Cons.prems by (simp add: ascii_def)
  ultimately show ?case using Cons.IH by simp
qed simp

lemma ascii_c_str: "ascii s \<Longrightarrow> c_str s = s"
  by (rule c_str_id) (auto simp: ascii_def uchar_def)

lemma url_roundtrip: "ascii s \<Longrightarrow> url_decode (url_encode s) = Inr s"
  by (simp add: url_decode_def url_encode_def ascii_c_str url_decode_encoded)

interpretation url: codec url_encode "\<lambda>s. case url_decode s of Inr r \<Rightarrow> Some r | _ \<Rightarrow> None" ascii
  by unfold_locales (simp add: url_roundtrip)

text \<open>A byte from 128 on is printed as a negative 32-bit number.\<close>

lemma hex_upper_ffffff: "hex_upper 16777215 = ''FFFFFF''"
proof -
  have "hex_digit 15 = CHR ''F''" by code_simp
  then show ?thesis by (simp add: hex_upper.simps)
qed

lemma add_16_div_mod: "(16 * a + u) div 16 = a + u div (16::nat)" "(16 * a + u) mod 16 = u mod (16::nat)"
  by simp_all

lemma url_encode_high:
  assumes "128 \<le> uchar c"
  shows "url_encode_char c =
    ''%0FFFFFF'' @ [hex_digit (uchar c div 16), hex_digit (uchar c mod 16)]"
proof -
  let ?u = "uchar c"
  have u: "?u < 256" by (rule uchar_lt)
  have "(int ?u - 256) mod 4294967296 = (int ?u - 256 + 4294967296) mod 4294967296"
    by (simp only: mod_add_self2)
  also have "\<dots> = 4294967040 + int ?u" using assms u by simp
  finally have "schar c mod 2 ^ 32 = 4294967040 + int ?u" using assms by (simp add: schar_def)
  then have n: "nat (schar c mod 2 ^ 32) = 4294967040 + ?u" by simp
  have "hex_upper (4294967040 + ?u) =
      hex_upper (268435440 + ?u div 16) @ [hex_digit (?u mod 16)]"
  proof -
    have "(4294967040 + ?u) div 16 = 268435440 + ?u div 16" "(4294967040 + ?u) mod 16 = ?u mod 16"
      using add_16_div_mod [of 268435440 ?u] by simp_all
    then show ?thesis by (subst hex_upper_step) simp_all
  qed
  also have "hex_upper (268435440 + ?u div 16) = hex_upper 16777215 @ [hex_digit (?u div 16)]"
  proof -
    have "(268435440 + ?u div 16) div 16 = 16777215" "(268435440 + ?u div 16) mod 16 = ?u div 16"
      using u add_16_div_mod [of 16777215 "?u div 16"] by simp_all
    then show ?thesis by (subst hex_upper_step) simp_all
  qed
  finally have "hex_upper (nat (schar c mod 2 ^ 32)) =
      ''FFFFFF'' @ [hex_digit (?u div 16), hex_digit (?u mod 16)]"
    unfolding n by (simp add: hex_upper_ffffff)
  moreover have "\<not> is_alnum c" "c \<noteq> CHR '' ''" "c \<noteq> CHR ''-''" "c \<noteq> CHR ''_''" "c \<noteq> CHR ''.''"
      "c \<noteq> CHR ''~''"
    using assms by (auto simp: is_alnum_def is_digit_def uchar_def)
  moreover have "schar c < 16" using assms u by (simp add: schar_def)
  ultimately show ?thesis by (simp add: url_encode_char_def)
qed

text \<open>Replacement, against splitting at the occurrences and joining again.\<close>

function pieces :: "string \<Rightarrow> string \<Rightarrow> string list" where
  "pieces pat s =
     (if pat = [] then [s]
      else case find_sub pat s of
        None \<Rightarrow> [s]
      | Some i \<Rightarrow> take i s # pieces pat (drop (i + length pat) s))"
  by pat_completeness auto
termination
  by (relation "measure (\<lambda>(pat, s). length s)") (auto dest!: find_sub_Some simp: neq_Nil_conv)

declare pieces.simps [simp del]

fun join :: "string \<Rightarrow> string list \<Rightarrow> string" where
  "join sep [] = []"
| "join sep [p] = p"
| "join sep (p # q # ps) = p @ sep @ join sep (q # ps)"

lemma pieces_nonempty: "pieces pat s \<noteq> []"
  by (subst pieces.simps) (simp split: option.split)

lemma join_Cons: "ps \<noteq> [] \<Longrightarrow> join sep (p # ps) = p @ sep @ join sep ps"
  by (cases ps) auto

lemma replace_loop_pieces:
  "pat \<noteq> [] \<Longrightarrow> replace_loop pat to processed s = ret (processed @ join to (pieces pat s))"
proof (induction pat s arbitrary: processed rule: pieces.induct)
  case (1 pat s)
  show ?case
  proof (cases "find_sub pat s")
    case None
    with 1 show ?thesis by (simp add: replace_loop.simps [of pat] pieces.simps [of _ s])
  next
    case (Some i)
    with 1 show ?thesis
      by (simp add: replace_loop.simps [of pat _ _ s] pieces.simps [of _ s] join_Cons
          pieces_nonempty)
  qed
qed

lemma join_pieces: "pat \<noteq> [] \<Longrightarrow> join pat (pieces pat s) = s"
proof (induction pat s rule: pieces.induct)
  case (1 pat s)
  show ?case
  proof (cases "find_sub pat s")
    case None
    with 1 show ?thesis by (simp add: pieces.simps [of _ s])
  next
    case (Some i)
    then obtain r where "drop i s = pat @ r" using find_sub_Some starts_withE by metis
    then have "drop (i + length pat) s = r" and "s = take i s @ pat @ r"
      by (metis add.commute append_eq_conv_conj drop_drop, metis append_take_drop_id)
    with 1 Some show ?thesis
      by (simp add: pieces.simps [of _ s] join_Cons pieces_nonempty)
  qed
qed

lemma replace_all_pieces:
  "pat \<noteq> [] \<Longrightarrow> replace_all source pat to = ret (join to (pieces pat source))"
  by (simp add: replace_all_def replace_loop_pieces)

lemma replace_loop_empty: "replace_loop [] to processed rest = None"
proof (rule ccontr)
  assume "replace_loop [] to processed rest \<noteq> None"
  then obtain r where r: "replace_loop [] to processed rest = Some r" by blast
  let ?P = "\<lambda>(pat::string) (to::string) (processed::string) (rest::string) (r::string res).
    pat \<noteq> []"
  have "?P [] to processed rest r"
  proof (rule replace_loop.raw_induct [where P = ?P, OF _ r])
    fix f :: "string \<Rightarrow> string \<Rightarrow> string \<Rightarrow> string \<Rightarrow> string prog"
    fix pat to processed rest r
    assume IH: "\<And>pat to processed rest r. f pat to processed rest = Some r \<Longrightarrow> pat \<noteq> []"
      and eq: "(case find_sub pat rest of None \<Rightarrow> ret (processed @ rest)
        | Some i \<Rightarrow> f pat to (processed @ take i rest @ to) (drop (i + length pat) rest)) = Some r"
    show "pat \<noteq> []"
    proof
      assume "pat = []"
      then have "find_sub pat rest = Some 0" by (cases rest) auto
      with eq have "f pat to (processed @ take 0 rest @ to) (drop (0 + length pat) rest) = Some r"
        by simp
      from IH [OF this] \<open>pat = []\<close> show False by simp
    qed
  qed
  then show False by simp
qed

lemma replace_all_empty: "replace_all source [] to = None"
  by (simp add: replace_all_def replace_loop_empty)

lemma pieces_clean: "pat \<noteq> [] \<Longrightarrow> p \<in> set (pieces pat s) \<Longrightarrow> find_sub pat p = None"
proof (induction pat s rule: pieces.induct)
  case (1 pat s)
  show ?case
  proof (cases "find_sub pat s")
    case None
    with 1 show ?thesis by (simp add: pieces.simps [of _ s])
  next
    case (Some i)
    have "\<not> starts_with (drop j (take i s)) pat" if "j \<le> length (take i s)" for j
    proof
      assume a: "starts_with (drop j (take i s)) pat"
      then obtain r where r: "drop j (take i s) = pat @ r" by (rule starts_withE)
      have "j < i"
      proof (rule ccontr)
        assume "\<not> j < i"
        then have "drop j (take i s) = []" by simp
        with r \<open>pat \<noteq> []\<close> show False by simp
      qed
      moreover have "drop j s = drop j (take i s) @ drop i s"
        using \<open>j < i\<close> by (simp add: drop_take) (metis append_take_drop_id drop_drop
          le_add_diff_inverse2 less_imp_le add.commute)
      then have "starts_with (drop j s) pat" using r by (simp add: starts_with_def)
      ultimately show False using find_sub_least [OF Some] by blast
    qed
    then have "find_sub pat (take i s) = None" by (simp add: find_sub_None)
    with 1 Some show ?thesis by (auto simp: pieces.simps [of _ s])
  qed
qed

section \<open>What the string functions promise\<close>

text \<open>
  URL encoding is lossless on text of seven-bit characters other than the null character:
  decoding gets the text back.
\<close>

theorem url_text_survives:
  assumes "ascii s"
  shows "url_decode (url_encode s) = Inr s"
  using url.dec_enc [OF assms] by (auto split: sum.splits)

lemma url_text_survives_witness: "url_decode (url_encode ''a b%&+~'') = Inr ''a b%&+~''"
  by (rule url_text_survives) (simp add: ascii_def uchar_def)

text \<open>
  A byte from 128 on does not survive: it is encoded as a negative number of eight digits
  behind a zero, and decoding that yields a byte 15 and a text of digits.
\<close>

theorem url_high_byte_is_mangled:
  assumes "128 \<le> uchar c"
  shows "url_encode [c] = ''%0FFFFFF'' @ [hex_digit (uchar c div 16), hex_digit (uchar c mod 16)]
    \<and> url_decode (url_encode [c]) =
        Inr (char_of (15 :: nat) # ''FFFFF'' @ [hex_digit (uchar c div 16), hex_digit (uchar c mod 16)])"
proof -
  let ?h = "hex_digit (uchar c div 16)" and ?l = "hex_digit (uchar c mod 16)"
  have "c \<noteq> NUL" using assms by (auto simp: uchar_def)
  then have e: "url_encode [c] = ''%0FFFFFF'' @ [?h, ?l]"
    using url_encode_high [OF assms] by (simp add: url_encode_def c_str_def)
  have "uchar c < 256" by (rule uchar_lt)
  then have h: "uchar c div 16 < 16" by simp
  have p: "hex_digit n \<noteq> CHR ''%'' \<and> hex_digit n \<noteq> CHR ''+''" if "n < 16" for n
  proof -
    have "uchar (hex_digit n) \<noteq> uchar (CHR ''%'')" "uchar (hex_digit n) \<noteq> uchar (CHR ''+'')"
      using uchar_hex_digit [OF that] by (auto simp: uchar_def)
    then show ?thesis by auto
  qed
  have "scan_hex ''0F'' = Some 15" "char_of (15 :: int) = (char_of (15 :: nat) :: char)"
    by code_simp+
  then show ?thesis
    unfolding e using p [OF h] p [of "uchar c mod 16"]
    by (simp add: url_decode_def to_char_def)
qed

lemma url_high_byte_is_mangled_witness:
  "url_encode [CHR 0xE9] = ''%0FFFFFFE9'' \<and> url_decode (url_encode [CHR 0xE9]) =
    Inr (CHR 0x0F # ''FFFFFE9'')"
proof -
  have u: "uchar (CHR 0xE9) = 233" by (simp add: uchar_def)
  have d: "hex_digit 14 = CHR ''E''" "hex_digit 9 = CHR ''9''" "char_of (15 :: nat) = CHR 0x0F"
    by code_simp+
  have "(128 :: nat) \<le> uchar (CHR 0xE9)" by (simp add: u)
  note mangled = url_high_byte_is_mangled [OF this]
  show ?thesis
  proof
    from mangled [THEN conjunct1] show "url_encode [CHR 0xE9] = ''%0FFFFFFE9''" by (simp add: u d)
    from mangled [THEN conjunct2] show "url_decode (url_encode [CHR 0xE9]) =
        Inr (CHR 0x0F # ''FFFFFE9'')" by (simp add: u d)
  qed
qed

text \<open>
  \<open>replace_all\<close> is splitting and joining: the source falls into pieces that do not contain the
  pattern, with the pattern between them, and the result has the replacement between them.
\<close>

theorem replace_all_splits_and_joins:
  assumes "pat \<noteq> []"
  shows "\<exists>ps. join pat ps = source \<and> (\<forall>p \<in> set ps. find_sub pat p = None)
    \<and> replace_all source pat to = ret (join to ps)"
  using assms join_pieces pieces_clean replace_all_pieces
  by (intro exI [of _ "pieces pat source"]) blast

lemma replace_all_splits_and_joins_witness:
  "\<exists>ps. join ''aa'' ps = ''baaac'' \<and> (\<forall>p \<in> set ps. find_sub ''aa'' p = None)
    \<and> replace_all ''baaac'' ''aa'' ''x'' = ret (join ''x'' ps)"
  by (rule replace_all_splits_and_joins) simp

text \<open>
  \<open>replace_all\<close> with an empty pattern does not return, on any source.
\<close>

theorem replace_all_empty_diverges: "replace_all source [] to = None"
  by (simp add: replace_all_def replace_loop_empty)

end
