(* ===== verification/Args.thy ===== *)
theory Args
  imports JsonRoundtrip
begin

text \<open>
  The command line and the configuration file: \<open>Util::define_argument\<close> and
  \<open>Util::parse_arguments\<close> of \<open>cpp-source/util.cpp\<close>.  The variables of the program are kept by
  their names in a store, the strings, the integers and the booleans apart; an argument has a
  pointer for each kind, of which one is set; a callback may change the store.  What is printed is
  left out.
\<close>

section \<open>Arguments\<close>

datatype ArgumentType = ARG_STRING | ARG_INTEGER | ARG_BOOLEAN

record store =
  strings :: "string \<Rightarrow> string"
  integers :: "string \<Rightarrow> int"
  booleans :: "string \<Rightarrow> bool"

text \<open>
  \<open>None\<close> is a null pointer, and for the string the reference to the parameter \<open>name\<close> of
  \<open>define_argument\<close>, which is dead when the argument is used.
\<close>

record Argument =
  arg_name :: string
  alts :: "string list"
  callback :: "(store \<Rightarrow> store) option"
  required :: bool
  arg_set :: bool
  arg_type :: ArgumentType
  string_value :: "string option"
  integer_value :: "string option"
  boolean_value :: "string option"

definition define_argument ::
  "ArgumentType \<Rightarrow> string \<Rightarrow> string \<Rightarrow> string list \<Rightarrow> (store \<Rightarrow> store) option \<Rightarrow> bool \<Rightarrow>
    Argument list \<Rightarrow> Argument list" where
  "define_argument t n v as cb req arguments =
     arguments @ [\<lparr>arg_name = n, alts = as, callback = cb, required = req, arg_set = False,
       arg_type = t,
       string_value = (if t = ARG_STRING then Some v else None),
       integer_value = (if t = ARG_INTEGER then Some v else None),
       boolean_value = (if t = ARG_BOOLEAN then Some v else None)\<rparr>]"

text \<open>Writing through the pointers.\<close>

definition write_string :: "string option \<Rightarrow> string \<Rightarrow> store \<Rightarrow> store res" where
  "write_string p s st = (case p of None \<Rightarrow> Inl NullDeref
     | Some v \<Rightarrow> Inr (st\<lparr>strings := (strings st)(v := s)\<rparr>))"

definition write_integer :: "string option \<Rightarrow> int \<Rightarrow> store \<Rightarrow> store res" where
  "write_integer p n st = (case p of None \<Rightarrow> Inl NullDeref
     | Some v \<Rightarrow> Inr (st\<lparr>integers := (integers st)(v := n)\<rparr>))"

definition write_boolean :: "string option \<Rightarrow> bool \<Rightarrow> store \<Rightarrow> store res" where
  "write_boolean p b st = (case p of None \<Rightarrow> Inl NullDeref
     | Some v \<Rightarrow> Inr (st\<lparr>booleans := (booleans st)(v := b)\<rparr>))"

definition run_callback :: "Argument \<Rightarrow> store \<Rightarrow> store" where
  "run_callback arg st = (case callback arg of None \<Rightarrow> st | Some f \<Rightarrow> f st)"

section \<open>The command line\<close>

text \<open>
  \<open>check_lambda\<close>: whether the word at \<open>i\<close> is the given spelling, and what it then sets.  A word
  that is missing sets nothing; a number that is none is an exception nobody takes.
\<close>

definition check_lambda ::
  "string list \<Rightarrow> nat \<Rightarrow> Argument \<Rightarrow> string \<Rightarrow> store \<Rightarrow> (bool \<times> Argument \<times> store) res" where
  "check_lambda argv i arg check_sub st =
     (if argv ! i \<noteq> c_str check_sub then Inr (False, arg, st)
      else (case arg_type arg of
        ARG_STRING \<Rightarrow>
          if i + 1 < length argv then
            bindR (write_string (string_value arg) (argv ! (i + 1)) st)
              (\<lambda>st. Inr (True, arg\<lparr>arg_set := True\<rparr>, run_callback arg st))
          else Inr (True, arg, st)
      | ARG_INTEGER \<Rightarrow>
          if i + 1 < length argv then
            bindR (stoi (argv ! (i + 1))) (\<lambda>n.
              bindR (write_integer (integer_value arg) n st)
                (\<lambda>st. Inr (True, arg\<lparr>arg_set := True\<rparr>, run_callback arg st)))
          else Inr (True, arg, st)
      | ARG_BOOLEAN \<Rightarrow>
          bindR (write_boolean (boolean_value arg) True st)
            (\<lambda>st. Inr (True, arg\<lparr>arg_set := True\<rparr>, run_callback arg st))))"

fun check_alts ::
  "string list \<Rightarrow> nat \<Rightarrow> Argument \<Rightarrow> string list \<Rightarrow> store \<Rightarrow> (Argument \<times> store) res" where
  "check_alts argv i arg [] st = Inr (arg, st)"
| "check_alts argv i arg (a # as) st =
     bindR (check_lambda argv i arg a st) (\<lambda>(hit, arg, st).
       if hit then Inr (arg, st) else check_alts argv i arg as st)"

text \<open>
  The arguments for one word: a name that matches ends the search, an alternative spelling that
  matches only ends the search among the spellings of that argument.
\<close>

fun scan_word ::
  "string list \<Rightarrow> nat \<Rightarrow> Argument list \<Rightarrow> store \<Rightarrow> (Argument list \<times> store) res" where
  "scan_word argv i [] st = Inr ([], st)"
| "scan_word argv i (arg # args) st =
     bindR (check_lambda argv i arg (''--'' @ arg_name arg) st) (\<lambda>(hit, arg, st).
       if hit then Inr (arg # args, st)
       else bindR (check_alts argv i arg (alts arg) st) (\<lambda>(arg, st).
         bindR (scan_word argv i args st) (\<lambda>(args, st). Inr (arg # args, st))))"

fun scan_words ::
  "string list \<Rightarrow> nat list \<Rightarrow> Argument list \<Rightarrow> store \<Rightarrow> (Argument list \<times> store) res" where
  "scan_words argv [] args st = Inr (args, st)"
| "scan_words argv (i # is) args st =
     bindR (scan_word argv i args st) (\<lambda>(args, st). scan_words argv is args st)"

section \<open>The configuration file\<close>

definition apply_config :: "Argument \<Rightarrow> string \<Rightarrow> store \<Rightarrow> store res" where
  "apply_config arg s st =
     (case arg_type arg of
        ARG_STRING \<Rightarrow>
          bindR (write_string (string_value arg) s st) (\<lambda>st. Inr (run_callback arg st))
      | ARG_INTEGER \<Rightarrow>
          bindR (stoi s) (\<lambda>n.
            bindR (write_integer (integer_value arg) n st) (\<lambda>st. Inr (run_callback arg st)))
      | ARG_BOOLEAN \<Rightarrow>
          bindR (write_boolean (boolean_value arg) True st) (\<lambda>st. Inr (run_callback arg st)))"

fun config_arguments :: "JsonObject \<Rightarrow> Argument list \<Rightarrow> store \<Rightarrow> store res" where
  "config_arguments config [] st = Inr st"
| "config_arguments config (arg # args) st =
     (case um_find (objectValues config) (arg_name arg) of
        None \<Rightarrow> config_arguments config args st
      | Some v \<Rightarrow>
          if arg_set arg then config_arguments config args st
          else bindR (apply_config arg (stringValue v) st) (config_arguments config args))"

section \<open>All of it\<close>

definition own_arguments :: "Argument list \<Rightarrow> Argument list" where
  "own_arguments args =
     define_argument ARG_STRING ''secret_captcha_url'' ''secret_captcha_url'' [''-scu''] None False
       (define_argument ARG_STRING ''configuration_file'' ''config_path'' [''-cf''] None False
         (define_argument ARG_BOOLEAN ''verbose'' ''verbose'' [''-v''] None False args))"

definition asks_help :: "string list \<Rightarrow> bool" where
  "asks_help argv = list_ex (\<lambda>w. w = ''--help'' \<or> w = ''-h'') argv"

text \<open>The program exits after the help, or goes on with the store as it was filled.\<close>

datatype start = Exits | Starts "Argument list" store

definition parse_arguments ::
  "(string \<Rightarrow> string option) \<Rightarrow> string list \<Rightarrow> Argument list \<Rightarrow> store \<Rightarrow> start prog" where
  "parse_arguments file argv args st =
     (if asks_help argv then ret Exits
      else bindP (lift_res (scan_words argv [0..<length argv] (own_arguments args) st)) (\<lambda>(args, st).
        case file (strings st ''config_path'') of
          None \<Rightarrow> ret (Starts args st)
        | Some text \<Rightarrow>
            bindP (parse_into new_empty (c_str text)) (\<lambda>config.
              bindP (lift_res (config_arguments config args st)) (\<lambda>st. ret (Starts args st)))))"

section \<open>What one word does to one argument\<close>

definition spelled_as :: "Argument \<Rightarrow> string set" where
  "spelled_as a = set (map c_str ((''--'' @ arg_name a) # alts a))"

text \<open>
  The variable that an argument points at, what it holds, and giving it a value of its kind.
\<close>

datatype arg_value = StringValue string | IntegerValue int | BooleanValue bool

definition pointer :: "Argument \<Rightarrow> string option" where
  "pointer a = (case arg_type a of ARG_STRING \<Rightarrow> string_value a | ARG_INTEGER \<Rightarrow> integer_value a
     | ARG_BOOLEAN \<Rightarrow> boolean_value a)"

definition target :: "Argument \<Rightarrow> ArgumentType \<times> string" where
  "target a = (arg_type a, case pointer a of Some v \<Rightarrow> v | None \<Rightarrow> [])"

fun value_at :: "ArgumentType \<times> string \<Rightarrow> store \<Rightarrow> arg_value" where
  "value_at (ARG_STRING, v) st = StringValue (strings st v)"
| "value_at (ARG_INTEGER, v) st = IntegerValue (integers st v)"
| "value_at (ARG_BOOLEAN, v) st = BooleanValue (booleans st v)"

fun assign :: "ArgumentType \<times> string \<Rightarrow> arg_value \<Rightarrow> store \<Rightarrow> store" where
  "assign (ARG_STRING, v) (StringValue s) st = st\<lparr>strings := (strings st)(v := s)\<rparr>"
| "assign (ARG_INTEGER, v) (IntegerValue n) st = st\<lparr>integers := (integers st)(v := n)\<rparr>"
| "assign (ARG_BOOLEAN, v) (BooleanValue b) st = st\<lparr>booleans := (booleans st)(v := b)\<rparr>"
| "assign t v st = st"

lemma value_at_assign_pair:
  "k \<noteq> k' \<or> x \<noteq> y \<Longrightarrow> value_at (k, x) (assign (k', y) v st) = value_at (k, x) st"
  by (cases k; cases k'; cases v) simp_all

lemma value_at_assign_other [simp]:
  "t \<noteq> t' \<Longrightarrow> value_at t (assign t' v st) = value_at t st"
  "t' \<noteq> t \<Longrightarrow> value_at t (assign t' v st) = value_at t st"
  using value_at_assign_pair [of "fst t" "fst t'" "snd t" "snd t'" v st]
  by (auto simp: prod_eq_iff)

text \<open>\<open>sets a argv i\<close>: the word at \<open>i\<close> sets the variable of \<open>a\<close>, to \<open>set_value a argv i\<close>.\<close>

definition sets :: "Argument \<Rightarrow> string list \<Rightarrow> nat \<Rightarrow> bool" where
  "sets a argv i \<longleftrightarrow>
     argv ! i \<in> spelled_as a \<and> (arg_type a = ARG_BOOLEAN \<or> i + 1 < length argv)"

definition set_value :: "Argument \<Rightarrow> string list \<Rightarrow> nat \<Rightarrow> arg_value" where
  "set_value a argv i =
     (case arg_type a of
        ARG_STRING \<Rightarrow> StringValue (argv ! (i + 1))
      | ARG_INTEGER \<Rightarrow> IntegerValue (case stoi (argv ! (i + 1)) of Inr n \<Rightarrow> n | Inl _ \<Rightarrow> 0)
      | ARG_BOOLEAN \<Rightarrow> BooleanValue True)"

definition unset :: "Argument \<Rightarrow> Argument" where
  "unset a = a\<lparr>arg_set := False\<rparr>"

lemma unset_eq:
  assumes "unset a = unset b"
  shows "arg_name a = arg_name b" "alts a = alts b" "callback a = callback b"
    "arg_type a = arg_type b" "target a = target b"
proof -
  show "arg_name a = arg_name b" "alts a = alts b" "callback a = callback b" "arg_type a = arg_type b"
    using assms by (cases a, cases b, simp add: unset_def)+
  moreover have "string_value a = string_value b" "integer_value a = integer_value b"
    "boolean_value a = boolean_value b"
    using assms by (cases a, cases b, simp add: unset_def)+
  ultimately show "target a = target b"
    by (simp add: target_def pointer_def split: ArgumentType.split)
qed

lemma unset_set [simp]: "unset (a\<lparr>arg_set := v\<rparr>) = unset a"
  by (simp add: unset_def)

lemma same_spelling:
  "unset a = unset b \<Longrightarrow> spelled_as a = spelled_as b"
  "unset a = unset b \<Longrightarrow> sets a argv i = sets b argv i"
  "unset a = unset b \<Longrightarrow> set_value a argv i = set_value b argv i"
  by (auto simp: spelled_as_def sets_def set_value_def dest: unset_eq)

text \<open>\<open>touch\<close> is what a matching word makes of an argument without a callback.\<close>

definition touch :: "string list \<Rightarrow> nat \<Rightarrow> bool \<Rightarrow> Argument \<Rightarrow> Argument" where
  "touch argv i hit a =
     (if hit \<and> (arg_type a = ARG_BOOLEAN \<or> i + 1 < length argv) then a\<lparr>arg_set := True\<rparr> else a)"

definition touch_store :: "string list \<Rightarrow> nat \<Rightarrow> bool \<Rightarrow> Argument \<Rightarrow> store \<Rightarrow> store" where
  "touch_store argv i hit a st =
     (if hit \<and> (arg_type a = ARG_BOOLEAN \<or> i + 1 < length argv)
      then assign (target a) (set_value a argv i) st else st)"

lemma value_at_own [simp]: "value_at (target a) (assign (target a) (set_value a argv i) st) = set_value a argv i"
  by (cases "arg_type a") (simp_all add: target_def set_value_def)

lemma touch_store_value [simp]:
  "value_at (target a) (touch_store argv i hit a st) =
    (if hit \<and> (arg_type a = ARG_BOOLEAN \<or> i + 1 < length argv) then set_value a argv i
     else value_at (target a) st)"
  "t \<noteq> target a \<Longrightarrow> value_at t (touch_store argv i hit a st) = value_at t st"
  by (auto simp: touch_store_def)

definition number_ok :: "Argument \<Rightarrow> string list \<Rightarrow> nat \<Rightarrow> bool \<Rightarrow> bool" where
  "number_ok a argv i hit \<longleftrightarrow>
     (hit \<and> arg_type a = ARG_INTEGER \<and> i + 1 < length argv \<longrightarrow> (\<exists>n. stoi (argv ! (i + 1)) = Inr n))"

lemma unset_touch [simp]: "unset (touch argv i hit a) = unset a"
  by (simp add: touch_def)

lemma check_lambda_Inr:
  "callback a = None \<Longrightarrow> check_lambda argv i a s st = Inr (hit, a', st') \<Longrightarrow>
    hit = (argv ! i = c_str s) \<and> a' = touch argv i hit a \<and> st' = touch_store argv i hit a st
    \<and> number_ok a argv i hit"
  by (auto simp: check_lambda_def run_callback_def touch_def touch_store_def set_value_def number_ok_def
      target_def pointer_def write_string_def write_integer_def write_boolean_def
      bindR_eq_Inr split: if_splits ArgumentType.splits option.splits)

lemma check_alts_Inr:
  assumes "callback a = None" "check_alts argv i a as st = Inr (a', st')"
  shows "a' = touch argv i (argv ! i \<in> set (map c_str as)) a
    \<and> st' = touch_store argv i (argv ! i \<in> set (map c_str as)) a st
    \<and> number_ok a argv i (argv ! i \<in> set (map c_str as))"
  using assms(2)
proof (induction as)
  case Nil
  then show ?case by (simp add: touch_def touch_store_def number_ok_def)
next
  case (Cons s as)
  from Cons.prems obtain hit a1 st1 where c: "check_lambda argv i a s st = Inr (hit, a1, st1)"
    and r: "(if hit then Inr (a1, st1) else check_alts argv i a1 as st1) = Inr (a', st')"
    by (auto simp: bindR_eq_Inr)
  note c' = check_lambda_Inr [OF assms(1) c]
  show ?case
  proof (cases hit)
    case True
    with c' r show ?thesis by (simp add: touch_def touch_store_def number_ok_def)
  next
    case False
    with c' r Cons.IH show ?thesis by (simp add: touch_def touch_store_def number_ok_def)
  qed
qed

text \<open>The name and then the spellings: one touch, and whether the search ends.\<close>

lemma scan_word_Cons:
  assumes "callback a = None" "scan_word argv i (a # args) st = Inr (args', st')"
  obtains (ends) "argv ! i = c_str (''--'' @ arg_name a)" "args' = touch argv i True a # args"
      "st' = touch_store argv i True a st" "number_ok a argv i True"
  | (goes) args'' hit where "argv ! i \<noteq> c_str (''--'' @ arg_name a)"
      "hit = (argv ! i \<in> spelled_as a)" "args' = touch argv i hit a # args''"
      "scan_word argv i args (touch_store argv i hit a st) = Inr (args'', st')"
      "number_ok a argv i hit"
proof -
  from assms(2) obtain hit a1 st1 where
    c: "check_lambda argv i a (''--'' @ arg_name a) st = Inr (hit, a1, st1)"
    and r: "(if hit then Inr (a1 # args, st1)
      else bindR (check_alts argv i a1 (alts a1) st1) (\<lambda>(a, st).
         bindR (scan_word argv i args st) (\<lambda>(args, st). Inr (a # args, st)))) = Inr (args', st')"
    by (auto simp: bindR_eq_Inr)
  note c' = check_lambda_Inr [OF assms(1) c]
  show thesis
  proof (cases hit)
    case True
    with c' r show thesis by (intro ends) auto
  next
    case False
    with c' have a1: "a1 = a" "st1 = st" and n: "argv ! i \<noteq> c_str (''--'' @ arg_name a)"
      by (simp_all add: touch_def touch_store_def)
    from r False a1 obtain a2 st2 args'' where
      al: "check_alts argv i a (alts a) st = Inr (a2, st2)"
      and rest: "scan_word argv i args st2 = Inr (args'', st')" "args' = a2 # args''"
      by (auto simp: bindR_eq_Inr)
    have "(argv ! i \<in> set (map c_str (alts a))) = (argv ! i \<in> spelled_as a)"
      using n by (simp add: spelled_as_def)
    with check_alts_Inr [OF assms(1) al] rest n show thesis
      by (intro goes [of "argv ! i \<in> spelled_as a" args'']) auto
  qed
qed

lemma scan_word_other:
  assumes "\<forall>b \<in> set args. callback b = None \<and> target b \<noteq> t"
    "scan_word argv i args st = Inr (args', st')"
  shows "map unset args' = map unset args \<and> value_at t st' = value_at t st"
  using assms
proof (induction args arbitrary: st args')
  case (Cons b args)
  then have b: "callback b = None" "target b \<noteq> t" by simp_all
  from b(1) Cons.prems(2) show ?case
  proof (cases rule: scan_word_Cons)
    case ends
    with b show ?thesis by (simp add: touch_store_def)
  next
    case (goes args'' hit)
    with Cons.IH [of "touch_store argv i hit b st" args''] Cons.prems(1) b show ?thesis
      by (auto simp: touch_store_def split: if_splits)
  qed
qed simp

text \<open>\<open>apart pre a post\<close>: no other argument disturbs \<open>a\<close>.\<close>

definition apart :: "Argument list \<Rightarrow> Argument \<Rightarrow> Argument list \<Rightarrow> bool" where
  "apart pre a post \<longleftrightarrow>
     callback a = None
     \<and> (\<forall>b \<in> set (pre @ post). callback b = None \<and> target b \<noteq> target a)
     \<and> (\<forall>b \<in> set pre. c_str (''--'' @ arg_name b) \<notin> spelled_as a)"

lemma scan_word_effect:
  assumes "apart pre a post" "scan_word argv i (pre @ a # post) st = Inr (args', st')"
  shows "\<exists>pre' post'. args' = pre' @ touch argv i (argv ! i \<in> spelled_as a) a # post'
    \<and> map unset pre' = map unset pre \<and> map unset post' = map unset post
    \<and> value_at (target a) st' = (if sets a argv i then set_value a argv i else value_at (target a) st)
    \<and> number_ok a argv i (sets a argv i)"
  using assms
proof (induction pre arbitrary: st args')
  case Nil
  then have a: "callback a = None" by (simp add: apart_def)
  have "scan_word argv i (a # post) st = Inr (args', st')"
    using Nil.prems(2) by (simp only: append_Nil)
  from a this show ?case
  proof (cases rule: scan_word_Cons)
    case ends
    then show ?thesis
      by (intro exI [of _ "[]"] exI [of _ post])
        (simp add: sets_def spelled_as_def touch_store_def number_ok_def)
  next
    case (goes args'' hit)
    with Nil.prems(1) scan_word_other [of post "target a" argv i _ args'' st'] show ?thesis
      by (intro exI [of _ "[]"] exI [of _ args'']) (auto simp: apart_def sets_def touch_store_def number_ok_def)
  qed
next
  case (Cons b pre)
  then have b: "callback b = None" "target b \<noteq> target a"
    "c_str (''--'' @ arg_name b) \<notin> spelled_as a" and ap: "apart pre a post"
    by (simp_all add: apart_def)
  have "scan_word argv i (b # pre @ a # post) st = Inr (args', st')"
    using Cons.prems(2) by (simp only: append_Cons)
  from b(1) this show ?case
  proof (cases rule: scan_word_Cons)
    case ends
    with b show ?thesis
      by (intro exI [of _ "touch argv i True b # pre"] exI [of _ post])
        (auto simp: sets_def touch_def touch_store_def number_ok_def)
  next
    case (goes args'' hit)
    from Cons.IH [OF ap goes(4)] obtain pre' post' where
      "args'' = pre' @ touch argv i (argv ! i \<in> spelled_as a) a # post'"
      "map unset pre' = map unset pre" "map unset post' = map unset post"
      "value_at (target a) st' = (if sets a argv i then set_value a argv i
        else value_at (target a) (touch_store argv i hit b st))" "number_ok a argv i (sets a argv i)" by blast
    with goes(3) b show ?thesis
      by (intro exI [of _ "touch argv i hit b # pre'"] exI [of _ post'])
        (auto simp: touch_store_def)
  qed
qed

lemma apart_unset:
  assumes "apart pre a post" "map unset pre' = map unset pre" "map unset post' = map unset post"
    "unset a' = unset a"
  shows "apart pre' a' post'"
proof -
  have "\<exists>c \<in> set bs. unset b = unset c" if "map unset bs' = map unset bs" "b \<in> set bs'" for b bs bs'
  proof -
    have "unset b \<in> unset ` set bs" using that by (metis imageI list.set_map)
    then show ?thesis by auto
  qed
  note same = this [OF assms(2)] this [OF assms(3)]
  have "callback b = None \<and> target b \<noteq> target a'" if "b \<in> set (pre' @ post')" for b
  proof -
    have "\<exists>c \<in> set (pre @ post). unset b = unset c" using that same [of b] by auto
    then obtain c where "c \<in> set (pre @ post)" "unset b = unset c" by blast
    then show ?thesis using assms(1) unset_eq [OF assms(4)] unset_eq [of b c]
      by (simp add: apart_def)
  qed
  moreover have "c_str (''--'' @ arg_name b) \<notin> spelled_as a'" if "b \<in> set pre'" for b
  proof -
    from same(1) [OF that] obtain c where "c \<in> set pre" "unset b = unset c" by blast
    then show ?thesis using assms(1) same_spelling(1) [OF assms(4)] unset_eq(1) [of b c]
      by (simp add: apart_def)
  qed
  ultimately show ?thesis
    using assms(1) unset_eq(3) [OF assms(4)] by (simp add: apart_def)
qed

section \<open>What the whole command line does\<close>

text \<open>The values that the words at \<open>is\<close> give to the variable of \<open>a\<close>, in order.\<close>

definition settings :: "Argument \<Rightarrow> string list \<Rightarrow> nat list \<Rightarrow> arg_value list" where
  "settings a argv is = map (set_value a argv) (filter (sets a argv) is)"

lemma touch_sets: "arg_set (touch argv i (argv ! i \<in> spelled_as a) a) = (sets a argv i \<or> arg_set a)"
  by (auto simp: touch_def sets_def)

lemma scan_words_effect:
  assumes "apart pre a post" "scan_words argv is (pre @ a # post) st = Inr (args', st')"
  shows "\<exists>pre' a' post'. args' = pre' @ a' # post' \<and> unset a' = unset a \<and> apart pre' a' post'
    \<and> arg_set a' = (settings a argv is \<noteq> [] \<or> arg_set a)
    \<and> value_at (target a) st' = last (value_at (target a) st # settings a argv is)
    \<and> (\<forall>i \<in> set is. number_ok a argv i (sets a argv i))"
  using assms
proof (induction "is" arbitrary: pre a post st)
  case Nil
  then show ?case
    by (intro exI [of _ pre] exI [of _ a] exI [of _ post]) (simp add: settings_def)
next
  case (Cons i "is")
  from Cons.prems(2) obtain args1 st1 where
    w: "scan_word argv i (pre @ a # post) st = Inr (args1, st1)"
    and ws: "scan_words argv is args1 st1 = Inr (args', st')"
    by (auto simp: bindR_eq_Inr)
  let ?a = "touch argv i (argv ! i \<in> spelled_as a) a"
  from scan_word_effect [OF Cons.prems(1) w] obtain pre1 post1 where
    args1: "args1 = pre1 @ ?a # post1" and m: "map unset pre1 = map unset pre"
      "map unset post1 = map unset post"
    and st1: "value_at (target a) st1 = (if sets a argv i then set_value a argv i
      else value_at (target a) st)"
    and n1: "number_ok a argv i (sets a argv i)"
    by blast
  have ap: "apart pre1 ?a post1" using apart_unset [OF Cons.prems(1) m] by simp
  have u: "unset ?a = unset a" by simp
  have s: "settings ?a argv is = settings a argv is"
  proof -
    have "sets ?a argv = sets a argv" "set_value ?a argv = set_value a argv"
      using same_spelling(2,3) [OF u] by (intro ext; simp)+
    then show ?thesis by (simp only: settings_def)
  qed
  have number_same: "number_ok ?a argv j (sets ?a argv j) = number_ok a argv j (sets a argv j)" for j
    using same_spelling(2) [OF u] unset_eq(4) [OF u] by (simp add: number_ok_def)
  from Cons.IH [OF ap ws [unfolded args1]] obtain pre' a' post' where
    "args' = pre' @ a' # post'" "unset a' = unset a" "apart pre' a' post'"
    "arg_set a' = (settings a argv is \<noteq> [] \<or> arg_set ?a)"
    "value_at (target a) st' = last (value_at (target a) st1 # settings a argv is)"
    "\<forall>i \<in> set is. number_ok a argv i (sets a argv i)"
    unfolding s u unset_eq(5) [OF u] number_same by blast
  then show ?case
    using st1 n1 by (intro exI [of _ pre'] exI [of _ a'] exI [of _ post'])
      (auto simp: settings_def touch_sets)
qed

lemma apply_config_assigns:
  "apply_config a s st = Inr st' \<Longrightarrow> callback a = None \<Longrightarrow> \<exists>v. st' = assign (target a) v st"
  by (cases "arg_type a"; cases "pointer a")
    (auto simp: apply_config_def run_callback_def bindR_eq_Inr target_def pointer_def
      write_string_def write_integer_def write_boolean_def intro: assign.simps [symmetric])

lemma config_other:
  assumes "\<forall>b \<in> set args. callback b = None \<and> (target b \<noteq> t \<or> arg_set b)"
    "config_arguments config args st = Inr st'"
  shows "value_at t st' = value_at t st"
  using assms
proof (induction args arbitrary: st)
  case (Cons b args)
  show ?case
  proof (cases "um_find (objectValues config) (arg_name b) = None \<or> arg_set b")
    case True
    with Cons show ?thesis by (auto split: option.splits)
  next
    case False
    then obtain v where v: "um_find (objectValues config) (arg_name b) = Some v" "\<not> arg_set b"
      by auto
    with Cons.prems(2) obtain st1 where
      a: "apply_config b (stringValue v) st = Inr st1"
      and c: "config_arguments config args st1 = Inr st'" by (auto simp: bindR_eq_Inr)
    have "target b \<noteq> t" "callback b = None" using Cons.prems(1) v(2) by auto
    then have "value_at t st1 = value_at t st" using apply_config_assigns [OF a] by auto
    with Cons.IH [OF _ c] Cons.prems(1) show ?thesis by simp
  qed
qed simp

lemma parse_arguments_Starts:
  assumes "parse_arguments file argv args st = ret (Starts args' st')"
  obtains st1 where "scan_words argv [0..<length argv] (own_arguments args) st = Inr (args', st1)"
    "st' = st1 \<or> (\<exists>config. config_arguments config args' st1 = Inr st')"
proof -
  from assms obtain args1 st1 where
    s: "scan_words argv [0..<length argv] (own_arguments args) st = Inr (args1, st1)"
    and r: "(case file (strings st1 ''config_path'') of
          None \<Rightarrow> ret (Starts args1 st1)
        | Some contents \<Rightarrow>
            bindP (parse_into new_empty (c_str contents)) (\<lambda>config.
              bindP (lift_res (config_arguments config args1 st1)) (\<lambda>st. ret (Starts args1 st))))
        = ret (Starts args' st')"
    by (cases "scan_words argv [0..<length argv] (own_arguments args) st")
      (auto simp: parse_arguments_def split: if_splits)
  have "args1 = args' \<and> (st' = st1 \<or> (\<exists>config. config_arguments config args1 st1 = Inr st'))"
  proof (cases "file (strings st1 ''config_path'')")
    case None
    with r show ?thesis by simp
  next
    case (Some contents)
    with r obtain config where
      "bindP (lift_res (config_arguments config args1 st1)) (\<lambda>st. ret (Starts args1 st)) =
        ret (Starts args' st')" by (auto simp: bindP_eq_ret)
    then show ?thesis by (cases "config_arguments config args1 st1") auto
  qed
  with s show thesis by (intro that) auto
qed

section \<open>What the command line promises\<close>

text \<open>The last word that sets an argument which no other one disturbs.\<close>

lemma last_setting_wins:
  assumes "own_arguments args = pre @ a # post" "apart pre a post"
    "parse_arguments file argv args st = ret (Starts args' st')"
    "settings a argv [0..<length argv] \<noteq> []"
  shows "value_at (target a) st' = last (settings a argv [0..<length argv])"
proof -
  from parse_arguments_Starts [OF assms(3)] obtain st1 where
    s: "scan_words argv [0..<length argv] (own_arguments args) st = Inr (args', st1)"
    and c: "st' = st1 \<or> (\<exists>config. config_arguments config args' st1 = Inr st')" by blast
  from scan_words_effect [OF assms(2) s [unfolded assms(1)]] obtain pre' a' post' where
    args': "args' = pre' @ a' # post'" and ap: "apart pre' a' post'" and u: "unset a' = unset a"
    and "arg_set a'" "value_at (target a) st1 = last (settings a argv [0..<length argv])"
    using assms(4) by auto
  moreover have "\<forall>b \<in> set args'. callback b = None \<and> (target b \<noteq> target a \<or> arg_set b)"
    using ap \<open>arg_set a'\<close> unset_eq(5) [OF u] by (auto simp: args' apart_def)
  ultimately show ?thesis using c config_other [of args' "target a"] by metis
qed

text \<open>
  An option on the command line wins over the configuration file, and the last one wins: when
  the program starts, the variable of an argument that no other argument disturbs has the value
  of its last occurrence on the command line, whatever the configuration file says.  A word
  counts even where it is the value of another option.
\<close>

theorem command_line_wins:
  assumes "own_arguments args = pre @ a # post" "apart pre a post"
    "parse_arguments file argv args st = ret (Starts args' st')"
    "settings a argv [0..<length argv] \<noteq> []"
  shows "value_at (target a) st' = last (settings a argv [0..<length argv])"
  by (rule last_setting_wins [OF assms])

definition keyfile_argument :: Argument where
  "keyfile_argument = \<lparr>arg_name = ''keyfile'', alts = [''-k''], callback = None, required = False,
     arg_set = False, arg_type = ARG_STRING, string_value = Some ''keyfile'',
     integer_value = None, boolean_value = None\<rparr>"

definition verbose_argument :: Argument where
  "verbose_argument = \<lparr>arg_name = ''verbose'', alts = [''-v''], callback = None, required = False,
     arg_set = False, arg_type = ARG_BOOLEAN, string_value = None,
     integer_value = None, boolean_value = Some ''verbose''\<rparr>"

definition port_argument :: Argument where
  "port_argument = \<lparr>arg_name = ''port'', alts = [''-p''], callback = None, required = False,
     arg_set = False, arg_type = ARG_INTEGER, string_value = None,
     integer_value = Some ''port'', boolean_value = None\<rparr>"

definition no_store :: store where
  "no_store = \<lparr>strings = (\<lambda>_. []), integers = (\<lambda>_. 0), booleans = (\<lambda>_. False)\<rparr>"

text \<open>The key file is called \<open>-v\<close>, and the program is verbose.\<close>

lemma command_line_wins_witness:
  "\<exists>args' st'. parse_arguments (\<lambda>_. None) [''comd'', ''-k'', ''-v''] [keyfile_argument] no_store =
      ret (Starts args' st') \<and> strings st' ''keyfile'' = ''-v'' \<and> booleans st' ''verbose''"
proof -
  let ?argv = "[''comd'', ''-k'', ''-v'']"
  let ?post = "drop 2 (own_arguments [keyfile_argument])"
  have own: "own_arguments [keyfile_argument] = [keyfile_argument] @ verbose_argument # ?post"
    by (simp add: own_arguments_def define_argument_def verbose_argument_def)
  have "\<exists>args' st'. parse_arguments (\<lambda>_. None) ?argv [keyfile_argument] no_store =
      ret (Starts args' st') \<and> strings st' ''keyfile'' = ''-v''"
    by (simp add: parse_arguments_def asks_help_def own_arguments_def define_argument_def
        keyfile_argument_def check_lambda_def run_callback_def c_str_def upt_rec numeral_eq_Suc
        no_store_def write_string_def write_boolean_def)
  then obtain args' st' where p: "parse_arguments (\<lambda>_. None) ?argv [keyfile_argument] no_store =
      ret (Starts args' st')" and k: "strings st' ''keyfile'' = ''-v''" by blast
  have set: "settings verbose_argument ?argv [0..<length ?argv] = [BooleanValue True]"
    by (simp add: settings_def sets_def set_value_def spelled_as_def verbose_argument_def c_str_def
        upt_rec numeral_eq_Suc)
  have "apart [keyfile_argument] verbose_argument ?post"
    by (simp add: apart_def own_arguments_def define_argument_def keyfile_argument_def
        verbose_argument_def spelled_as_def c_str_def target_def pointer_def)
  from command_line_wins [OF own this p] set have "booleans st' ''verbose''"
    by (simp add: verbose_argument_def target_def pointer_def)
  with p k show ?thesis by blast
qed

text \<open>
  A number that is none stops the program: when the word after an integer option does not
  begin with a number, or is too large, \<open>parse_arguments\<close> ends in an exception that nobody takes.
\<close>

theorem bad_integer_is_fatal:
  assumes "own_arguments args = pre @ a # post" "apart pre a post" "arg_type a = ARG_INTEGER"
    "i + 1 < length argv" "argv ! i \<in> spelled_as a" "stoi (argv ! (i + 1)) = Inl e"
    "\<not> asks_help argv"
  shows "\<exists>e'. parse_arguments file argv args st = fail e'"
proof (cases "scan_words argv [0..<length argv] (own_arguments args) st")
  case (Inl e')
  with assms(7) show ?thesis by (auto simp: parse_arguments_def)
next
  case (Inr r)
  then have "\<forall>j \<in> set [0..<length argv]. number_ok a argv j (sets a argv j)"
    using scan_words_effect [OF assms(2)] assms(1) by (cases r) fastforce
  then show ?thesis using assms(3-6) by (auto simp: number_ok_def sets_def)
qed

lemma bad_integer_is_fatal_witness:
  "\<exists>e'. parse_arguments (\<lambda>_. None) [''comd'', ''-p'', ''http''] [port_argument] no_store = fail e'"
proof (rule bad_integer_is_fatal [where pre = "[]" and a = port_argument
      and post = "drop 1 (own_arguments [port_argument])" and i = 1])
  show "stoi ([''comd'', ''-p'', ''http''] ! (1 + 1)) = Inl InvalidArgument" by code_simp
qed (simp_all add: own_arguments_def define_argument_def apart_def port_argument_def spelled_as_def
    c_str_def asks_help_def target_def pointer_def)

end
