(* ===== verification/Http.thy ===== *)
theory Http
  imports Util JsonRoundtrip
begin

text \<open>
  \<open>Util::parse_http_request\<close> of \<open>cpp-source/util.cpp\<close>: the character-level parser of request
  lines, query parameters, headers and bodies.  The pointer \<open>it\<close> only moves forward, so it is
  the rest of the request; running past the terminator is a fault.
\<close>

section \<open>State\<close>

datatype RequestResult = HTTP | HTTP_API | HTTP_FORM | API

text \<open>The local variables of the function, and the object it fills.\<close>

record http_state =
  request_obj :: JsonObject
  state :: nat
  new_key :: string
  new_value :: string
  exit_http_parse :: bool

section \<open>Storing values\<close>

text \<open>
  A parameter is parsed as JSON into the object that is already there, if there is one; text
  that starts no JSON value becomes a string.
\<close>

definition member_or_new :: "JsonObject \<Rightarrow> string \<Rightarrow> JsonObject" where
  "member_or_new obj key =
     (case um_find (objectValues obj) key of None \<Rightarrow> new_empty | Some v \<Rightarrow> v)"

definition store_value :: "string \<Rightarrow> string \<Rightarrow> JsonObject \<Rightarrow> JsonObject prog" where
  "store_value key value obj =
     bindP (parse_into (set_type NOTYPE (member_or_new obj key)) (c_str value))
       (\<lambda>v. ret (set_objectValue key
          (if jtype v = NOTYPE then set_stringValue value (set_type STRING v) else v) obj))"

definition store_string :: "string \<Rightarrow> string \<Rightarrow> JsonObject \<Rightarrow> JsonObject" where
  "store_string key value obj =
     set_objectValue key (set_stringValue value (set_type STRING (member_or_new obj key))) obj"

text \<open>\<open>request_obj->objectValues[key]->stringValue = value\<close>, for a key that is there.\<close>

definition assign_string :: "string \<Rightarrow> string \<Rightarrow> JsonObject \<Rightarrow> JsonObject prog" where
  "assign_string key value obj =
     (case um_find (objectValues obj) key of
        None \<Rightarrow> fail NullDeref
      | Some v \<Rightarrow> ret (set_objectValue key (set_stringValue value v) obj))"

section \<open>One character of the head of the request\<close>

text \<open>
  The first \<open>switch\<close> ends with \<open>continue\<close>, having advanced the pointer by some characters more,
  or falls to the second one, which collects.
\<close>

datatype switch_result = Continued http_state nat | Falls http_state

definition http_switch :: "char \<Rightarrow> http_state \<Rightarrow> switch_result prog" where
  "http_switch c st =
     (if c = CHR '' '' then
        (if state st = 1 then
           (if length (new_value st) = 0 then ret (Continued (st\<lparr>exit_http_parse := True\<rparr>) 0)
            else bindP (assign_string ''route'' (new_value st) (request_obj st))
              (\<lambda>obj. ret (Continued
                (st\<lparr>request_obj := obj, state := 4, new_value := []\<rparr>) 0)))
         else if state st = 2 then ret (Continued (st\<lparr>state := 4\<rparr>) 0)
         else if state st = 3 then
           bindP (store_value (new_key st) (new_value st) (request_obj st))
             (\<lambda>obj. ret (Continued (st\<lparr>request_obj := obj, state := 4, new_value := []\<rparr>) 0))
         else ret (Falls st))
      else if c = CHR ''?'' \<and> state st = 1 then
        bindP (assign_string ''route'' (new_value st) (request_obj st))
          (\<lambda>obj. ret (Continued (st\<lparr>request_obj := obj, new_key := [], state := 2\<rparr>) 0))
      else if c = CHR ''='' \<and> state st = 2 then
        ret (Continued (st\<lparr>new_value := [], state := 3\<rparr>) 0)
      else if c = CHR ''&'' \<and> state st = 3 then
        bindP (store_value (new_key st) (new_value st) (request_obj st))
          (\<lambda>obj. ret (Continued (st\<lparr>request_obj := obj, new_key := [], state := 2\<rparr>) 0))
      else if c = LF then
        (if state st = 4 then
           bindP (assign_string ''protocol'' (new_value st) (request_obj st))
             (\<lambda>obj. ret (Continued (st\<lparr>request_obj := obj, new_key := [], state := 5\<rparr>) 0))
         else if state st = 5 then ret (Falls (st\<lparr>state := 7\<rparr>))
         else if state st = 6 then
           ret (Continued (st\<lparr>request_obj := store_string (new_key st) (new_value st)
             (request_obj st), new_key := [], state := 5\<rparr>) 0)
         else ret (Falls st))
      else if c = CHR '':'' \<and> state st = 5 then
        ret (Continued (st\<lparr>new_value := [], state := 6\<rparr>) 1)
      else ret (Falls st))"

text \<open>The second \<open>switch\<close>; \<open>cs\<close> is what follows the current character.\<close>

definition http_collect :: "char \<Rightarrow> string \<Rightarrow> http_state \<Rightarrow> http_state \<times> nat" where
  "http_collect c cs st =
     (if state st = 3 \<and> c = CHR ''+'' then (st\<lparr>new_value := new_value st @ '' ''\<rparr>, 0)
      else if state st \<in> {0, 1, 3, 4, 6} then
        (if c = CHR ''%'' then
           (if starts_with cs ''26'' then (st\<lparr>new_value := new_value st @ [DQ]\<rparr>, 2)
            else if starts_with cs ''0A'' then (st\<lparr>new_value := new_value st @ [LF]\<rparr>, 2)
            else (st, 0))
         else if c \<noteq> CR then (st\<lparr>new_value := new_value st @ [c]\<rparr>, 0)
         else (st, 0))
      else if state st = 2 \<or> state st = 5 then (st\<lparr>new_key := new_key st @ [c]\<rparr>, 0)
      else
        (let n = (if c = CR \<or> c = LF then state st + 1 else state st) in
         (st\<lparr>state := n, exit_http_parse := (8 \<le> n \<or> exit_http_parse st)\<rparr>, 0)))"

definition http_step :: "char \<Rightarrow> string \<Rightarrow> http_state \<Rightarrow> (http_state \<times> nat) prog" where
  "http_step c cs st =
     bindP (http_switch c st)
       (\<lambda>r. case r of Continued st' k \<Rightarrow> ret (st', k) | Falls st' \<Rightarrow> ret (http_collect c cs st'))"

fun http_loop :: "http_state \<Rightarrow> string \<Rightarrow> (http_state \<times> string) prog" where
  "http_loop st [] = ret (st, [])"
| "http_loop st (c # cs) =
     (if exit_http_parse st then ret (st, c # cs)
      else bindP (http_step c cs st)
        (\<lambda>(st', k). if length cs < k then fail OutOfBounds else http_loop st' (drop k cs)))"

declare http_loop.simps(2) [simp del]

section \<open>A form in the body\<close>

fun form_loop :: "JsonObject \<Rightarrow> nat \<Rightarrow> string \<Rightarrow> string \<Rightarrow> string \<Rightarrow> JsonObject prog" where
  "form_loop obj st key value [] =
     (if st = 2 then store_value key value obj else ret obj)"
| "form_loop obj st key value (c # cs) =
     (if c = CHR ''&'' then
        bindP (store_value key value obj) (\<lambda>obj'. form_loop obj' 1 [] [] cs)
      else if c = CHR ''='' then form_loop obj 2 key value cs
      else if st = 1 then form_loop obj st (key @ [c]) value cs
      else if st = 2 then form_loop obj st key (value @ [c]) cs
      else form_loop obj st key value cs)"

section \<open>The request\<close>

definition methods :: "(string \<times> string) list" where
  "methods = [(''GET'', ''GET /''), (''HEAD'', ''HEAD /''), (''POST'', ''POST /''),
     (''DELETE'', ''DELETE /''), (''PUT'', ''PUT /'')]"

text \<open>The chain of comparisons: the method and the number of characters it takes.\<close>

fun find_method :: "(string \<times> string) list \<Rightarrow> string \<Rightarrow> (string \<times> nat) option res" where
  "find_method [] request = Inr None"
| "find_method ((m, lit) # ms) request =
     bindR (strict_compare_inequal request lit (int (length lit)))
       (\<lambda>inequal. if inequal then find_method ms request else Inr (Some (m, length lit)))"

definition content_type_is :: "JsonObject \<Rightarrow> string \<Rightarrow> bool" where
  "content_type_is obj t =
     (HasObj obj ''Content-Type'' STRING \<and> GetStr obj ''Content-Type'' = Inr t)"

definition after_head :: "JsonObject \<Rightarrow> string \<Rightarrow> (RequestResult \<times> JsonObject) prog" where
  "after_head obj it =
     (if content_type_is obj ''application/json'' then
        bindP (parse_into obj it) (\<lambda>obj. ret (HTTP_API, obj))
      else if content_type_is obj ''application/x-www-form-urlencoded'' then
        bindP (form_loop obj 1 [] [] it) (\<lambda>obj. ret (HTTP_FORM, obj))
      else ret (HTTP, obj))"

definition request_defaults :: "JsonObject \<Rightarrow> JsonObject" where
  "request_defaults obj =
     set_objectValue ''protocol'' (new_string ''JPON'')
       (set_objectValue ''route'' (new_typed STRING)
         (set_objectValue ''method'' (new_string ''GET'') obj))"

definition parse_http_request :: "string \<Rightarrow> JsonObject \<Rightarrow> (RequestResult \<times> JsonObject) prog" where
  "parse_http_request request obj =
     (let request = c_str request; obj = request_defaults obj in
      bindP (lift_res (find_method methods request))
        (\<lambda>m. case m of
           None \<Rightarrow> bindP (parse_into obj request) (\<lambda>obj. ret (API, obj))
         | Some (method, n) \<Rightarrow>
             bindP (if method = ''GET'' then ret obj else assign_string ''method'' method obj)
               (\<lambda>obj. bindP
                 (http_loop \<lparr>request_obj = obj, state = 1, new_key = [], new_value = ''/'',
                     exit_http_parse = False\<rparr> (drop n request))
                 (\<lambda>(st, it). after_head (request_obj st) it))))"

section \<open>Requests as text\<close>

text \<open>
  What a character must not be to be collected as it is in a state of the parser: as a part of
  a value in the states 1, 3, 4 and 6, of a key in the states 2 and 5.
\<close>

fun stops :: "nat \<Rightarrow> char list" where
  "stops n =
     (if n = 1 then [CHR '' '', CHR ''?'', CHR ''%'', CR]
      else if n = 3 then [CHR '' '', CHR ''&'', CHR ''+'', CHR ''%'', CR]
      else if n = 2 then [CHR '' '', CHR ''='']
      else if n = 5 then [CHR '':'', LF]
      else [LF, CHR ''%'', CR])"

definition plain_in :: "nat \<Rightarrow> string \<Rightarrow> bool" where
  "plain_in n s = (\<forall>c \<in> set s. c \<notin> set (stops n) \<and> c \<noteq> NUL)"

lemma plain_in_simps [simp]:
  "plain_in n []" "plain_in n (c # s) \<longleftrightarrow> c \<notin> set (stops n) \<and> c \<noteq> NUL \<and> plain_in n s"
  by (auto simp: plain_in_def)

lemma plain_in_no_NUL: "plain_in n s \<Longrightarrow> NUL \<notin> set s"
  by (auto simp: plain_in_def)

lemma http_loop_step:
  "\<not> exit_http_parse st \<Longrightarrow> http_switch c st = ret (Continued st' k) \<Longrightarrow> k \<le> length cs \<Longrightarrow>
    http_loop st (c # cs) = http_loop st' (drop k cs)"
  "\<not> exit_http_parse st \<Longrightarrow> http_switch c st = ret (Falls st1) \<Longrightarrow>
    http_collect c cs st1 = (st', k) \<Longrightarrow> k \<le> length cs \<Longrightarrow>
    http_loop st (c # cs) = http_loop st' (drop k cs)"
  by (simp_all add: http_loop.simps(2) http_step_def)

lemma http_loop_value_char:
  assumes "state st = n" "n \<in> {1, 3, 4, 6}" "\<not> exit_http_parse st" "c \<notin> set (stops n)"
  shows "http_loop st (c # cs) = http_loop (st\<lparr>new_value := new_value st @ [c]\<rparr>) cs"
proof -
  have "http_switch c st = ret (Falls st)"
    using assms by (elim insertE emptyE) (simp_all add: http_switch_def)
  moreover have "http_collect c cs st = (st\<lparr>new_value := new_value st @ [c]\<rparr>, 0)"
    using assms by (elim insertE emptyE) (simp_all add: http_collect_def)
  ultimately show ?thesis using http_loop_step(2) [OF assms(3)] by simp
qed

lemma http_loop_value:
  "state st \<in> {1, 3, 4, 6} \<Longrightarrow> \<not> exit_http_parse st \<Longrightarrow> plain_in (state st) v \<Longrightarrow>
    http_loop st (v @ rest) = http_loop (st\<lparr>new_value := new_value st @ v\<rparr>) rest"
  by (induction v arbitrary: st) (simp_all add: http_loop_value_char del: stops.simps)

lemma http_loop_key_char:
  assumes "state st = n" "n \<in> {2, 5}" "\<not> exit_http_parse st" "c \<notin> set (stops n)"
  shows "http_loop st (c # cs) = http_loop (st\<lparr>new_key := new_key st @ [c]\<rparr>) cs"
proof -
  have "http_switch c st = ret (Falls st)"
    using assms by (elim insertE emptyE) (simp_all add: http_switch_def)
  moreover have "http_collect c cs st = (st\<lparr>new_key := new_key st @ [c]\<rparr>, 0)"
    using assms by (elim insertE emptyE) (simp_all add: http_collect_def)
  ultimately show ?thesis using http_loop_step(2) [OF assms(3)] by simp
qed

lemma http_loop_key:
  "state st \<in> {2, 5} \<Longrightarrow> \<not> exit_http_parse st \<Longrightarrow> plain_in (state st) k \<Longrightarrow>
    http_loop st (k @ rest) = http_loop (st\<lparr>new_key := new_key st @ k\<rparr>) rest"
  by (induction k arbitrary: st) (simp_all add: http_loop_key_char del: stops.simps)

text \<open>A request as a client composes it, and what it means to the application.\<close>

fun print_params :: "(string \<times> string) list \<Rightarrow> string" where
  "print_params [] = []"
| "print_params [(k, v)] = k @ ''='' @ v"
| "print_params ((k, v) # p # ps) = k @ ''='' @ v @ ''&'' @ print_params (p # ps)"

definition print_query :: "(string \<times> string) list \<Rightarrow> string" where
  "print_query params = (if params = [] then [] else ''?'' @ print_params params)"

definition print_headers :: "(string \<times> string) list \<Rightarrow> string" where
  "print_headers headers = concat (map (\<lambda>(k, v). k @ '': '' @ v @ [CR, LF]) headers)"

definition print_request ::
  "string \<Rightarrow> string \<Rightarrow> (string \<times> string) list \<Rightarrow> (string \<times> string) list \<Rightarrow> string \<Rightarrow> string" where
  "print_request method path params headers body =
     method @ '' /'' @ path @ print_query params @ '' HTTP/1.1'' @ [CR, LF]
       @ print_headers headers @ [CR, LF] @ body"

fun store_params :: "(string \<times> string) list \<Rightarrow> JsonObject \<Rightarrow> JsonObject prog" where
  "store_params [] obj = ret obj"
| "store_params ((k, v) # ps) obj = bindP (store_value k v obj) (store_params ps)"

definition store_headers :: "(string \<times> string) list \<Rightarrow> JsonObject \<Rightarrow> JsonObject" where
  "store_headers headers obj = fold (\<lambda>(k, v). store_string k v) headers obj"

definition request_meaning ::
  "string \<Rightarrow> string \<Rightarrow> (string \<times> string) list \<Rightarrow> (string \<times> string) list \<Rightarrow> string \<Rightarrow> JsonObject \<Rightarrow>
    (RequestResult \<times> JsonObject) prog" where
  "request_meaning method path params headers body obj =
     bindP (assign_string ''method'' method (request_defaults obj)) (\<lambda>obj.
     bindP (assign_string ''route'' (CHR ''/'' # path) obj) (\<lambda>obj.
     bindP (store_params params obj) (\<lambda>obj.
     bindP (assign_string ''protocol'' ''HTTP/1.1'' obj) (\<lambda>obj.
       after_head (store_headers headers obj) (c_str body)))))"

definition wf_pairs :: "nat \<Rightarrow> nat \<Rightarrow> (string \<times> string) list \<Rightarrow> bool" where
  "wf_pairs n m ps = (\<forall>(k, v) \<in> set ps. plain_in n k \<and> plain_in m v)"

lemma wf_pairs_simps [simp]:
  "wf_pairs n m []"
  "wf_pairs n m ((k, v) # ps) \<longleftrightarrow> plain_in n k \<and> plain_in m v \<and> wf_pairs n m ps"
  by (auto simp: wf_pairs_def)

lemma bindP_assoc [simp]: "bindP (bindP m f) g = bindP m (\<lambda>x. bindP (f x) g)"
  by (cases m) (auto simp: bindP_def split: sum.split)

lemma bindP_cong_fun: "(\<And>x. f x = g x) \<Longrightarrow> bindP m f = bindP m g"
  by (rule arg_cong [where f = "bindP m"], rule ext)

text \<open>Parameters: from the start of a key to the space that ends the target.\<close>

lemma http_loop_one_param:
  assumes "state st = 2" "new_key st = []" "\<not> exit_http_parse st" "plain_in 2 k" "plain_in 3 v"
  shows "http_loop st (k @ ''='' @ v @ rest) =
    http_loop (st\<lparr>state := 3, new_key := k, new_value := v\<rparr>) rest"
proof -
  have "http_loop st (k @ ''='' @ v @ rest) = http_loop (st\<lparr>new_key := k\<rparr>) (''='' @ v @ rest)"
    using assms by (subst http_loop_key) simp_all
  also have "\<dots> = http_loop (st\<lparr>new_key := k, new_value := [], state := 3\<rparr>) (v @ rest)"
    using assms by (simp add: http_loop.simps(2) http_step_def http_switch_def)
  also have "\<dots> = http_loop (st\<lparr>state := 3, new_key := k, new_value := v\<rparr>) rest"
    using assms by (cases st) (simp add: http_loop_value)
  finally show ?thesis .
qed

lemma http_loop_params:
  assumes "state st = 2" "new_key st = []" "\<not> exit_http_parse st" "wf_pairs 2 3 ps" "ps \<noteq> []"
  shows "http_loop st (print_params ps @ CHR '' '' # rest) =
    bindP (store_params ps (request_obj st)) (\<lambda>obj.
      http_loop (st\<lparr>request_obj := obj, state := 4, new_key := fst (last ps), new_value := []\<rparr>) rest)"
  using assms
proof (induction ps arbitrary: st rule: print_params.induct)
  case (2 k v)
  then have "http_loop st (print_params [(k, v)] @ CHR '' '' # rest) =
      http_loop (st\<lparr>state := 3, new_key := k, new_value := v\<rparr>) (CHR '' '' # rest)"
    using http_loop_one_param [of st k v "CHR '' '' # rest"] by simp
  with 2 show ?case
    by (cases st) (simp add: http_loop.simps(2) http_step_def http_switch_def)
next
  case (3 k v p ps)
  let ?rest = "print_params (p # ps) @ CHR '' '' # rest"
  from 3 have "http_loop st (print_params ((k, v) # p # ps) @ CHR '' '' # rest) =
      http_loop (st\<lparr>state := 3, new_key := k, new_value := v\<rparr>) (CHR ''&'' # ?rest)"
    using http_loop_one_param [of st k v "CHR ''&'' # ?rest"] by simp
  also have "\<dots> = bindP (store_value k v (request_obj st)) (\<lambda>obj.
      http_loop (st\<lparr>request_obj := obj, state := 2, new_key := [], new_value := v\<rparr>) ?rest)"
    using 3 by (simp add: http_loop.simps(2) http_step_def http_switch_def)
  also have "\<dots> = bindP (store_value k v (request_obj st)) (\<lambda>obj.
      bindP (store_params (p # ps) obj) (\<lambda>obj. http_loop
        (st\<lparr>request_obj := obj, state := 4, new_key := fst (last (p # ps)), new_value := []\<rparr>) rest))"
    using 3 by (intro bindP_cong_fun, subst "3.IH") simp_all
  finally show ?case by simp
qed simp

lemma http_loop_headers:
  assumes "state st = 5" "new_key st = []" "\<not> exit_http_parse st" "wf_pairs 5 6 hs"
  shows "\<exists>v. http_loop st (print_headers hs @ rest) =
    http_loop (st\<lparr>request_obj := store_headers hs (request_obj st), new_value := v\<rparr>) rest"
  using assms
proof (induction hs arbitrary: st)
  case Nil
  show ?case
    by (rule exI [of _ "new_value st"]) (simp add: print_headers_def store_headers_def)
next
  case (Cons h hs)
  obtain k v where h: "h = (k, v)" by (cases h)
  let ?rest = "print_headers hs @ rest"
  let ?obj = "store_string k v (request_obj st)"
  have "http_loop st (print_headers (h # hs) @ rest) =
      http_loop st (k @ '': '' @ v @ [CR, LF] @ ?rest)"
    by (simp add: print_headers_def h)
  also have "\<dots> = http_loop (st\<lparr>new_key := k\<rparr>) ('': '' @ v @ [CR, LF] @ ?rest)"
    using Cons.prems h by (subst http_loop_key) simp_all
  also have "\<dots> = http_loop (st\<lparr>new_key := k, new_value := [], state := 6\<rparr>) (v @ [CR, LF] @ ?rest)"
    using Cons.prems by (simp add: http_loop.simps(2) http_step_def http_switch_def)
  also have "\<dots> = http_loop (st\<lparr>new_key := k, new_value := v, state := 6\<rparr>) ([CR, LF] @ ?rest)"
    using Cons.prems h by (cases st) (simp add: http_loop_value)
  also have "\<dots> = http_loop (st\<lparr>request_obj := ?obj, new_value := v\<rparr>) ?rest"
    using Cons.prems
    by (cases st) (simp add: http_loop.simps(2) http_step_def http_switch_def http_collect_def)
  finally have step: "http_loop st (print_headers (h # hs) @ rest) =
      http_loop (st\<lparr>request_obj := ?obj, new_value := v\<rparr>) ?rest" .
  have "\<exists>v'. http_loop (st\<lparr>request_obj := ?obj, new_value := v\<rparr>) ?rest =
      http_loop (st\<lparr>request_obj := store_headers hs ?obj, new_value := v'\<rparr>) rest"
    using Cons.IH [of "st\<lparr>request_obj := ?obj, new_value := v\<rparr>"] Cons.prems h by simp
  with step h show ?case by (simp add: store_headers_def)
qed

text \<open>The empty line ends the head, and the pointer is left at the body.\<close>

lemma http_loop_end:
  assumes "state st = 5" "new_key st = []" "\<not> exit_http_parse st"
  shows "http_loop st (CR # LF # body) =
    ret (st\<lparr>new_key := [CR], state := 8, exit_http_parse := True\<rparr>, body)"
proof -
  have "http_loop st (CR # LF # body) =
      http_loop (st\<lparr>new_key := [CR], state := 8, exit_http_parse := True\<rparr>) body"
    using assms by (simp add: http_loop.simps(2) http_step_def http_switch_def http_collect_def)
  then show ?thesis by (cases body) (simp_all add: http_loop.simps(2))
qed

text \<open>The method and its literal.\<close>

lemma find_method_literal:
  assumes "(m, lit) \<in> set methods"
  shows "find_method methods (lit @ rest) = Inr (Some (m, length lit))"
proof -
  have c: "strict_compare_inequal s ''GET /'' 5 = Inr (\<not> starts_with s ''GET /'')"
    "strict_compare_inequal s ''HEAD /'' 6 = Inr (\<not> starts_with s ''HEAD /'')"
    "strict_compare_inequal s ''POST /'' 6 = Inr (\<not> starts_with s ''POST /'')"
    "strict_compare_inequal s ''DELETE /'' 8 = Inr (\<not> starts_with s ''DELETE /'')"
    "strict_compare_inequal s ''PUT /'' 5 = Inr (\<not> starts_with s ''PUT /'')" for s
    using compare_literal [of "''GET /''" s] compare_literal [of "''HEAD /''" s]
      compare_literal [of "''POST /''" s] compare_literal [of "''DELETE /''" s]
      compare_literal [of "''PUT /''" s] by simp_all
  from assms have "m = ''GET'' \<and> lit = ''GET /'' \<or> m = ''HEAD'' \<and> lit = ''HEAD /''
      \<or> m = ''POST'' \<and> lit = ''POST /'' \<or> m = ''DELETE'' \<and> lit = ''DELETE /''
      \<or> m = ''PUT'' \<and> lit = ''PUT /''"
    by (simp add: methods_def)
  then show ?thesis
    by (elim disjE conjE) (simp_all add: methods_def c starts_with_def)
qed

lemma methods_literal: "(m, lit) \<in> set methods \<Longrightarrow> lit = m @ '' /''"
  by (auto simp: methods_def)

lemma c_str_append_plain: "NUL \<notin> set s \<Longrightarrow> c_str (s @ t) = s @ c_str t"
  by (induction s) (auto simp: c_str_def)

lemma wf_pairs_no_NUL:
  assumes "wf_pairs n m ps"
  shows "NUL \<notin> set (print_params ps)" "NUL \<notin> set (print_headers ps)"
proof -
  have "\<forall>(k, v) \<in> set ps. NUL \<notin> set k \<and> NUL \<notin> set v"
    using assms by (auto simp: wf_pairs_def dest: plain_in_no_NUL)
  then show "NUL \<notin> set (print_params ps)" "NUL \<notin> set (print_headers ps)"
    by (induction ps rule: print_params.induct) (auto simp: print_headers_def)
qed

lemma um_find_request_defaults:
  "um_find (objectValues (request_defaults obj)) ''method'' = Some (new_string ''GET'')"
  "um_find (objectValues (request_defaults obj)) ''route'' = Some (new_typed STRING)"
  "um_find (objectValues (request_defaults obj)) ''protocol'' = Some (new_string ''JPON'')"
  by (simp_all add: request_defaults_def)

lemma um_set_same [simp]: "um_find m k = Some v \<Longrightarrow> um_set k v m = m"
  by (induction m) (auto simp: um_find_def um_set_def split: if_splits)

lemma assign_same:
  assumes "um_find (objectValues obj) k = Some v" "stringValue v = s"
  shows "assign_string k s obj = ret obj"
proof (cases obj; cases v)
  fix t sv ovs avs t' sv' ovs' avs'
  assume "obj = JsonObject t sv ovs avs" "v = JsonObject t' sv' ovs' avs'"
  with assms show ?thesis by (simp add: assign_string_def)
qed

text \<open>The head of a request, from the first character after the method on.\<close>

definition head_state :: "JsonObject \<Rightarrow> string \<Rightarrow> http_state" where
  "head_state obj v =
     \<lparr>request_obj = obj, state = 5, new_key = [], new_value = v, exit_http_parse = False\<rparr>"

lemma http_loop_protocol:
  fixes obj :: JsonObject
  assumes st: "st = \<lparr>request_obj = obj, state = 4, new_key = k, new_value = [],
      exit_http_parse = False\<rparr>"
  shows "http_loop st (''HTTP/1.1'' @ [CR, LF] @ rest) =
    bindP (assign_string ''protocol'' ''HTTP/1.1'' obj)
      (\<lambda>obj. http_loop (head_state obj ''HTTP/1.1'') rest)"
proof -
  have "http_loop st (''HTTP/1.1'' @ [CR, LF] @ rest) =
      http_loop (st\<lparr>new_value := ''HTTP/1.1''\<rparr>) ([CR, LF] @ rest)"
    using st by (subst http_loop_value) simp_all
  then show ?thesis
    using st by (simp add: http_loop.simps(2) http_step_def http_switch_def http_collect_def
        head_state_def)
qed

lemma http_loop_start:
  fixes obj :: JsonObject
  assumes path: "plain_in 1 path" and ps: "wf_pairs 2 3 params"
    and st: "st = \<lparr>request_obj = obj, state = 1, new_key = [], new_value = ''/'',
      exit_http_parse = False\<rparr>"
  shows "http_loop st (path @ print_query params @ '' HTTP/1.1'' @ [CR, LF] @ rest) =
    bindP (assign_string ''route'' (CHR ''/'' # path) obj) (\<lambda>obj.
    bindP (store_params params obj) (\<lambda>obj.
    bindP (assign_string ''protocol'' ''HTTP/1.1'' obj) (\<lambda>obj.
      http_loop (head_state obj ''HTTP/1.1'') rest)))"
proof (cases params)
  case Nil
  let ?tail = "''HTTP/1.1'' @ [CR, LF] @ rest"
  have "http_loop st (path @ '' '' @ ?tail) =
      http_loop (st\<lparr>new_value := CHR ''/'' # path\<rparr>) ('' '' @ ?tail)"
    using path st by (subst http_loop_value) simp_all
  also have "\<dots> = bindP (assign_string ''route'' (CHR ''/'' # path) obj)
      (\<lambda>obj. http_loop (st\<lparr>request_obj := obj, state := 4, new_key := [], new_value := []\<rparr>) ?tail)"
    using st by (simp add: http_loop.simps(2) [of _ "CHR '' ''"] http_step_def http_switch_def)
  also have "\<dots> = bindP (assign_string ''route'' (CHR ''/'' # path) obj) (\<lambda>obj.
      bindP (assign_string ''protocol'' ''HTTP/1.1'' obj) (\<lambda>obj.
        http_loop (head_state obj ''HTTP/1.1'') rest))"
    using st by (intro bindP_cong_fun, subst http_loop_protocol) simp_all
  finally show ?thesis
    using Nil by (simp add: print_query_def)
next
  case (Cons p ps')
  let ?tail = "''HTTP/1.1'' @ [CR, LF] @ rest"
  let ?ps = "print_params params"
  have "http_loop st (path @ ''?'' @ ?ps @ '' '' @ ?tail) =
      http_loop (st\<lparr>new_value := CHR ''/'' # path\<rparr>) (''?'' @ ?ps @ '' '' @ ?tail)"
    using path st by (subst http_loop_value) simp_all
  also have "\<dots> = bindP (assign_string ''route'' (CHR ''/'' # path) obj)
      (\<lambda>obj. http_loop (st\<lparr>request_obj := obj, new_key := [], state := 2,
        new_value := CHR ''/'' # path\<rparr>) (?ps @ CHR '' '' # ?tail))"
    using st by (simp add: http_loop.simps(2) [of _ "CHR ''?''"] http_step_def http_switch_def)
  also have "\<dots> = bindP (assign_string ''route'' (CHR ''/'' # path) obj) (\<lambda>obj.
      bindP (store_params params obj) (\<lambda>obj. http_loop (st\<lparr>request_obj := obj, state := 4,
        new_key := fst (last params), new_value := []\<rparr>) ?tail))"
    using ps st Cons by (intro bindP_cong_fun, subst http_loop_params) simp_all
  also have "\<dots> = bindP (assign_string ''route'' (CHR ''/'' # path) obj) (\<lambda>obj.
      bindP (store_params params obj) (\<lambda>obj.
      bindP (assign_string ''protocol'' ''HTTP/1.1'' obj) (\<lambda>obj.
        http_loop (head_state obj ''HTTP/1.1'') rest)))"
    using st by (intro bindP_cong_fun, subst http_loop_protocol) simp_all
  finally show ?thesis
    using Cons by (simp add: print_query_def)
qed

lemma http_loop_head:
  assumes "wf_pairs 5 6 headers"
  shows "\<exists>st. http_loop (head_state obj v) (print_headers headers @ [CR, LF] @ body) = ret (st, body)
    \<and> request_obj st = store_headers headers obj"
proof -
  obtain v' where "http_loop (head_state obj v) (print_headers headers @ [CR, LF] @ body) =
      http_loop ((head_state obj v)\<lparr>request_obj := store_headers headers obj, new_value := v'\<rparr>)
        ([CR, LF] @ body)"
    using http_loop_headers [of "head_state obj v" headers "[CR, LF] @ body"] assms
    by (auto simp: head_state_def)
  then show ?thesis by (simp add: http_loop_end head_state_def)
qed

lemma parse_request_line:
  assumes m: "(method, lit) \<in> set methods" and path: "plain_in 1 path"
    and ps: "wf_pairs 2 3 params"
  shows "parse_http_request (method @ '' /'' @ path @ print_query params @ '' HTTP/1.1''
        @ [CR, LF] @ rest) obj =
    bindP (assign_string ''method'' method (request_defaults obj)) (\<lambda>obj.
    bindP (assign_string ''route'' (CHR ''/'' # path) obj) (\<lambda>obj.
    bindP (store_params params obj) (\<lambda>obj.
    bindP (assign_string ''protocol'' ''HTTP/1.1'' obj) (\<lambda>obj.
    bindP (http_loop (head_state obj ''HTTP/1.1'') (c_str rest))
      (\<lambda>(st, it). after_head (request_obj st) it)))))"
proof -
  let ?target = "path @ print_query params @ '' HTTP/1.1'' @ [CR, LF]"
  have lit: "lit = method @ '' /''" by (rule methods_literal [OF m])
  have "NUL \<notin> set (lit @ ?target)"
    using m plain_in_no_NUL [OF path] wf_pairs_no_NUL [OF ps]
    by (auto simp: methods_def print_query_def)
  from c_str_append_plain [OF this]
  have c: "c_str (method @ '' /'' @ ?target @ rest) = lit @ (?target @ c_str rest)"
    by (simp add: lit)
  have g: "(if method = ''GET'' then ret (request_defaults obj)
      else assign_string ''method'' method (request_defaults obj)) =
      assign_string ''method'' method (request_defaults obj)"
    using assign_same [OF um_find_request_defaults(1), of "''GET''" obj] by (simp add: new_string_def)
  show ?thesis
    using c http_loop_start [OF path ps refl]
    by (simp add: parse_http_request_def Let_def find_method_literal [OF m] g)
qed

lemma parse_request_meaning:
  assumes "(method, lit) \<in> set methods" "plain_in 1 path" "wf_pairs 2 3 params"
    "wf_pairs 5 6 headers"
  shows "parse_http_request (print_request method path params headers body) obj =
    request_meaning method path params headers body obj"
proof -
  have c: "c_str (print_headers headers @ [CR, LF] @ body) =
      print_headers headers @ [CR, LF] @ c_str body"
    using c_str_append_plain [of "print_headers headers @ [CR, LF]" body]
      wf_pairs_no_NUL(2) [OF assms(4)] by simp
  have "bindP (http_loop (head_state obj ''HTTP/1.1'')
        (c_str (print_headers headers @ [CR, LF] @ body)))
        (\<lambda>(st, it). after_head (request_obj st) it) =
      after_head (store_headers headers obj) (c_str body)" for obj
    using http_loop_head [OF assms(4), of obj "''HTTP/1.1''" "c_str body"] c by auto
  then show ?thesis
    unfolding print_request_def request_meaning_def
    using parse_request_line [OF assms(1-3), of "print_headers headers @ [CR, LF] @ body" obj]
    by simp
qed

section \<open>Plain values\<close>

text \<open>Text in which no JSON value starts: it is stored as it is.\<close>

definition no_json :: "string \<Rightarrow> bool" where
  "no_json v = (\<forall>c \<in> set v. c \<notin> {NUL, BSL, DQ, CHR ''{'', CHR ''[''})"

lemma parse_loop_no_json:
  assumes "jtype obj = NOTYPE" "no_json v"
  shows "\<exists>p. parse_loop (pre @ v) (int (length pre)) obj NOSTATE [] = ret (obj, p)"
  using assms(2)
proof (induction v arbitrary: pre)
  case Nil
  have "parse_step pre (int (length pre)) obj NOSTATE [] = Return obj (int (length pre) - 1)"
    by (simp add: parse_step_def)
  from parse_loop_Return [OF this] show ?case by simp
next
  case (Cons c v)
  then have "c \<notin> {NUL, BSL, DQ, CHR ''{'', CHR ''[''}" by (simp add: no_json_def)
  then have "parse_step (pre @ c # v) (int (length pre)) obj NOSTATE [] =
      Next (int (length pre) + 1) obj NOSTATE []"
    using assms(1) by (auto simp: parse_step_def skip_char_def collect_def)
  from parse_loop_Next [OF this] Cons show ?case
    using Cons.IH [of "pre @ [c]"] by (simp add: no_json_def add.commute)
qed

lemma store_value_plain:
  assumes "no_json v"
  shows "store_value k v obj = ret (store_string k v obj)"
proof -
  let ?o = "set_type NOTYPE (member_or_new obj k)"
  have "c_str v = v" by (rule c_str_id) (use assms in \<open>auto simp: no_json_def\<close>)
  moreover obtain p where "parse_loop v 0 ?o NOSTATE [] = ret (?o, p)"
    using parse_loop_no_json [of ?o v "[]"] assms by auto
  moreover have "set_type STRING ?o = set_type STRING (member_or_new obj k)"
    by (cases "member_or_new obj k") simp
  ultimately show ?thesis
    by (simp add: store_value_def parse_into_def store_string_def)
qed

lemma store_params_plain:
  "\<forall>(k, v) \<in> set ps. no_json v \<Longrightarrow> store_params ps obj = ret (store_headers ps obj)"
  by (induction ps arbitrary: obj) (auto simp: store_headers_def store_value_plain)

definition is_string :: "JsonObject \<Rightarrow> string \<Rightarrow> string \<Rightarrow> bool" where
  "is_string obj k v =
     (case um_find (objectValues obj) k of None \<Rightarrow> False | Some w \<Rightarrow> jtype w = STRING \<and> stringValue w = v)"

lemma store_string_find:
  "is_string (store_string k v obj) k v"
  "k' \<noteq> k \<Longrightarrow> um_find (objectValues (store_string k v obj)) k' = um_find (objectValues obj) k'"
  by (simp_all add: is_string_def store_string_def)

lemma is_string_store:
  "is_string (store_string k v obj) k' w \<longleftrightarrow> (if k' = k then w = v else is_string obj k' w)"
  by (auto simp: is_string_def store_string_def)

lemma store_headers_snoc:
  "store_headers (hs @ [(k, v)]) obj = store_string k v (store_headers hs obj)"
  by (simp add: store_headers_def)

lemma store_headers_append:
  "store_headers (hs @ hs') obj = store_headers hs' (store_headers hs obj)"
  by (simp add: store_headers_def)

lemma store_headers_find:
  "map_of (rev hs) k = Some v \<Longrightarrow> is_string (store_headers hs obj) k v"
  "map_of (rev hs) k = None \<Longrightarrow>
    um_find (objectValues (store_headers hs obj)) k = um_find (objectValues obj) k"
proof (induction hs rule: rev_induct)
  case Nil
  { case 1 then show ?case by simp }
  { case 2 then show ?case by (simp add: store_headers_def) }
next
  case (snoc h hs)
  { case 1 with snoc show ?case
      by (cases h) (auto simp: store_headers_snoc is_string_store split: if_splits) }
  { case 2 with snoc show ?case
      by (cases h) (auto simp: store_headers_snoc store_string_find split: if_splits) }
qed

lemma is_string_GetStr: "is_string obj k v \<Longrightarrow> GetStr obj k = Inr v"
  by (auto simp: is_string_def GetStr_def split: option.splits)

lemma is_string_content_type:
  "is_string obj ''Content-Type'' v \<Longrightarrow> content_type_is obj t \<longleftrightarrow> t = v"
  by (auto simp: content_type_is_def is_string_def GetStr_def HasObj_def split: option.splits)

lemma assign_string_store:
  assumes "is_string obj k w"
  shows "assign_string k v obj = ret (store_string k v obj)"
proof -
  obtain x where x: "um_find (objectValues obj) k = Some x" "jtype x = STRING"
    using assms by (auto simp: is_string_def split: option.splits)
  then have "set_type STRING x = x" by (cases x) simp
  with x show ?thesis
    by (simp add: assign_string_def store_string_def member_or_new_def)
qed

text \<open>What the request says about a name: parameters and headers in their order, last wins.\<close>

definition request_bindings ::
  "string \<Rightarrow> string \<Rightarrow> (string \<times> string) list \<Rightarrow> (string \<times> string) list \<Rightarrow> (string \<times> string) list" where
  "request_bindings method path params headers =
     [(''method'', method), (''route'', CHR ''/'' # path)] @ params
       @ [(''protocol'', ''HTTP/1.1'')] @ headers"

lemma request_defaults_strings:
  "is_string (request_defaults obj) ''method'' ''GET''"
  "is_string (request_defaults obj) ''route'' []"
  "is_string (request_defaults obj) ''protocol'' ''JPON''"
  by (simp_all add: is_string_def um_find_request_defaults new_string_def new_typed_def)

lemma request_meaning_plain:
  assumes "\<forall>(k, v) \<in> set params. no_json v"
  shows "request_meaning method path params headers body obj =
    after_head (store_headers (request_bindings method path params headers) (request_defaults obj))
      (c_str body)"
proof -
  note d = request_defaults_strings [of obj]
  let ?o = "store_string ''method'' method (request_defaults obj)"
  let ?o2 = "store_string ''route'' (CHR ''/'' # path) ?o"
  have r: "is_string ?o ''route'' []"
    using d(2) by (simp add: is_string_def store_string_find)
  have "is_string ?o2 ''protocol'' ''JPON''"
    using d(3) by (simp add: is_string_def store_string_find)
  then have "\<exists>w. is_string (store_headers params ?o2) ''protocol'' w"
    using store_headers_find [of params "''protocol''"]
    by (cases "map_of (rev params) ''protocol''") (auto simp: is_string_def)
  then obtain w where w: "is_string (store_headers params ?o2) ''protocol'' w" by blast
  show ?thesis
    using assms
    by (simp add: request_meaning_def assign_string_store [OF d(1)] assign_string_store [OF r]
        store_params_plain assign_string_store [OF w] request_bindings_def store_headers_append)
      (simp add: store_headers_def)
qed

lemma objectValues_shape:
  "store_string k v (JsonObject t sv ovs avs) =
     JsonObject t sv (objectValues (store_string k v (JsonObject t sv ovs avs))) avs"
  by (simp add: store_string_def)

lemma store_headers_shape:
  "\<exists>ovs'. store_headers hs (JsonObject t sv ovs avs) = JsonObject t sv ovs' avs"
proof (induction hs arbitrary: ovs)
  case (Cons h hs)
  obtain k v where "h = (k, v)" by (cases h)
  with Cons.IH [of "objectValues (store_string k v (JsonObject t sv ovs avs))"]
  show ?case using objectValues_shape [of k v t sv ovs avs] by (simp add: store_headers_def)
qed (simp add: store_headers_def)

lemma request_defaults_shape:
  "request_defaults (new_typed OBJECT) = JsonObject OBJECT []
     [(''method'', new_string ''GET''), (''route'', new_typed STRING),
      (''protocol'', new_string ''JPON'')] []"
  by (simp add: request_defaults_def new_typed_def um_set_def)

lemma request_defaults_find:
  "k \<notin> {''method'', ''route'', ''protocol''} \<Longrightarrow>
    um_find (objectValues (request_defaults (new_typed OBJECT))) k = None"
  by (simp add: request_defaults_shape um_find_def)

definition request_members :: "(string \<times> string) list \<Rightarrow> JsonObject" where
  "request_members bs = store_headers bs (request_defaults (new_typed OBJECT))"

lemma request_bindings_total:
  "k \<in> {''method'', ''route'', ''protocol''} \<Longrightarrow>
    map_of (rev (request_bindings method path params headers)) k \<noteq> None"
  by (auto simp: request_bindings_def map_of_eq_None_iff)

lemma request_members_GetStr:
  "GetStr (request_members (request_bindings method path params headers)) k =
     (case map_of (rev (request_bindings method path params headers)) k of
        None \<Rightarrow> Inl (MissingKey k) | Some v \<Rightarrow> Inr v)" (is "GetStr ?o k = _")
proof (cases "map_of (rev (request_bindings method path params headers)) k")
  case None
  then have "k \<notin> {''method'', ''route'', ''protocol''}" using request_bindings_total by blast
  from store_headers_find(2) [OF None] request_defaults_find [OF this]
  have "um_find (objectValues ?o) k = None" by (simp add: request_members_def)
  with None show ?thesis by (simp add: GetStr_def)
next
  case (Some v)
  from store_headers_find(1) [OF this] have "is_string ?o k v" by (simp add: request_members_def)
  from is_string_GetStr [OF this] Some show ?thesis by simp
qed

lemma request_members_content_type:
  "content_type_is (request_members (request_bindings method path params headers)) t \<longleftrightarrow>
     map_of (rev (request_bindings method path params headers)) ''Content-Type'' = Some t"
    (is "content_type_is ?o t \<longleftrightarrow> map_of ?bs _ = _")
proof (cases "map_of ?bs ''Content-Type''")
  case None
  from request_members_GetStr [of _ path params headers "''Content-Type''"] None
  show ?thesis by (simp add: content_type_is_def)
next
  case (Some v)
  from store_headers_find(1) [OF this] have "is_string ?o ''Content-Type'' v"
    by (simp add: request_members_def)
  from is_string_content_type [OF this] Some show ?thesis by auto
qed

lemma parse_plain_request:
  assumes "(method, lit) \<in> set methods" "plain_in 1 path" "wf_pairs 2 3 params"
    "wf_pairs 5 6 headers" "\<forall>(k, v) \<in> set params. no_json v"
  shows "parse_http_request (print_request method path params headers body) (new_typed OBJECT) =
    after_head (request_members (request_bindings method path params headers)) (c_str body)"
  using parse_request_meaning [OF assms(1-4)] request_meaning_plain [OF assms(5)]
  by (simp add: request_members_def)

section \<open>What the request parser promises\<close>

text \<open>
  C3. A request that a client composes from a method, a path, query parameters, headers and a
  body is read as exactly that: the route is set, each parameter is parsed as JSON or kept as
  text, in order, the protocol is set, the headers are stored in order, and what follows the
  empty line is handed, up to its first NUL, to the branch that the content type selects.
\<close>

theorem request_is_read_as_composed:
  assumes "(method, lit) \<in> set methods" "plain_in 1 path" "wf_pairs 2 3 params"
    "wf_pairs 5 6 headers"
  shows "parse_http_request (print_request method path params headers body) obj =
    request_meaning method path params headers body obj"
  by (rule parse_request_meaning [OF assms])

lemma request_is_read_as_composed_witness:
  "parse_http_request (print_request ''POST'' ''a/b'' [(''k'', ''1'')] [(''Host'', ''h'')] ''x'')
     (new_typed OBJECT) = request_meaning ''POST'' ''a/b'' [(''k'', ''1'')] [(''Host'', ''h'')] ''x''
     (new_typed OBJECT)"
  by (rule request_is_read_as_composed) (simp_all add: methods_def)

text \<open>
  C10. For a request without JSON in its parameters and without a JSON or form body, every name is
  bound to the last value the request gives it, the names \<open>method\<close>, \<open>route\<close> and \<open>protocol\<close>
  included, and asking for any other name raises.
\<close>

theorem request_members_last_wins:
  assumes "(method, lit) \<in> set methods" "plain_in 1 path" "wf_pairs 2 3 params"
    "wf_pairs 5 6 headers" "\<forall>(k, v) \<in> set params. no_json v"
    "map_of (rev (request_bindings method path params headers)) ''Content-Type'' \<notin>
      {Some ''application/json'', Some ''application/x-www-form-urlencoded''}"
  shows "\<exists>obj. parse_http_request (print_request method path params headers body)
      (new_typed OBJECT) = ret (HTTP, obj) \<and>
    (\<forall>k. GetStr obj k =
      (case map_of (rev (request_bindings method path params headers)) k of
         None \<Rightarrow> Inl (MissingKey k) | Some v \<Rightarrow> Inr v))"
  using parse_plain_request [OF assms(1-5)] assms(6)
  by (simp add: after_head_def request_members_content_type request_members_GetStr)

text \<open>A parameter that is called \<open>route\<close> replaces the route of the request line.\<close>

lemma request_members_last_wins_witness:
  "\<exists>obj. parse_http_request (print_request ''GET'' ''public'' [(''route'', ''/secret'')]
      [(''Host'', ''h'')] []) (new_typed OBJECT) = ret (HTTP, obj)
    \<and> GetStr obj ''route'' = Inr ''/secret'' \<and> GetStr obj ''method'' = Inr ''GET''"
proof -
  let ?ps = "[(''route'', ''/secret'')]" and ?hs = "[(''Host'', ''h'')]"
  have "\<exists>obj. parse_http_request (print_request ''GET'' ''public'' ?ps ?hs []) (new_typed OBJECT) =
      ret (HTTP, obj) \<and> (\<forall>k. GetStr obj k =
        (case map_of (rev (request_bindings ''GET'' ''public'' ?ps ?hs)) k of
           None \<Rightarrow> Inl (MissingKey k) | Some v \<Rightarrow> Inr v))"
    by (rule request_members_last_wins)
      (simp_all add: methods_def no_json_def request_bindings_def)
  then obtain obj where "parse_http_request (print_request ''GET'' ''public'' ?ps ?hs [])
      (new_typed OBJECT) = ret (HTTP, obj)"
    and "GetStr obj ''route'' = Inr ''/secret''" and "GetStr obj ''method'' = Inr ''GET''"
    by (auto simp: request_bindings_def)
  then show ?thesis by blast
qed

text \<open>
  A client that posts a printed JSON object to the API gets its members added to those of the
  request, over them where a key is the same, and the request is classified as an API call.
\<close>

theorem json_body_is_read:
  assumes "(method, lit) \<in> set methods" "plain_in 1 path" "wf_pairs 2 3 params"
    "wf_pairs 5 6 headers" "\<forall>(k, v) \<in> set params. no_json v"
    "map_of (rev (request_bindings method path params headers)) ''Content-Type'' =
      Some ''application/json''"
    "printable (JsonObject OBJECT sv ovs avs)"
  shows "parse_http_request (print_request method path params headers
      (stringify pretty depth (JsonObject OBJECT sv ovs avs))) (new_typed OBJECT) =
    ret (HTTP_API, JsonObject OBJECT [] (reread_members
      (objectValues (request_members (request_bindings method path params headers))) ovs) [])"
proof -
  let ?bs = "request_bindings method path params headers"
  let ?body = "stringify pretty depth (JsonObject OBJECT sv ovs avs)"
  obtain ms where ms: "request_members ?bs = JsonObject OBJECT [] ms []"
    using store_headers_shape unfolding request_members_def request_defaults_shape by blast
  have "c_str ?body = ?body"
    by (rule c_str_id [OF stringify_no_NUL(1) [OF assms(7)]])
  moreover have "content_type_is (request_members ?bs) ''application/json''"
    by (simp add: request_members_content_type assms(6))
  ultimately show ?thesis
    using parse_plain_request [OF assms(1-5), of ?body] parse_into_object [OF assms(7), of ms pretty depth]
    by (simp add: after_head_def ms)
qed

lemma json_body_is_read_witness:
  "\<exists>ms. parse_http_request (print_request ''POST'' ''api'' [] [(''Content-Type'', ''application/json'')]
      (stringify False 0 (JsonObject OBJECT [] [(''token'', new_string ''t'')] []))) (new_typed OBJECT) =
    ret (HTTP_API, JsonObject OBJECT [] ms []) \<and> um_find ms ''token'' = Some (new_string ''t'')"
proof -
  have "parse_http_request (print_request ''POST'' ''api'' [] [(''Content-Type'', ''application/json'')]
      (stringify False 0 (JsonObject OBJECT [] [(''token'', new_string ''t'')] []))) (new_typed OBJECT) =
    ret (HTTP_API, JsonObject OBJECT [] (reread_members (objectValues (request_members
      (request_bindings ''POST'' ''api'' [] [(''Content-Type'', ''application/json'')])))
      [(''token'', new_string ''t'')]) [])"
    by (rule json_body_is_read) (simp_all add: methods_def request_bindings_def new_string_def)
  then show ?thesis
    by (auto simp: new_string_def strip_controls_def)
qed

text \<open>
  Text that starts with no known method is taken as a JSON object as a whole, with the
  defaults \<open>GET\<close>, an empty route and \<open>JPON\<close> for the members it does not set.
\<close>

theorem bare_json_is_api:
  assumes "printable (JsonObject OBJECT sv ovs avs)"
  shows "parse_http_request (stringify pretty depth (JsonObject OBJECT sv ovs avs))
      (new_typed OBJECT) =
    ret (API, JsonObject OBJECT []
      (reread_members (objectValues (request_defaults (new_typed OBJECT))) ovs) [])"
proof -
  let ?text = "stringify pretty depth (JsonObject OBJECT sv ovs avs)"
  obtain rest where r: "?text = CHR ''{'' # rest"
    using stringify_head [of pretty depth "JsonObject OBJECT sv ovs avs"] by auto
  have "find_method methods ?text = Inr None"
    unfolding r by (simp add: methods_def strict_compare_inequal_def numeral_eq_Suc)
  moreover have "c_str ?text = ?text" by (rule c_str_id [OF stringify_no_NUL(1) [OF assms]])
  ultimately show ?thesis
    using parse_into_object [OF assms, of _ pretty depth]
    by (simp add: parse_http_request_def request_defaults_shape del: stringify.simps)
qed

lemma bare_json_is_api_witness:
  "\<exists>ms. parse_http_request (stringify False 0 (JsonObject OBJECT [] [(''route'', new_string ''/r'')] []))
      (new_typed OBJECT) = ret (API, JsonObject OBJECT [] ms [])
    \<and> um_find ms ''route'' = Some (new_string ''/r'')"
proof -
  have "printable (JsonObject OBJECT [] [(''route'', new_string ''/r'')] [])"
    by (simp add: new_string_def)
  from bare_json_is_api [OF this, of False 0] show ?thesis
    by (auto simp: new_string_def strip_controls_def)
qed

text \<open>
  One query parameter hangs the server: with the value \<open>["\<close>, an array whose first string
  does not begin, the request is never answered, whatever the method, path, name, further
  parameters, headers and body.
\<close>

theorem request_never_parsed:
  assumes "(method, lit) \<in> set methods" "plain_in 1 path" "wf_pairs 2 3 ps" "plain_in 2 k"
    "wf_pairs 5 6 headers"
  shows "parse_http_request (print_request method path ((k, [CHR ''['', DQ]) # ps) headers body)
      (new_typed OBJECT) = None"
proof -
  let ?ps = "(k, [CHR ''['', DQ]) # ps"
  have "wf_pairs 2 3 ?ps" using assms by simp
  note meaning = parse_request_meaning [OF assms(1,2) this assms(5), of body "new_typed OBJECT"]
  have "store_params ?ps obj = None" for obj
    by (simp add: store_value_def c_str_id parse_quote_stuck)
  moreover note request_defaults_strings(1) [of "new_typed OBJECT"]
  moreover have "is_string (store_string ''method'' method (request_defaults (new_typed OBJECT)))
      ''route'' []"
    by (simp add: is_string_store request_defaults_strings)
  ultimately show ?thesis
    unfolding meaning request_meaning_def by (simp add: assign_string_store)
qed

lemma request_never_parsed_witness:
  "parse_http_request (print_request ''GET'' [] [(''a'', [CHR ''['', DQ])] [] []) (new_typed OBJECT) = None"
  by (rule request_never_parsed [of _ "''GET /''"]) (simp_all add: methods_def)

text \<open>
  A request that ends in the colon of a header is read past its terminator: after a colon
  the parser skips two characters without looking at the first.
\<close>

theorem header_colon_overruns:
  assumes "(method, lit) \<in> set methods" "plain_in 1 path" "wf_pairs 5 6 headers" "plain_in 5 k"
  shows "parse_http_request (method @ '' /'' @ path @ '' HTTP/1.1'' @ [CR, LF]
      @ print_headers headers @ k @ '':'') (new_typed OBJECT) = fail OutOfBounds"
proof -
  let ?rest = "print_headers headers @ k @ '':''"
  have "NUL \<notin> set ?rest"
    using wf_pairs_no_NUL [OF assms(3)] plain_in_no_NUL [OF assms(4)] by simp
  then have c: "c_str ?rest = ?rest" by (rule c_str_id)
  have loop: "http_loop (head_state obj v) ?rest = fail OutOfBounds" for obj v
  proof -
    obtain v' where "http_loop (head_state obj v) ?rest = http_loop ((head_state obj v)
        \<lparr>request_obj := store_headers headers obj, new_value := v'\<rparr>) (k @ '':'')"
      using http_loop_headers [of "head_state obj v" headers "k @ '':''"] assms(3)
      by (auto simp: head_state_def)
    also have "\<dots> = http_loop ((head_state obj v)\<lparr>request_obj := store_headers headers obj,
        new_value := v', new_key := k\<rparr>) '':''"
      using assms(4) by (subst http_loop_key) (simp_all add: head_state_def)
    also have "\<dots> = fail OutOfBounds"
      by (simp add: http_loop.simps(2) http_step_def http_switch_def head_state_def)
    finally show ?thesis .
  qed
  let ?d = "request_defaults (new_typed OBJECT)"
  note d = request_defaults_strings [of "new_typed OBJECT"]
  let ?d1 = "store_string ''method'' method ?d"
  let ?d2 = "store_string ''route'' (CHR ''/'' # path) ?d1"
  have r: "is_string ?d1 ''route'' []" and w: "is_string ?d2 ''protocol'' ''JPON''"
    using d by (simp_all add: is_string_store)
  show ?thesis
    using parse_request_line [OF assms(1,2), of "[]" ?rest "new_typed OBJECT"] c loop
    by (simp add: print_query_def assign_string_store [OF d(1)] assign_string_store [OF r]
        assign_string_store [OF w])
qed

lemma header_colon_overruns_witness:
  "parse_http_request (''GET'' @ '' /'' @ [] @ '' HTTP/1.1'' @ [CR, LF] @ print_headers [] @ ''Host'' @ '':'')
     (new_typed OBJECT) = fail OutOfBounds"
  by (rule header_colon_overruns [of _ "''GET /''"]) (simp_all add: methods_def)

end
