(* ===== verification/EpollServer.thy ===== *)
theory EpollServer
  imports Prelude
begin

text \<open>
  \<open>cpp-source/tcp-server.hpp\<close> and \<open>cpp-source/tcp-server.cpp\<close>: one thread of the epoll server.
  A thread handles one ready descriptor after another; what the system calls return while it
  does is an argument of the step.  The kernel keeps what the code relies on: which descriptors
  are open, and which are registered in the two epoll sets and armed (\<open>EPOLLONESHOT\<close> disarms a
  descriptor when an event for it is delivered).
\<close>

section \<open>State\<close>

definition PACKET_LIMIT :: int where "PACKET_LIMIT = 16384"

text \<open>What the application and the traffic see of a thread.\<close>

datatype call = OnConnect int | OnDisconnect int | Wrote int string

record config =
  server_fd :: int
  timeout_epoll_fd :: int
  broadcast_pipe0 :: int
  max_connections :: "64 word"
  has_on_connect :: bool
  has_on_disconnect :: bool
  on_read :: "int \<Rightarrow> string \<Rightarrow> int"

record thread =
  running :: bool
  num_connections :: "64 word"
  timer_to_client_map :: "(int, int) umap"
  client_to_timer_map :: "(int, int) umap"
  epoll :: "(int, bool) umap"              \<comment> \<open>\<open>epoll_fd\<close>: registered descriptors, armed or not\<close>
  timeout_epoll :: "(int, bool) umap"      \<comment> \<open>\<open>timeout_epoll_fd\<close>\<close>
  open_fds :: "int list"
  fd_to_details_map :: "(int, string) umap"
  read_counter :: "(int, int) umap"
  write_counter :: "(int, int) umap"
  calls :: "call list"

section \<open>System calls\<close>

definition epoll_add :: "int \<Rightarrow> (int, bool) umap \<Rightarrow> (int, bool) umap" where
  "epoll_add fd m = (if um_count m fd then m else um_set fd True m)"

definition epoll_mod :: "int \<Rightarrow> (int, bool) umap \<Rightarrow> (int, bool) umap" where
  "epoll_mod fd m = (if um_count m fd then um_set fd True m else m)"

definition close_fd :: "int \<Rightarrow> thread \<Rightarrow> bool \<times> thread" where
  "close_fd fd t =
     (if fd \<in> set (open_fds t) then
        (True, t\<lparr>open_fds := removeAll fd (open_fds t), epoll := um_erase fd (epoll t),
          timeout_epoll := um_erase fd (timeout_epoll t)\<rparr>)
      else (False, t))"

text \<open>\<open>map[key]\<close> on a table of \<open>int\<close>: a missing key is inserted with the value 0.\<close>

definition um_index :: "int \<Rightarrow> (int, int) umap \<Rightarrow> int \<times> (int, int) umap" where
  "um_index k m = (case um_find m k of Some v \<Rightarrow> (v, m) | None \<Rightarrow> (0, um_set k 0 m))"

section \<open>Sending and receiving\<close>

text \<open>What \<open>write\<close> and \<open>read\<close> return.\<close>

datatype read_result = Read_would_block | Read_error | Read_eof | Read_data string

text \<open>\<open>send(fd, data, data_length)\<close>, where \<open>write\<close> returns \<open>len\<close>; \<open>True\<close> on error.\<close>

definition send_raw :: "int \<Rightarrow> string \<Rightarrow> int \<Rightarrow> thread \<Rightarrow> bool \<times> thread" where
  "send_raw fd data len t =
     (if len < 0 then (True, t)
      else
        (let n = fst (um_index fd (write_counter t)) in
         (False, t\<lparr>write_counter := um_set fd (n + 1) (write_counter t),
           calls := calls t @ [Wrote fd (take (nat len) data)]\<rparr>)))"

definition send_string :: "int \<Rightarrow> string \<Rightarrow> int \<Rightarrow> thread \<Rightarrow> int \<times> thread" where
  "send_string fd data len t =
     (case send_raw fd data len t of (e, t') \<Rightarrow> (if e then - 1 else int (length data), t'))"

definition recv :: "(int \<Rightarrow> string \<Rightarrow> int) \<Rightarrow> int \<Rightarrow> read_result \<Rightarrow> int" where
  "recv callback fd r =
     (case r of
        Read_would_block \<Rightarrow> 0
      | Read_error \<Rightarrow> - 1
      | Read_eof \<Rightarrow> - 2
      | Read_data data \<Rightarrow> callback fd data)"

section \<open>Starting\<close>

text \<open>The constructor and the beginning of \<open>run_thread\<close>, when every system call succeeds.\<close>

definition start_thread :: "config \<Rightarrow> thread" where
  "start_thread cfg =
     \<lparr>running = True, num_connections = 0, timer_to_client_map = [], client_to_timer_map = [],
      epoll = epoll_add (broadcast_pipe0 cfg) (epoll_add (timeout_epoll_fd cfg)
        (epoll_add (server_fd cfg) [])),
      timeout_epoll = [],
      open_fds = [server_fd cfg, timeout_epoll_fd cfg, broadcast_pipe0 cfg],
      fd_to_details_map = [], read_counter = [], write_counter = [], calls = []\<rparr>"

text \<open>\<open>run\<close>: how many threads it detaches, and whether the caller's thread serves as well.\<close>

definition run :: "bool \<Rightarrow> nat \<Rightarrow> nat \<times> bool" where
  "run returning new_num_threads =
     (let num_threads = (if new_num_threads \<le> 0 then 1 else new_num_threads);
          total = (if \<not> returning then num_threads - 1 else num_threads)
      in (total, \<not> returning))"

section \<open>Closing a client\<close>

definition close_client_callback :: "config \<Rightarrow> int \<Rightarrow> thread \<Rightarrow> thread" where
  "close_client_callback cfg fd t =
     (let t = snd (close_fd fd t);
          t = (if has_on_disconnect cfg then t\<lparr>calls := calls t @ [OnDisconnect fd]\<rparr> else t);
          t = (if max_connections cfg \<le> num_connections t
               then t\<lparr>epoll := epoll_add (server_fd cfg) (epoll t)\<rparr> else t)
      in t\<lparr>num_connections := num_connections t - 1\<rparr>)"

text \<open>\<open>EpollServer::close_client\<close> only calls back.\<close>

definition close_client :: "int \<Rightarrow> (int \<Rightarrow> thread \<Rightarrow> thread) \<Rightarrow> thread \<Rightarrow> thread" where
  "close_client fd callback t = callback fd t"

section \<open>The handlers\<close>

text \<open>An error or a hang-up, or an event without input, on any descriptor.\<close>

definition handle_error :: "config \<Rightarrow> int \<Rightarrow> thread \<Rightarrow> thread" where
  "handle_error cfg the_fd t =
     (let (timer_fd, ctm) = um_index the_fd (client_to_timer_map t);
          t = t\<lparr>client_to_timer_map := um_erase the_fd ctm,
            timer_to_client_map := um_erase timer_fd (timer_to_client_map t)\<rparr>;
          t = snd (close_fd timer_fd t)
      in close_client the_fd (close_client_callback cfg) t)"

definition handle_timeout :: "config \<Rightarrow> int \<Rightarrow> thread \<Rightarrow> thread" where
  "handle_timeout cfg timer_fd t =
     (let (new_fd, ttm) = um_index timer_fd (timer_to_client_map t);
          t = t\<lparr>timer_to_client_map := um_erase timer_fd ttm,
            client_to_timer_map := um_erase new_fd (client_to_timer_map t)\<rparr>;
          (closed, t) = close_fd timer_fd t
      in if \<not> closed then t
         else close_client new_fd (close_client_callback cfg)
           (t\<lparr>epoll := um_erase new_fd (epoll t)\<rparr>))"

text \<open>\<open>None\<close>: \<open>epoll_wait\<close> on the timers fails, and their set is not armed again.\<close>

definition handle_timeouts :: "config \<Rightarrow> int list option \<Rightarrow> thread \<Rightarrow> thread" where
  "handle_timeouts cfg timeouts t =
     (case timeouts of
        None \<Rightarrow> t
      | Some timers \<Rightarrow>
          (let t = fold (handle_timeout cfg) timers t
           in t\<lparr>epoll := epoll_mod (timeout_epoll_fd cfg) (epoll t)\<rparr>))"

definition handle_broadcast ::
  "config \<Rightarrow> string option \<Rightarrow> (int \<Rightarrow> int) \<Rightarrow> thread \<Rightarrow> thread res" where
  "handle_broadcast cfg pipe writes t =
     (case pipe of
        None \<Rightarrow> Inl OutOfBounds
      | Some packet \<Rightarrow>
          (let t = fold (\<lambda>(fd, _) t. snd (send_raw fd packet (writes fd) t))
             (client_to_timer_map t) t
           in Inr (t\<lparr>epoll := epoll_mod (broadcast_pipe0 cfg) (epoll t)\<rparr>)))"

text \<open>
  What happens to one connection: \<open>accept\<close> itself, then the details, the continuation, the
  registration, and the creation and setting of the timer.
\<close>

datatype timer_result = Timer_failed | Timer_unset int | Timer_set int bool

datatype accept_result =
    Accept_would_block
  | Accept_error
  | Accepted int "string option" bool bool timer_result

definition start_timer :: "int \<Rightarrow> timer_result \<Rightarrow> thread \<Rightarrow> thread" where
  "start_timer new_fd timer t =
     (case timer of
        Timer_failed \<Rightarrow> t
      | Timer_unset timer_fd \<Rightarrow> t\<lparr>open_fds := timer_fd # open_fds t\<rparr>
      | Timer_set timer_fd added \<Rightarrow>
          t\<lparr>open_fds := timer_fd # open_fds t,
            timer_to_client_map := um_set timer_fd new_fd (timer_to_client_map t),
            client_to_timer_map := um_set new_fd timer_fd (client_to_timer_map t),
            timeout_epoll := (if added then epoll_add timer_fd (timeout_epoll t)
              else timeout_epoll t)\<rparr>)"

definition connected :: "config \<Rightarrow> int \<Rightarrow> timer_result \<Rightarrow> thread \<Rightarrow> thread" where
  "connected cfg new_fd timer t =
     (let t = start_timer new_fd timer (t\<lparr>epoll := epoll_add new_fd (epoll t)\<rparr>);
          t = t\<lparr>read_counter := um_set new_fd 0 (read_counter t),
            write_counter := um_set new_fd 0 (write_counter t)\<rparr>;
          t = (if has_on_connect cfg then t\<lparr>calls := calls t @ [OnConnect new_fd]\<rparr> else t)
      in t\<lparr>num_connections := num_connections t + 1\<rparr>)"

definition close_only :: "int \<Rightarrow> thread \<Rightarrow> thread" where
  "close_only fd t = snd (close_fd fd t)"

fun accept_loop :: "config \<Rightarrow> accept_result list \<Rightarrow> thread \<Rightarrow> thread" where
  "accept_loop cfg [] t = t"
| "accept_loop cfg (a # accepts) t =
     (if num_connections t < max_connections cfg then
        (case a of
           Accept_would_block \<Rightarrow> t
         | Accept_error \<Rightarrow> t\<lparr>running := False\<rparr>
         | Accepted new_fd details continuation_fails added timer \<Rightarrow>
             (let t = t\<lparr>open_fds := new_fd # open_fds t,
                fd_to_details_map := um_set new_fd
                  (case details of Some d \<Rightarrow> d | None \<Rightarrow> ''NULL'') (fd_to_details_map t)\<rparr>
              in if continuation_fails \<or> \<not> added then close_client new_fd close_only t
                 else accept_loop cfg accepts (connected cfg new_fd timer t)))
      else t)"

definition handle_server :: "config \<Rightarrow> bool \<Rightarrow> accept_result list \<Rightarrow> thread \<Rightarrow> thread" where
  "handle_server cfg locked accepts t =
     (if locked then
        (let t = accept_loop cfg accepts t in
         if num_connections t < max_connections cfg
         then t\<lparr>epoll := epoll_mod (server_fd cfg) (epoll t)\<rparr>
         else t\<lparr>epoll := um_erase (server_fd cfg) (epoll t)\<rparr>)
      else t)"

definition handle_client :: "config \<Rightarrow> int \<Rightarrow> bool \<Rightarrow> read_result \<Rightarrow> thread \<Rightarrow> thread" where
  "handle_client cfg the_fd settime_ok r t =
     (let (timer_fd, ctm) = um_index the_fd (client_to_timer_map t);
          t = t\<lparr>client_to_timer_map := ctm\<rparr>;
          len = recv (on_read cfg) the_fd r
      in if \<not> settime_ok then t
         else if len < 0 then
           (let t = t\<lparr>timer_to_client_map := um_erase timer_fd (timer_to_client_map t),
              client_to_timer_map := um_erase the_fd (client_to_timer_map t)\<rparr>;
                t = snd (close_fd timer_fd t)
            in close_client the_fd (close_client_callback cfg) t)
         else if PACKET_LIMIT \<le> len then t
         else if len = 0 then t
         else t\<lparr>epoll := epoll_mod the_fd (epoll t)\<rparr>)"

section \<open>One event\<close>

record epoll_event =
  ev_fd :: int
  ev_err :: bool
  ev_hup :: bool
  ev_in :: bool

text \<open>The results of the system calls that the handler of the event makes.\<close>

record outcome =
  timeouts :: "int list option"
  pipe_data :: "string option"
  writes :: "int \<Rightarrow> int"
  try_lock :: bool
  accepts :: "accept_result list"
  settime_ok :: bool
  read_res :: read_result

definition deliver :: "int \<Rightarrow> thread \<Rightarrow> thread" where
  "deliver fd t =
     (if um_count (epoll t) fd then t\<lparr>epoll := um_set fd False (epoll t)\<rparr> else t)"

definition handle_event :: "config \<Rightarrow> epoll_event \<Rightarrow> outcome \<Rightarrow> thread \<Rightarrow> thread res" where
  "handle_event cfg ev os t =
     (if ev_err ev \<or> ev_hup ev \<or> \<not> ev_in ev then Inr (handle_error cfg (ev_fd ev) t)
      else if ev_fd ev = timeout_epoll_fd cfg then Inr (handle_timeouts cfg (timeouts os) t)
      else if ev_fd ev = broadcast_pipe0 cfg then
        handle_broadcast cfg (pipe_data os) (writes os) t
      else if ev_fd ev = server_fd cfg then Inr (handle_server cfg (try_lock os) (accepts os) t)
      else Inr (handle_client cfg (ev_fd ev) (settime_ok os) (read_res os) t))"

text \<open>
  One round of the outer loop: \<open>epoll_wait\<close> returns the events, which disarms all of their
  descriptors, and then they are handled in order.
\<close>

fun handle_events :: "config \<Rightarrow> (epoll_event \<times> outcome) list \<Rightarrow> thread \<Rightarrow> thread res" where
  "handle_events cfg [] t = Inr t"
| "handle_events cfg ((ev, os) # evs) t =
     bindR (handle_event cfg ev os t) (handle_events cfg evs)"

definition deliver_all :: "epoll_event list \<Rightarrow> thread \<Rightarrow> thread" where
  "deliver_all evs t = fold (deliver \<circ> ev_fd) evs t"

definition wait_round :: "config \<Rightarrow> (epoll_event \<times> outcome) list \<Rightarrow> thread \<Rightarrow> thread res" where
  "wait_round cfg evs t = handle_events cfg evs (deliver_all (map fst evs) t)"

text \<open>\<open>while(running)\<close>, over the rounds that happen.\<close>

fun run_thread :: "config \<Rightarrow> (epoll_event \<times> outcome) list list \<Rightarrow> thread \<Rightarrow> thread res" where
  "run_thread cfg [] t = Inr t"
| "run_thread cfg (evs # rounds) t =
     (if running t then bindR (wait_round cfg evs t) (run_thread cfg rounds) else Inr t)"

section \<open>The invariant\<close>

text \<open>
  Clients and timers correspond one to one; exactly the clients, the timer set, the broadcast
  pipe and, if there is room (\<open>b\<close>), the server socket are registered; the count is the number of
  clients and stays in bounds.
\<close>

definition is_client :: "thread \<Rightarrow> int \<Rightarrow> bool" where
  "is_client t c = um_count (client_to_timer_map t) c"

definition is_timer :: "thread \<Rightarrow> int \<Rightarrow> bool" where
  "is_timer t tm = um_count (timer_to_client_map t) tm"

definition special_fds :: "config \<Rightarrow> int list" where
  "special_fds cfg = [server_fd cfg, timeout_epoll_fd cfg, broadcast_pipe0 cfg]"

definition maps_ok :: "thread \<Rightarrow> bool" where
  "maps_ok t \<longleftrightarrow> um_wf (client_to_timer_map t) \<and> um_wf (timer_to_client_map t)
     \<and> (\<forall>c tm. um_find (client_to_timer_map t) c = Some tm \<longleftrightarrow>
         um_find (timer_to_client_map t) tm = Some c)"

definition fds_ok :: "config \<Rightarrow> thread \<Rightarrow> bool" where
  "fds_ok cfg t \<longleftrightarrow> distinct (special_fds cfg) \<and> set (special_fds cfg) \<subseteq> set (open_fds t)
     \<and> (\<forall>fd. is_client t fd \<or> is_timer t fd \<longrightarrow>
         fd \<in> set (open_fds t) \<and> fd \<notin> set (special_fds cfg))
     \<and> (\<forall>fd. \<not> (is_client t fd \<and> is_timer t fd))"

definition registered_ok :: "config \<Rightarrow> bool \<Rightarrow> thread \<Rightarrow> bool" where
  "registered_ok cfg b t \<longleftrightarrow>
     (\<forall>fd. um_count (epoll t) fd \<longleftrightarrow> is_client t fd \<or> fd = timeout_epoll_fd cfg
       \<or> fd = broadcast_pipe0 cfg \<or> fd = server_fd cfg \<and> b)
     \<and> (\<forall>tm. um_count (timeout_epoll t) tm \<longleftrightarrow> is_timer t tm)"

definition count_ok :: "config \<Rightarrow> thread \<Rightarrow> bool" where
  "count_ok cfg t \<longleftrightarrow> unat (num_connections t) = length (client_to_timer_map t)
     \<and> num_connections t \<le> max_connections cfg"

definition core :: "config \<Rightarrow> bool \<Rightarrow> thread \<Rightarrow> bool" where
  "core cfg b t \<longleftrightarrow> maps_ok t \<and> fds_ok cfg t \<and> registered_ok cfg b t \<and> count_ok cfg t"

definition thread_inv :: "config \<Rightarrow> thread \<Rightarrow> bool" where
  "thread_inv cfg t \<longleftrightarrow> core cfg (num_connections t < max_connections cfg) t"

lemmas inv_defs = maps_ok_def fds_ok_def registered_ok_def count_ok_def is_client_def is_timer_def

lemma um_find_count: "um_find m k = Some v \<Longrightarrow> um_count m k"
  by (simp add: um_count_find)

lemma length_um_erase:
  "um_wf m \<Longrightarrow> um_count m k \<Longrightarrow> length (um_erase k m) = length m - 1"
proof (induction m)
  case (Cons e m)
  show ?case
  proof (cases "fst e = k")
    case True
    with Cons.prems(1) have "um_erase k m = m"
      by (auto simp: um_wf_def um_erase_def AList.delete_eq filter_id_conv image_iff)
    with True show ?thesis by (cases e) (simp add: um_erase_def AList.delete_eq)
  next
    case False
    with Cons.prems have "um_wf m" "um_count m k"
      by (auto simp: um_wf_def um_count_def split: if_splits)
    moreover from this have "m \<noteq> []" by (auto simp: um_count_def)
    ultimately show ?thesis using Cons.IH False
      by (cases e; cases m) (simp_all add: um_erase_def AList.delete_eq)
  qed
qed (simp add: um_count_def)

lemma length_um_set_new: "\<not> um_count m k \<Longrightarrow> length (um_set k v m) = length m + 1"
  by (induction m) (auto simp: um_set_def um_count_def split: if_splits)

lemma um_erase_idem [simp]: "um_erase k (um_erase k m) = um_erase k m"
  by (simp add: um_erase_def AList.delete_eq)

lemma um_index_Some [simp]: "um_find m k = Some v \<Longrightarrow> um_index k m = (v, m)"
  by (simp add: um_index_def)

lemma um_count_epoll_add [simp]: "um_count (epoll_add fd m) fd' \<longleftrightarrow> fd' = fd \<or> um_count m fd'"
  by (auto simp: epoll_add_def)

lemma um_count_epoll_mod [simp]: "um_count (epoll_mod fd m) fd' \<longleftrightarrow> um_count m fd'"
  by (auto simp: epoll_mod_def)

section \<open>Dropping a client\<close>

text \<open>All three ways to lose a client do the same to the thread.\<close>

definition drop_client :: "config \<Rightarrow> int \<Rightarrow> int \<Rightarrow> thread \<Rightarrow> thread" where
  "drop_client cfg c tm t =
     close_client_callback cfg c (snd (close_fd tm
       (t\<lparr>client_to_timer_map := um_erase c (client_to_timer_map t),
          timer_to_client_map := um_erase tm (timer_to_client_map t)\<rparr>)))"

lemma drop_client_fields:
  "client_to_timer_map (drop_client cfg c tm t) = um_erase c (client_to_timer_map t)"
  "timer_to_client_map (drop_client cfg c tm t) = um_erase tm (timer_to_client_map t)"
  "num_connections (drop_client cfg c tm t) = num_connections t - 1"
  "running (drop_client cfg c tm t) = running t"
  by (simp_all add: drop_client_def close_client_callback_def close_fd_def Let_def)

lemma drop_client_fds:
  assumes "c \<in> set (open_fds t)" "tm \<in> set (open_fds t)" "c \<noteq> tm"
  shows "set (open_fds (drop_client cfg c tm t)) = set (open_fds t) - {c, tm}"
    and "um_count (timeout_epoll (drop_client cfg c tm t)) fd \<longleftrightarrow>
      fd \<noteq> c \<and> fd \<noteq> tm \<and> um_count (timeout_epoll t) fd"
    and "um_count (epoll (drop_client cfg c tm t)) fd \<longleftrightarrow>
      fd \<noteq> c \<and> fd \<noteq> tm \<and> um_count (epoll t) fd
      \<or> fd = server_fd cfg \<and> max_connections cfg \<le> num_connections t"
  using assms
  by (auto simp: drop_client_def close_client_callback_def close_fd_def Let_def)

lemma drop_client_core:
  assumes inv: "core cfg b t" and c: "um_find (client_to_timer_map t) c = Some tm"
    and b: "b \<longleftrightarrow> num_connections t < max_connections cfg"
  shows "core cfg True (drop_client cfg c tm t)"
    and "num_connections (drop_client cfg c tm t) < max_connections cfg"
proof -
  let ?t = "drop_client cfg c tm t"
  from inv have m: "maps_ok t" and f: "fds_ok cfg t" and r: "registered_ok cfg b t"
    and n: "count_ok cfg t" by (simp_all add: core_def)
  from m c have tm: "um_find (timer_to_client_map t) tm = Some c" by (simp add: maps_ok_def)
  have cc: "is_client t c" and tt: "is_timer t tm"
    using c tm by (simp_all add: is_client_def is_timer_def um_find_count)
  have fds: "c \<in> set (open_fds t)" "tm \<in> set (open_fds t)" "c \<noteq> tm"
      "c \<notin> set (special_fds cfg)" "tm \<notin> set (special_fds cfg)"
    using f cc tt by (auto simp: fds_ok_def)
  note ff = drop_client_fields drop_client_fds [OF fds(1-3)]
  have cl: "is_client ?t fd \<longleftrightarrow> fd \<noteq> c \<and> is_client t fd"
    and ti: "is_timer ?t fd \<longleftrightarrow> fd \<noteq> tm \<and> is_timer t fd" for fd
    by (simp_all add: is_client_def is_timer_def ff)
  have "maps_ok ?t"
  proof -
    have "um_find (client_to_timer_map ?t) a = Some b' \<longleftrightarrow>
        um_find (timer_to_client_map ?t) b' = Some a" for a b'
      using m c tm unfolding maps_ok_def ff by (metis option.inject option.simps(3) um_find_erase)
    with m show ?thesis by (simp add: maps_ok_def ff um.wf_erase)
  qed
  moreover have "fds_ok cfg ?t"
    using f fds cc tt unfolding fds_ok_def ff cl ti by blast
  moreover have pos: "0 < unat (num_connections t)"
    using n m cc length_um_erase [of "client_to_timer_map t" c]
    by (cases "client_to_timer_map t") (auto simp: count_ok_def is_client_def um_count_def)
  then have u: "unat (num_connections t - 1) = unat (num_connections t) - 1"
    by (simp add: unat_minus_one unat_gt_0)
  have lt: "num_connections ?t < max_connections cfg"
    using n pos u unfolding ff count_ok_def word_less_nat_alt word_le_nat_alt by linarith
  then have "count_ok cfg ?t"
    using n m cc u by (simp add: count_ok_def ff length_um_erase maps_ok_def is_client_def)
  moreover have "registered_ok cfg True ?t"
  proof -
    have ne: "c \<noteq> timeout_epoll_fd cfg" "c \<noteq> broadcast_pipe0 cfg" "c \<noteq> server_fd cfg"
        "tm \<noteq> timeout_epoll_fd cfg" "tm \<noteq> broadcast_pipe0 cfg" "tm \<noteq> server_fd cfg"
      using fds by (auto simp: special_fds_def)
    have nc: "\<not> is_client t tm" "\<not> is_timer t c" using f cc tt by (auto simp: fds_ok_def)
    have e: "um_count (epoll t) fd \<longleftrightarrow> is_client t fd \<or> fd = timeout_epoll_fd cfg
        \<or> fd = broadcast_pipe0 cfg \<or> fd = server_fd cfg \<and> b" for fd
      using r by (simp add: registered_ok_def)
    have e2: "um_count (timeout_epoll t) x \<longleftrightarrow> is_timer t x" for x
      using r by (simp add: registered_ok_def)
    have "um_count (epoll ?t) fd \<longleftrightarrow> is_client ?t fd \<or> fd = timeout_epoll_fd cfg
        \<or> fd = broadcast_pipe0 cfg \<or> fd = server_fd cfg \<and> True" for fd
      unfolding ff cl e using ne nc b by (cases "fd = c"; cases "fd = tm") (simp_all add: not_less [symmetric], blast+)
    moreover have "um_count (timeout_epoll ?t) x \<longleftrightarrow> is_timer ?t x" for x
      unfolding ff ti e2 using nc by blast
    ultimately show ?thesis by (simp add: registered_ok_def)
  qed
  ultimately show "core cfg True ?t" and "num_connections ?t < max_connections cfg"
    using lt by (simp_all add: core_def)
qed

lemma drop_client_inv:
  assumes "thread_inv cfg t" "um_find (client_to_timer_map t) c = Some tm"
  shows "thread_inv cfg (drop_client cfg c tm t)"
  using drop_client_core [of cfg _ t c tm] assms by (simp add: thread_inv_def)

section \<open>Every handler keeps the invariant\<close>

lemma is_client_obtain:
  assumes "is_client t c" obtains tm where "um_find (client_to_timer_map t) c = Some tm"
  using assms by (auto simp: is_client_def um_count_find)

lemma is_timer_obtain:
  assumes "is_timer t tm" obtains c where "um_find (timer_to_client_map t) tm = Some c"
  using assms by (auto simp: is_timer_def um_count_find)

lemma thread_inv_find:
  assumes "thread_inv cfg t"
  shows "um_find (client_to_timer_map t) c = Some tm \<longleftrightarrow> um_find (timer_to_client_map t) tm = Some c"
  using assms by (simp add: thread_inv_def core_def maps_ok_def)

lemma thread_inv_epoll_mod:
  "thread_inv cfg (t\<lparr>epoll := epoll_mod fd (epoll t)\<rparr>) \<longleftrightarrow> thread_inv cfg t"
  by (simp add: thread_inv_def core_def inv_defs)

lemma handle_error_inv:
  assumes "thread_inv cfg t" "is_client t c"
  shows "thread_inv cfg (handle_error cfg c t)"
proof -
  obtain tm where tm: "um_find (client_to_timer_map t) c = Some tm"
    using is_client_obtain [OF assms(2)] .
  then have "handle_error cfg c t = drop_client cfg c tm t"
    by (simp add: handle_error_def drop_client_def close_client_def Let_def)
  with drop_client_inv [OF assms(1) tm] show ?thesis by simp
qed

lemma handle_timeout_drop:
  assumes inv: "thread_inv cfg t" and tm: "um_find (timer_to_client_map t) tm = Some c"
  shows "handle_timeout cfg tm t = drop_client cfg c tm t"
proof -
  have c: "um_find (client_to_timer_map t) c = Some tm" using thread_inv_find [OF inv] tm by simp
  have fds: "tm \<in> set (open_fds t)" "c \<in> set (open_fds t)" "c \<noteq> tm"
    using inv um_find_count [OF tm] um_find_count [OF c]
    by (auto simp: thread_inv_def core_def fds_ok_def is_client_def is_timer_def)
  then have "um_erase c (um_erase tm (um_erase c (epoll t))) = um_erase c (um_erase tm (epoll t))"
    by (simp add: um_erase_def AList.delete_eq) (rule filter_cong, auto)
  with tm fds show ?thesis
    by (simp add: handle_timeout_def drop_client_def close_client_def close_client_callback_def
        close_fd_def Let_def)
qed

lemma handle_timeout_fold_inv:
  assumes "thread_inv cfg t" "distinct timers" "\<forall>tm \<in> set timers. is_timer t tm"
  shows "thread_inv cfg (fold (handle_timeout cfg) timers t)"
  using assms
proof (induction timers arbitrary: t)
  case (Cons tm timers)
  then obtain c where tm: "um_find (timer_to_client_map t) tm = Some c"
    using is_timer_obtain [of t tm] by auto
  have step: "handle_timeout cfg tm t = drop_client cfg c tm t"
    by (rule handle_timeout_drop [OF Cons.prems(1) tm])
  have "thread_inv cfg (drop_client cfg c tm t)"
    using drop_client_inv [OF Cons.prems(1)] thread_inv_find [OF Cons.prems(1)] tm by blast
  moreover have "\<forall>tm' \<in> set timers. is_timer (drop_client cfg c tm t) tm'"
    using Cons.prems by (auto simp: is_timer_def drop_client_fields)
  ultimately show ?case using Cons.IH Cons.prems step by simp
qed simp

lemma handle_timeouts_inv:
  assumes "thread_inv cfg t" "distinct timers" "\<forall>tm \<in> set timers. is_timer t tm"
  shows "thread_inv cfg (handle_timeouts cfg (Some timers) t)"
  using handle_timeout_fold_inv [OF assms] by (simp add: handle_timeouts_def Let_def thread_inv_epoll_mod)

lemma send_raw_inv: "thread_inv cfg (snd (send_raw fd data len t)) = thread_inv cfg t"
  by (simp add: send_raw_def Let_def thread_inv_def core_def inv_defs)

lemma handle_broadcast_inv:
  assumes "thread_inv cfg t"
  shows "\<exists>t'. handle_broadcast cfg (Some packet) wr t = Inr t' \<and> thread_inv cfg t'"
proof -
  have "thread_inv cfg (fold (\<lambda>(fd, _) t. snd (send_raw fd packet (wr fd) t)) m t)"
    for m :: "(int, int) umap"
    using assms by (induction m arbitrary: t) (auto simp: send_raw_inv)
  then show ?thesis by (simp add: handle_broadcast_def Let_def thread_inv_epoll_mod)
qed

lemma handle_client_cases:
  assumes "um_find (client_to_timer_map t) c = Some tm"
  shows "handle_client cfg c ok r t \<in>
    {t, drop_client cfg c tm t, t\<lparr>epoll := epoll_mod c (epoll t)\<rparr>}"
  using assms by (cases t) (simp add: handle_client_def drop_client_def close_client_def Let_def)

lemma handle_client_inv:
  assumes inv: "thread_inv cfg t" and c: "is_client t c"
  shows "thread_inv cfg (handle_client cfg c ok r t)"
proof -
  obtain tm where tm: "um_find (client_to_timer_map t) c = Some tm"
    using is_client_obtain [OF c] .
  note handle_client_cases [OF tm, of cfg ok r]
  with inv drop_client_inv [OF inv tm] show ?thesis
    by (auto simp: thread_inv_epoll_mod)
qed

text \<open>
  Accepting: the kernel hands out descriptors that are not open, and timers can be made.
\<close>

fun accepts_ok :: "int list \<Rightarrow> accept_result list \<Rightarrow> bool" where
  "accepts_ok fds [] = True"
| "accepts_ok fds (Accepted fd details cont added timer # as) =
     (fd \<notin> set fds \<and> (cont \<or> \<not> added \<or>
       (case timer of Timer_set tm added' \<Rightarrow>
          added' \<and> tm \<notin> set fds \<and> tm \<noteq> fd \<and> accepts_ok (tm # fd # fds) as
        | _ \<Rightarrow> False)))"
| "accepts_ok fds (a # as) = accepts_ok fds as"

lemma connected_core:
  assumes inv: "core cfg True t" and room: "num_connections t < max_connections cfg"
    and fd: "fd \<notin> set (open_fds t)" and tm: "tm \<notin> set (open_fds t)" "tm \<noteq> fd"
  shows "core cfg True (connected cfg fd (Timer_set tm True)
      (t\<lparr>open_fds := fd # open_fds t, fd_to_details_map := details\<rparr>))"
    (is "core cfg True ?t")
proof -
  from inv have m: "maps_ok t" and f: "fds_ok cfg t" and r: "registered_ok cfg True t"
    and n: "count_ok cfg t" by (simp_all add: core_def)
  have new: "\<not> is_client t fd" "\<not> is_timer t tm" "\<not> is_client t tm" "\<not> is_timer t fd"
      "fd \<notin> set (special_fds cfg)" "tm \<notin> set (special_fds cfg)"
    using f fd tm by (auto simp: fds_ok_def)
  have fields: "client_to_timer_map ?t = um_set fd tm (client_to_timer_map t)"
      "timer_to_client_map ?t = um_set tm fd (timer_to_client_map t)"
      "open_fds ?t = tm # fd # open_fds t"
      "epoll ?t = epoll_add fd (epoll t)" "timeout_epoll ?t = epoll_add tm (timeout_epoll t)"
      "num_connections ?t = num_connections t + 1"
    by (simp_all add: connected_def start_timer_def Let_def)
  have cl: "is_client ?t x \<longleftrightarrow> x = fd \<or> is_client t x"
    and ti: "is_timer ?t x \<longleftrightarrow> x = tm \<or> is_timer t x" for x
    by (simp_all add: is_client_def is_timer_def fields)
  have none: "um_find (client_to_timer_map t) fd = None" "um_find (timer_to_client_map t) tm = None"
    using new by (simp_all add: is_client_def is_timer_def um_count_find)
  have "maps_ok ?t"
  proof -
    have "um_find (client_to_timer_map ?t) a = Some b \<longleftrightarrow>
        um_find (timer_to_client_map ?t) b = Some a" for a b
    proof -
      have bij: "um_find (client_to_timer_map t) x = Some y \<longleftrightarrow>
          um_find (timer_to_client_map t) y = Some x" for x y
        using m by (simp add: maps_ok_def)
      have "um_find (client_to_timer_map t) a \<noteq> Some tm"
          "um_find (timer_to_client_map t) b \<noteq> Some fd"
        using none bij [of a tm] bij [of fd b] by simp_all
      with none bij [of a b] show ?thesis
        unfolding fields um_find_set by (cases "a = fd"; cases "b = tm") simp_all
    qed
    with m show ?thesis by (simp add: maps_ok_def fields um.wf_insert)
  qed
  moreover have "fds_ok cfg ?t"
    using f new tm(2) unfolding fds_ok_def cl ti fields list.set by blast
  moreover have "registered_ok cfg True ?t"
    using r unfolding registered_ok_def cl ti fields um_count_epoll_add by blast
  moreover have "count_ok cfg ?t"
  proof -
    have "unat (num_connections t + 1) = unat (num_connections t) + 1"
    proof -
      have "unat (max_connections cfg) < 2 ^ 64"
        by (rule order_less_le_trans [OF unsigned_less]) simp
      with room show ?thesis by (simp add: word_less_nat_alt unat_word_ariths)
    qed
    then show ?thesis
      using n new(1) room length_um_set_new [of "client_to_timer_map t" fd tm]
      unfolding count_ok_def fields is_client_def word_less_nat_alt word_le_nat_alt by linarith
  qed
  ultimately show ?thesis by (simp add: core_def)
qed

lemma close_only_core:
  assumes "core cfg b t" "fd \<notin> set (open_fds t)"
  shows "core cfg b (close_only fd (t\<lparr>open_fds := fd # open_fds t, fd_to_details_map := details\<rparr>))"
proof -
  have f: "fds_ok cfg t" using assms by (simp add: core_def)
  have "\<not> is_client t fd" "\<not> is_timer t fd" "fd \<notin> set (special_fds cfg)"
    using f assms(2) by (auto simp: fds_ok_def)
  then show ?thesis
    using assms
    by (auto simp: close_only_def close_fd_def core_def inv_defs special_fds_def)
qed

lemma accept_loop_core:
  assumes "core cfg True t" "accepts_ok (open_fds t) as"
  shows "core cfg True (accept_loop cfg as t)"
  using assms
proof (induction cfg as t rule: accept_loop.induct)
  case (2 cfg a as t)
  show ?case
  proof (cases "num_connections t < max_connections cfg")
    case room: True
    show ?thesis
    proof (cases a)
      case (Accepted fd details cont added timer)
      let ?d = "um_set fd (case details of Some d \<Rightarrow> d | None \<Rightarrow> ''NULL'') (fd_to_details_map t)"
      let ?t = "t\<lparr>open_fds := fd # open_fds t, fd_to_details_map := ?d\<rparr>"
      have fd: "fd \<notin> set (open_fds t)" using "2.prems" Accepted by simp
      show ?thesis
      proof (cases "cont \<or> \<not> added")
        case True
        then show ?thesis
          using room Accepted close_only_core [OF "2.prems"(1) fd] by (simp add: close_client_def)
      next
        case False
        with "2.prems" Accepted obtain tm where timer: "timer = Timer_set tm True"
            and tm: "tm \<notin> set (open_fds t)" "tm \<noteq> fd"
            and rest: "accepts_ok (tm # fd # open_fds t) as"
          by (cases timer) auto
        have "core cfg True (connected cfg fd timer ?t)"
          unfolding timer by (rule connected_core [OF "2.prems"(1) room fd tm])
        moreover have "open_fds (connected cfg fd timer ?t) = tm # fd # open_fds t"
          by (simp add: connected_def start_timer_def timer Let_def)
        ultimately show ?thesis
          using "2.IH" [OF room Accepted refl] False room Accepted rest by simp
      qed
    qed (use room "2.prems" in \<open>simp_all add: core_def inv_defs\<close>)
  qed (use "2.prems" in simp)
qed simp

lemma handle_server_inv:
  assumes "thread_inv cfg t" "accepts_ok (open_fds t) results"
    and "\<not> locked \<or> num_connections t < max_connections cfg"
  shows "thread_inv cfg (handle_server cfg locked results t)"
proof (cases locked)
  case True
  with assms have "core cfg True t" by (simp add: thread_inv_def)
  from accept_loop_core [OF this assms(2)]
  have inv: "core cfg True (accept_loop cfg results t)" .
  let ?t = "accept_loop cfg results t"
  show ?thesis
  proof (cases "num_connections ?t < max_connections cfg")
    case True
    with \<open>locked\<close> inv show ?thesis
      by (simp add: handle_server_def Let_def thread_inv_epoll_mod) (simp add: thread_inv_def)
  next
    case False
    have "server_fd cfg \<noteq> timeout_epoll_fd cfg" "server_fd cfg \<noteq> broadcast_pipe0 cfg"
        "\<not> is_client ?t (server_fd cfg)"
      using inv by (auto simp: core_def fds_ok_def special_fds_def)
    with inv False have "core cfg False (?t\<lparr>epoll := um_erase (server_fd cfg) (epoll ?t)\<rparr>)"
      by (auto simp: core_def inv_defs)
    with \<open>locked\<close> False show ?thesis
      by (simp add: handle_server_def Let_def thread_inv_def)
  qed
qed (use assms in \<open>simp add: handle_server_def\<close>)

lemma deliver_inv: "thread_inv cfg (deliver fd t) \<longleftrightarrow> thread_inv cfg t"
proof (cases "um_count (epoll t) fd")
  case True
  then have "\<And>x. um_count (um_set fd False (epoll t)) x \<longleftrightarrow> um_count (epoll t) x" by auto
  with True show ?thesis by (simp add: deliver_def thread_inv_def core_def inv_defs)
qed (simp add: deliver_def)

section \<open>What the kernel delivers\<close>

lemma deliver_fields [simp]:
  "client_to_timer_map (deliver fd t) = client_to_timer_map t"
  "timer_to_client_map (deliver fd t) = timer_to_client_map t"
  "num_connections (deliver fd t) = num_connections t"
  "open_fds (deliver fd t) = open_fds t" "calls (deliver fd t) = calls t"
  "running (deliver fd t) = running t"
  by (simp_all add: deliver_def)

lemma deliver_all_fields [simp]:
  "client_to_timer_map (deliver_all evs t) = client_to_timer_map t"
  "timer_to_client_map (deliver_all evs t) = timer_to_client_map t"
  "num_connections (deliver_all evs t) = num_connections t"
  "open_fds (deliver_all evs t) = open_fds t"
  "running (deliver_all evs t) = running t"
  by (induction evs arbitrary: t) (simp_all add: deliver_all_def)

lemma deliver_all_clients:
  "is_client (deliver_all evs t) = is_client t" "is_timer (deliver_all evs t) = is_timer t"
  by (rule ext, simp add: is_client_def is_timer_def)+

lemma deliver_all_inv: "thread_inv cfg (deliver_all evs t) \<longleftrightarrow> thread_inv cfg t"
  by (induction evs arbitrary: t) (simp_all add: deliver_all_def deliver_inv)

lemma deliver_all_epoll:
  "um_find (epoll (deliver_all evs t)) fd =
    (if fd \<in> ev_fd ` set evs then map_option (\<lambda>_. False) (um_find (epoll t) fd)
     else um_find (epoll t) fd)"
  by (induction evs arbitrary: t)
    (auto simp: deliver_all_def deliver_def um_count_find split: option.splits)

text \<open>\<open>epoll_wait\<close> reports every descriptor once, and only those that are armed.\<close>

definition armed_round :: "thread \<Rightarrow> epoll_event list \<Rightarrow> bool" where
  "armed_round t evs \<longleftrightarrow> distinct (map ev_fd evs)
     \<and> (\<forall>ev \<in> set evs. um_find (epoll t) (ev_fd ev) = Some True)"

text \<open>
  What the system calls of a handler return: errors and hang-ups are reported for connections
  only; the timers that are reported as expired are registered; \<open>accept\<close> and
  \<open>timerfd_create\<close> return fresh descriptors, and timers can be made, set and registered.
  \<open>None\<close> for the pipe is a read that returned nothing.
\<close>

definition outcome_ok :: "config \<Rightarrow> thread \<Rightarrow> epoll_event \<Rightarrow> outcome \<Rightarrow> bool" where
  "outcome_ok cfg t ev os \<longleftrightarrow>
     (ev_err ev \<or> ev_hup ev \<or> \<not> ev_in ev \<longrightarrow> ev_fd ev \<notin> set (special_fds cfg))
     \<and> (ev_fd ev = timeout_epoll_fd cfg \<longrightarrow> (case timeouts os of None \<Rightarrow> True
         | Some tms \<Rightarrow> distinct tms \<and> (\<forall>tm \<in> set tms. um_count (timeout_epoll t) tm)))
     \<and> (ev_fd ev = server_fd cfg \<longrightarrow> accepts_ok (open_fds t) (accepts os))"

text \<open>
  An event is stale when its connection was closed after it had been reported: by an expired
  timer that was reported in the same round and handled before it.
\<close>

definition is_stale :: "thread \<Rightarrow> epoll_event \<Rightarrow> bool" where
  "is_stale t ev \<longleftrightarrow> \<not> um_count (epoll t) (ev_fd ev)"

definition empty_read :: "config \<Rightarrow> epoll_event \<Rightarrow> outcome \<Rightarrow> bool" where
  "empty_read cfg ev os \<longleftrightarrow> ev_fd ev = broadcast_pipe0 cfg \<and> pipe_data os = None"

lemma registered_kinds:
  assumes "thread_inv cfg t" "\<not> is_stale t ev"
  shows "is_client t (ev_fd ev) \<or> ev_fd ev = timeout_epoll_fd cfg \<or> ev_fd ev = broadcast_pipe0 cfg
    \<or> ev_fd ev = server_fd cfg \<and> num_connections t < max_connections cfg"
  using assms by (auto simp: is_stale_def thread_inv_def core_def registered_ok_def)

lemma registered_timers:
  "thread_inv cfg t \<Longrightarrow> um_count (timeout_epoll t) tm \<longleftrightarrow> is_timer t tm"
  by (simp add: thread_inv_def core_def registered_ok_def)

text \<open>
  An event that is not stale is handled, and the invariant kept; the only fault is that the
  broadcast pipe is found empty, when \<open>packet[len]\<close> is written with \<open>len\<close> as \<open>read\<close> returned it.
\<close>

lemma handle_event_inv:
  assumes inv: "thread_inv cfg t" and fresh: "\<not> is_stale t ev" and ok: "outcome_ok cfg t ev os"
  shows "(\<exists>t'. handle_event cfg ev os t = Inr t' \<and> thread_inv cfg t')
    \<or> handle_event cfg ev os t = Inl OutOfBounds \<and> empty_read cfg ev os"
proof (cases "ev_err ev \<or> ev_hup ev \<or> \<not> ev_in ev")
  case True
  then have "is_client t (ev_fd ev)"
    using ok registered_kinds [OF inv fresh] by (auto simp: outcome_ok_def special_fds_def)
  with True handle_error_inv [OF inv] show ?thesis by (simp add: handle_event_def)
next
  case False
  consider (timer) "ev_fd ev = timeout_epoll_fd cfg"
    | (pipe) "ev_fd ev \<noteq> timeout_epoll_fd cfg" "ev_fd ev = broadcast_pipe0 cfg"
    | (server) "ev_fd ev \<noteq> timeout_epoll_fd cfg" "ev_fd ev \<noteq> broadcast_pipe0 cfg"
        "ev_fd ev = server_fd cfg" "num_connections t < max_connections cfg"
    | (client) "ev_fd ev \<noteq> timeout_epoll_fd cfg" "ev_fd ev \<noteq> broadcast_pipe0 cfg"
        "ev_fd ev \<noteq> server_fd cfg" "is_client t (ev_fd ev)"
    using registered_kinds [OF inv fresh] inv
    by (auto simp: thread_inv_def core_def fds_ok_def special_fds_def)
  then show ?thesis
  proof cases
    case timer
    with ok have "case timeouts os of None \<Rightarrow> True
        | Some tms \<Rightarrow> distinct tms \<and> (\<forall>tm \<in> set tms. is_timer t tm)"
      by (cases "timeouts os") (simp_all add: outcome_ok_def registered_timers [OF inv])
    with timer False inv handle_timeouts_inv [OF inv] show ?thesis
      by (cases "timeouts os") (simp_all add: handle_event_def handle_timeouts_def)
  next
    case pipe
    with False handle_broadcast_inv [OF inv] show ?thesis
      by (cases "pipe_data os") (simp_all add: handle_event_def handle_broadcast_def empty_read_def)
  next
    case server
    with ok have "accepts_ok (open_fds t) (accepts os)" by (simp add: outcome_ok_def)
    with server False handle_server_inv [OF inv] show ?thesis by (simp add: handle_event_def)
  next
    case client
    with False handle_client_inv [OF inv] show ?thesis by (simp add: handle_event_def)
  qed
qed

lemma start_thread_inv:
  assumes "distinct (special_fds cfg)" "0 < max_connections cfg"
  shows "thread_inv cfg (start_thread cfg)"
  using assms
  by (auto simp: thread_inv_def core_def inv_defs start_thread_def special_fds_def um_wf_def)

section \<open>What a thread promises\<close>

text \<open>
  The rounds of a thread, each a list of events that \<open>epoll_wait\<close> reports together with what the
  system calls return while they are handled.
\<close>

fun events_ok :: "config \<Rightarrow> (epoll_event \<times> outcome) list \<Rightarrow> thread \<Rightarrow> bool" where
  "events_ok cfg [] t = True"
| "events_ok cfg ((ev, os) # evs) t =
     (\<not> is_stale t ev \<and> outcome_ok cfg t ev os
     \<and> (case handle_event cfg ev os t of Inl _ \<Rightarrow> True | Inr t' \<Rightarrow> events_ok cfg evs t'))"

fun rounds_ok :: "config \<Rightarrow> (epoll_event \<times> outcome) list list \<Rightarrow> thread \<Rightarrow> bool" where
  "rounds_ok cfg [] t = True"
| "rounds_ok cfg (evs # rounds) t =
     (running t \<longrightarrow> armed_round t (map fst evs) \<and> events_ok cfg evs (deliver_all (map fst evs) t)
     \<and> (case wait_round cfg evs t of Inl _ \<Rightarrow> True | Inr t' \<Rightarrow> rounds_ok cfg rounds t'))"

definition keeps_or_empty :: "config \<Rightarrow> (epoll_event \<times> outcome) list \<Rightarrow> thread res \<Rightarrow> bool" where
  "keeps_or_empty cfg evs r \<longleftrightarrow>
     (case r of Inl e \<Rightarrow> e = OutOfBounds \<and> (\<exists>(ev, os) \<in> set evs. empty_read cfg ev os)
      | Inr t \<Rightarrow> thread_inv cfg t)"

lemma handle_events_inv:
  "thread_inv cfg t \<Longrightarrow> events_ok cfg evs t \<Longrightarrow> keeps_or_empty cfg evs (handle_events cfg evs t)"
proof (induction cfg evs t rule: events_ok.induct)
  case (2 cfg ev os evs t)
  from "2.prems" have "\<not> is_stale t ev" "outcome_ok cfg t ev os" by simp_all
  from handle_event_inv [OF "2.prems"(1) this] show ?case
  proof (elim disjE exE conjE)
    fix t' assume t': "handle_event cfg ev os t = Inr t'" "thread_inv cfg t'"
    from "2.IH" [OF t'] "2.prems"(2) t'(1) show ?thesis
      by (auto simp: keeps_or_empty_def split: sum.splits)
  qed (simp add: keeps_or_empty_def)
qed (simp add: keeps_or_empty_def)

lemma run_thread_inv:
  "thread_inv cfg t \<Longrightarrow> rounds_ok cfg rounds t \<Longrightarrow>
    keeps_or_empty cfg (concat rounds) (run_thread cfg rounds t)"
proof (induction cfg rounds t rule: rounds_ok.induct)
  case (2 cfg evs rounds t)
  show ?case
  proof (cases "running t")
    case True
    with "2.prems" have "keeps_or_empty cfg evs (wait_round cfg evs t)"
      unfolding wait_round_def by (intro handle_events_inv) (simp_all add: deliver_all_inv)
    with "2.IH" [OF True] "2.prems" True show ?thesis
      by (cases "wait_round cfg evs t") (auto simp: keeps_or_empty_def split: sum.splits)
  qed (use "2.prems" in \<open>simp add: keeps_or_empty_def\<close>)
qed (simp add: keeps_or_empty_def)

text \<open>
  C1. Through any rounds of events, as many in a round as the kernel reports, a thread keeps its
  invariant: timers and clients correspond one to one, no descriptor is lost or registered twice,
  every client is registered and open, the count of connections is the number of clients and
  never exceeds the maximum, and the listening socket is registered exactly while there is room.
  The only fault is to read an empty broadcast pipe.  Assumed (\<open>rounds_ok\<close>): an event that is
  handled is not stale; \<open>accept\<close> and \<open>timerfd_create\<close> return fresh descriptors; the timer of a
  connection can be made, set and registered; errors are reported for connections only.
\<close>

theorem server_thread_invariant:
  assumes "distinct (special_fds cfg)" "0 < max_connections cfg"
    "rounds_ok cfg rounds (start_thread cfg)"
  shows "(\<exists>t. run_thread cfg rounds (start_thread cfg) = Inr t \<and> thread_inv cfg t)
    \<or> run_thread cfg rounds (start_thread cfg) = Inl OutOfBounds
      \<and> (\<exists>evs \<in> set rounds. \<exists>(ev, os) \<in> set evs. ev_fd ev = broadcast_pipe0 cfg \<and> pipe_data os = None)"
  using run_thread_inv [OF start_thread_inv [OF assms(1,2)] assms(3)]
  by (fastforce simp: keeps_or_empty_def empty_read_def split: sum.splits)

definition sample_cfg :: config where
  "sample_cfg = \<lparr>server_fd = 3, timeout_epoll_fd = 4, broadcast_pipe0 = 5, max_connections = 2,
     has_on_connect = True, has_on_disconnect = True, on_read = (\<lambda>fd data. int (length data))\<rparr>"

definition sample_outcome :: outcome where
  "sample_outcome = \<lparr>timeouts = None, pipe_data = None, writes = (\<lambda>_. 1), try_lock = True,
     accepts = [], settime_ok = True, read_res = Read_would_block\<rparr>"

definition input_on :: "int \<Rightarrow> epoll_event" where
  "input_on fd = \<lparr>ev_fd = fd, ev_err = False, ev_hup = False, ev_in = True\<rparr>"

text \<open>
  Two connections; then one round with a broadcast, input and an expired timer of another
  client; then a hang-up.
\<close>

definition sample_rounds :: "(epoll_event \<times> outcome) list list" where
  "sample_rounds =
     [[(input_on 3, sample_outcome\<lparr>accepts := [Accepted 7 (Some ''1.2.3.4'') False True (Timer_set 8 True),
        Accepted 9 None False True (Timer_set 10 True)]\<rparr>)],
      [(input_on 5, sample_outcome\<lparr>pipe_data := Some ''all''\<rparr>),
       (input_on 7, sample_outcome\<lparr>read_res := Read_data ''hi''\<rparr>),
       (input_on 4, sample_outcome\<lparr>timeouts := Some [10]\<rparr>)],
      [((input_on 7)\<lparr>ev_hup := True\<rparr>, sample_outcome)]]"

lemma server_thread_invariant_witness:
  "\<exists>t. run_thread sample_cfg sample_rounds (start_thread sample_cfg) = Inr t \<and> thread_inv sample_cfg t"
proof -
  have "distinct (special_fds sample_cfg)" "0 < max_connections sample_cfg"
    "rounds_ok sample_cfg sample_rounds (start_thread sample_cfg)" by code_simp+
  from server_thread_invariant [OF this] show ?thesis
    by (auto simp: sample_rounds_def sample_cfg_def sample_outcome_def input_on_def)
qed

section \<open>The loop in small steps\<close>

text \<open>
  The same loop, one call after another: \<open>epoll_wait\<close> reports events, and each of them is handled
  in its turn.  The state is the thread with the events that are not handled yet.
\<close>

datatype loop_event = Wait "epoll_event list" | Handle outcome

type_synonym loop = "thread \<times> epoll_event list"

fun loop_step :: "config \<Rightarrow> loop \<Rightarrow> loop_event \<Rightarrow> loop res" where
  "loop_step cfg (t, pending) (Wait evs) = Inr (deliver_all evs t, evs)"
| "loop_step cfg (t, ev # pending) (Handle os) =
     bindR (handle_event cfg ev os t) (\<lambda>t'. Inr (t', pending))"
| "loop_step cfg (t, []) (Handle os) = Inr (t, [])"

definition server_step :: "config \<Rightarrow> loop res \<Rightarrow> loop_event \<Rightarrow> loop res" where
  "server_step cfg s e = bindR s (\<lambda>l. loop_step cfg l e)"

text \<open>\<open>epoll_wait\<close> is called when all events are handled; no stale event is.\<close>

fun loop_ok :: "config \<Rightarrow> loop \<Rightarrow> loop_event \<Rightarrow> bool" where
  "loop_ok cfg (t, pending) (Wait evs) \<longleftrightarrow> pending = [] \<and> running t \<and> armed_round t evs"
| "loop_ok cfg (t, ev # pending) (Handle os) \<longleftrightarrow> \<not> is_stale t ev \<and> outcome_ok cfg t ev os"
| "loop_ok cfg (t, []) (Handle os) \<longleftrightarrow> False"

definition server_admissible :: "config \<Rightarrow> loop res \<Rightarrow> loop_event \<Rightarrow> bool" where
  "server_admissible cfg s e = (case s of Inl _ \<Rightarrow> False | Inr l \<Rightarrow> loop_ok cfg l e)"

text \<open>A round of the loop is its steps.\<close>

lemma server_step_simps [simp]:
  "server_step cfg (Inl e) l = Inl e"
  "server_step cfg (Inr (t, pending)) (Wait evs) = Inr (deliver_all evs t, evs)"
  "server_step cfg (Inr (t, ev # pending)) (Handle os) =
    bindR (handle_event cfg ev os t) (\<lambda>t'. Inr (t', pending))"
  by (simp_all add: server_step_def)

lemma run_steps_fault: "run_steps (server_step cfg) (Inl e) es = Inl e"
  by (induction es) simp_all

lemma handle_events_steps:
  "run_steps (server_step cfg) (Inr (t, map fst evs)) (map (Handle \<circ> snd) evs) =
    bindR (handle_events cfg evs t) (\<lambda>t'. Inr (t', []))"
proof (induction cfg evs t rule: handle_events.induct)
  case (2 cfg ev os evs t)
  then show ?case
    by (cases "handle_event cfg ev os t") (simp_all add: run_steps_fault)
qed simp

lemma wait_round_steps:
  "run_steps (server_step cfg) (Inr (t, [])) (Wait (map fst evs) # map (Handle \<circ> snd) evs) =
    bindR (wait_round cfg evs t) (\<lambda>t'. Inr (t', []))"
  using handle_events_steps [of cfg "deliver_all (map fst evs) t" evs]
  by (simp add: wait_round_def)

section \<open>A thread that stops accepting\<close>

text \<open>
  \<open>deaf\<close>: the listening socket is registered, but not armed, and no event of it is left to be
  handled; or the thread has faulted.
\<close>

definition deaf :: "config \<Rightarrow> loop res \<Rightarrow> bool" where
  "deaf cfg s =
     (case s of
        Inl _ \<Rightarrow> True
      | Inr (t, pending) \<Rightarrow> thread_inv cfg t \<and> um_find (epoll t) (server_fd cfg) = Some False
          \<and> server_fd cfg \<notin> ev_fd ` set pending)"

text \<open>Handling an event of anything else leaves the registration of the socket as it is.\<close>

definition keeps_server :: "config \<Rightarrow> thread \<Rightarrow> thread \<Rightarrow> bool" where
  "keeps_server cfg t t' \<longleftrightarrow> um_find (epoll t') (server_fd cfg) = um_find (epoll t) (server_fd cfg)"

lemma um_find_epoll_mod: "fd \<noteq> s \<Longrightarrow> um_find (epoll_mod fd m) s = um_find m s"
  by (simp add: epoll_mod_def)

lemma special_not_client:
  "thread_inv cfg t \<Longrightarrow> fd \<in> set (special_fds cfg) \<Longrightarrow> \<not> is_client t fd \<and> \<not> is_timer t fd"
  by (auto simp: thread_inv_def core_def fds_ok_def)

lemma server_special: "server_fd cfg \<in> set (special_fds cfg)"
  by (simp add: special_fds_def)

lemma drop_client_keeps:
  assumes inv: "thread_inv cfg t" and c: "um_find (client_to_timer_map t) c = Some tm"
    and room: "num_connections t < max_connections cfg"
  shows "keeps_server cfg t (drop_client cfg c tm t)"
proof -
  have "is_client t c" "is_timer t tm"
    using c thread_inv_find [OF inv] by (auto simp: is_client_def is_timer_def um_find_count)
  then have "c \<noteq> server_fd cfg" "tm \<noteq> server_fd cfg"
    using special_not_client [OF inv server_special] by auto
  with room show ?thesis
    by (auto simp: keeps_server_def drop_client_def close_client_callback_def close_fd_def Let_def
        not_le)
qed

lemma armed_room:
  assumes "thread_inv cfg t" "um_find (epoll t) (server_fd cfg) = Some v"
  shows "num_connections t < max_connections cfg"
  using assms special_not_client [OF assms(1) server_special] um_find_count [OF assms(2)]
  by (auto simp: thread_inv_def core_def registered_ok_def fds_ok_def special_fds_def)

text \<open>
  Any event but an accept changes a thread by dropping clients, arming registrations and sending:
  a relation that holds for these holds for the event.
\<close>

lemma fold_send_rel:
  assumes "\<And>t. R t t" "\<And>t u v. R t u \<Longrightarrow> R u v \<Longrightarrow> R t v"
    "\<And>t fd. R t (snd (send_raw fd p (wr fd) t))"
  shows "R t (fold (\<lambda>(fd, _) t. snd (send_raw fd p (wr fd) t)) m t)"
  using assms by (induction m arbitrary: t) (auto, blast)

lemma fold_timeout_rel:
  assumes refl: "\<And>t. R t t" and trans: "\<And>t u v. R t u \<Longrightarrow> R u v \<Longrightarrow> R t v"
    and drop: "\<And>t c tm. thread_inv cfg t \<Longrightarrow> um_find (client_to_timer_map t) c = Some tm \<Longrightarrow>
      R t (drop_client cfg c tm t)"
    and "thread_inv cfg t" "distinct tms" "\<forall>tm \<in> set tms. is_timer t tm"
  shows "R t (fold (handle_timeout cfg) tms t)"
  using assms(4-6)
proof (induction tms arbitrary: t)
  case (Cons tm tms)
  then obtain c where tm: "um_find (timer_to_client_map t) tm = Some c"
    using is_timer_obtain [of t tm] by auto
  have c: "um_find (client_to_timer_map t) c = Some tm"
    using thread_inv_find [OF Cons.prems(1)] tm by simp
  let ?t = "drop_client cfg c tm t"
  have "\<forall>tm' \<in> set tms. is_timer ?t tm'"
    using Cons.prems by (auto simp: is_timer_def drop_client_fields)
  then have "R ?t (fold (handle_timeout cfg) tms ?t)"
    using Cons.IH [OF drop_client_inv [OF Cons.prems(1) c]] Cons.prems(2) by simp
  with trans [OF drop [OF Cons.prems(1) c]] show ?case
    by (simp add: handle_timeout_drop [OF Cons.prems(1) tm])
qed (simp add: refl)

lemma handle_event_rel:
  assumes refl: "\<And>t. R t t" and trans: "\<And>t u v. R t u \<Longrightarrow> R u v \<Longrightarrow> R t v"
    and drop: "\<And>t c tm. thread_inv cfg t \<Longrightarrow> um_find (client_to_timer_map t) c = Some tm \<Longrightarrow>
      R t (drop_client cfg c tm t)"
    and arm: "\<And>t. R t (t\<lparr>epoll := epoll_mod (ev_fd ev) (epoll t)\<rparr>)"
    and send: "\<And>t fd p k. R t (snd (send_raw fd p k t))"
    and inv: "thread_inv cfg t" and fresh: "\<not> is_stale t ev" and ok: "outcome_ok cfg t ev os"
    and ne: "ev_fd ev \<noteq> server_fd cfg"
    and t': "handle_event cfg ev os t = Inr t'"
  shows "R t t'"
proof -
  have reg: "is_client t (ev_fd ev) \<or> ev_fd ev = timeout_epoll_fd cfg
      \<or> ev_fd ev = broadcast_pipe0 cfg"
    using registered_kinds [OF inv fresh] ne by blast
  show ?thesis
  proof (cases "ev_err ev \<or> ev_hup ev \<or> \<not> ev_in ev")
    case True
    then have "is_client t (ev_fd ev)" using ok reg by (auto simp: outcome_ok_def special_fds_def)
    then obtain tm where tm: "um_find (client_to_timer_map t) (ev_fd ev) = Some tm"
      using is_client_obtain by blast
    have "t' = drop_client cfg (ev_fd ev) tm t"
      using True t' tm
      by (simp add: handle_event_def handle_error_def drop_client_def close_client_def Let_def)
    with drop [OF inv tm] show ?thesis by simp
  next
    case False
    show ?thesis
    proof (cases "ev_fd ev = timeout_epoll_fd cfg")
      case True
      show ?thesis
      proof (cases "timeouts os")
        case None
        with True False t' refl show ?thesis by (auto simp: handle_event_def handle_timeouts_def)
      next
        case (Some tms)
        let ?u = "fold (handle_timeout cfg) tms t"
        from Some True ok have tms: "distinct tms" "\<forall>tm \<in> set tms. is_timer t tm"
          by (simp_all add: outcome_ok_def registered_timers [OF inv])
        have "R t ?u"
          by (rule fold_timeout_rel [where R = R]) (fact refl, fact trans, fact drop, fact inv, fact tms, fact tms)
        from trans [OF this arm]
        have "R t (?u\<lparr>epoll := epoll_mod (ev_fd ev) (epoll ?u)\<rparr>)" .
        with True False t' Some show ?thesis
          by (simp add: handle_event_def handle_timeouts_def Let_def)
      qed
    next
      case nt: False
      show ?thesis
      proof (cases "ev_fd ev = broadcast_pipe0 cfg")
        case True
        with nt False t' obtain p where p: "handle_broadcast cfg (Some p) (writes os) t = Inr t'"
          by (auto simp: handle_event_def handle_broadcast_def split: option.splits)
        let ?u = "fold (\<lambda>(fd, _) t. snd (send_raw fd p (writes os fd) t))
          (client_to_timer_map t) t"
        have "R t ?u" by (rule fold_send_rel [where R = R]) (fact refl, fact trans, fact send)
        from trans [OF this arm]
        have "R t (?u\<lparr>epoll := epoll_mod (ev_fd ev) (epoll ?u)\<rparr>)" .
        with p True show ?thesis by (simp add: handle_broadcast_def Let_def)
      next
        case nb: False
        with reg nt obtain tm where tm: "um_find (client_to_timer_map t) (ev_fd ev) = Some tm"
          using is_client_obtain by blast
        have "t' \<in> {t, drop_client cfg (ev_fd ev) tm t,
            t\<lparr>epoll := epoll_mod (ev_fd ev) (epoll t)\<rparr>}"
          using t' False nt nb ne
            handle_client_cases [OF tm, of cfg "settime_ok os" "read_res os"]
          by (simp add: handle_event_def)
        with refl arm drop [OF inv tm] show ?thesis by auto
      qed
    qed
  qed
qed

lemma handle_event_keeps:
  assumes inv: "thread_inv cfg t" and fresh: "\<not> is_stale t ev" and ok: "outcome_ok cfg t ev os"
    and s: "um_find (epoll t) (server_fd cfg) = Some False" and ne: "ev_fd ev \<noteq> server_fd cfg"
    and t': "handle_event cfg ev os t = Inr t'"
  shows "um_find (epoll t') (server_fd cfg) = Some False"
proof -
  have room: "num_connections t < max_connections cfg" using armed_room [OF inv s] .
  define R where "R t u \<longleftrightarrow> (num_connections t < max_connections cfg \<longrightarrow>
    keeps_server cfg t u \<and> num_connections u < max_connections cfg)" for t u
  have drop: "R t (drop_client cfg c tm t)"
    if "thread_inv cfg t" "um_find (client_to_timer_map t) c = Some tm" for t c tm
  proof -
    have "num_connections (drop_client cfg c tm t) < max_connections cfg"
      using drop_client_core(2) [OF _ that(2) refl] that(1) unfolding thread_inv_def by blast
    with drop_client_keeps [OF that] show ?thesis by (simp add: R_def)
  qed
  have "R t t'"
  proof (rule handle_event_rel [OF _ _ _ _ _ inv fresh ok ne t'])
    show "R t v" if "R t u" "R u v" for t u v using that by (auto simp: R_def keeps_server_def)
  qed (use drop ne in \<open>auto simp: R_def keeps_server_def send_raw_def Let_def um_find_epoll_mod\<close>)
  with s room show ?thesis by (simp add: R_def keeps_server_def)
qed

lemma armed_round_not: "armed_round t evs \<Longrightarrow> um_find (epoll t) fd = Some False \<Longrightarrow> fd \<notin> ev_fd ` set evs"
  by (auto simp: armed_round_def)

interpretation deaf_server: event_machine "server_step cfg" "deaf cfg" "server_admissible cfg"
  for cfg
proof
  fix s e
  assume deaf: "deaf cfg s" and adm: "server_admissible cfg s e"
  then obtain t pending where s: "s = Inr (t, pending)" and inv: "thread_inv cfg t"
    and d: "um_find (epoll t) (server_fd cfg) = Some False" "server_fd cfg \<notin> ev_fd ` set pending"
    by (cases s) (auto simp: deaf_def server_admissible_def)
  show "deaf cfg (server_step cfg s e)"
  proof (cases e)
    case (Wait evs)
    with adm s have "armed_round t evs" by (simp add: server_admissible_def)
    with armed_round_not [OF this d(1)] inv d(1) s Wait show ?thesis
      by (simp add: server_step_def deaf_def deliver_all_inv deliver_all_epoll)
  next
    case (Handle os)
    with adm s obtain ev rest where p: "pending = ev # rest"
      and ok: "\<not> is_stale t ev" "outcome_ok cfg t ev os"
      by (cases pending) (auto simp: server_admissible_def)
    have ne: "ev_fd ev \<noteq> server_fd cfg" using d(2) p by auto
    show ?thesis
    proof (cases "handle_event cfg ev os t")
      case (Inr t')
      then show ?thesis
        using handle_event_inv [OF inv ok] handle_event_keeps [OF inv ok d(1) ne Inr] d(2) s p Handle
        by (simp add: server_step_def deaf_def)
    qed (simp add: server_step_def deaf_def s p Handle)
  qed
qed

text \<open>
  A thread that loses the race for \<open>accept_mutex\<close> while it has room never accepts a
  connection again: the one-shot registration of the listening socket stays disarmed, whatever
  the kernel reports afterwards, in whatever rounds.
\<close>

theorem lost_race_is_deaf_forever:
  assumes "thread_inv cfg t" "um_find (epoll t) (server_fd cfg) = Some False"
    "ev_fd ev = server_fd cfg" "ev_fd ev \<notin> ev_fd ` set pending"
    "outcome_ok cfg t ev os" "\<not> try_lock os"
    "admissible_run (server_step cfg) (server_admissible cfg)
       (server_step cfg (Inr (t, ev # pending)) (Handle os)) steps"
    "run_steps (server_step cfg) (server_step cfg (Inr (t, ev # pending)) (Handle os)) steps =
       Inr (t', pending')"
  shows "um_find (epoll t') (server_fd cfg) = Some False"
proof -
  have sp: "server_fd cfg \<noteq> timeout_epoll_fd cfg" "server_fd cfg \<noteq> broadcast_pipe0 cfg"
    using assms(1) by (auto simp: thread_inv_def core_def fds_ok_def special_fds_def)
  have "\<not> (ev_err ev \<or> ev_hup ev \<or> \<not> ev_in ev)"
    using assms(3,5) server_special [of cfg] by (auto simp: outcome_ok_def)
  then have "deaf cfg (server_step cfg (Inr (t, ev # pending)) (Handle os))"
    using assms(1-4,6) sp
    by (simp add: deaf_def server_step_def handle_event_def handle_server_def)
  from deaf_server.run_inv [OF this assms(7)] show ?thesis
    by (simp add: deaf_def assms(8) del: server_step_simps)
qed

lemma lost_race_is_deaf_forever_witness:
  "um_find (epoll (deliver 3 (start_thread sample_cfg))) 3 = Some False"
proof -
  let ?t = "deliver 3 (start_thread sample_cfg)"
  let ?os = "sample_outcome\<lparr>try_lock := False\<rparr>"
  have "thread_inv sample_cfg ?t"
    unfolding deliver_inv by (rule start_thread_inv) code_simp+
  moreover have "um_find (epoll ?t) (server_fd sample_cfg) = Some False"
    "ev_fd (input_on 3) = server_fd sample_cfg" "outcome_ok sample_cfg ?t (input_on 3) ?os"
    by code_simp+
  moreover have "server_step sample_cfg (Inr (?t, [input_on 3])) (Handle ?os) = Inr (?t, [])"
    by (simp add: server_step_def handle_event_def handle_server_def input_on_def sample_cfg_def
        sample_outcome_def)
  ultimately show ?thesis
    using lost_race_is_deaf_forever [of sample_cfg ?t "input_on 3" "[]" ?os "[]" ?t "[]"]
    by (simp add: sample_cfg_def sample_outcome_def)
qed

text \<open>
  A stale event enters a closed descriptor into the table again: when a timer and the input of
  its client are reported together, the client is dropped, and the handler of the input then
  makes an entry for it, with timer 0.
\<close>

theorem stale_event_revives_client:
  assumes "thread_inv cfg t" "timeouts os1 = Some [tm]" "um_find (timer_to_client_map t) tm = Some c"
    "\<not> settime_ok os2"
  shows "\<exists>t'. wait_round cfg [(input_on (timeout_epoll_fd cfg), os1), (input_on c, os2)] t = Inr t'
    \<and> c \<notin> set (open_fds t') \<and> um_find (client_to_timer_map t') c = Some 0"
proof -
  let ?t = "deliver c (deliver (timeout_epoll_fd cfg) t)"
  have inv: "thread_inv cfg ?t" using assms(1) by (simp add: deliver_inv)
  have tm: "um_find (timer_to_client_map ?t) tm = Some c" using assms(3) by simp
  then have c: "um_find (client_to_timer_map ?t) c = Some tm" using thread_inv_find [OF inv] by simp
  let ?d = "drop_client cfg c tm ?t"
  have cl: "is_client ?t c" "is_timer ?t tm"
    using um_find_count [OF c] um_find_count [OF tm] by (simp_all add: is_client_def is_timer_def)
  then have "c \<in> set (open_fds ?t)" "tm \<in> set (open_fds ?t)" "c \<noteq> tm" "c \<notin> set (special_fds cfg)"
    using inv by (auto simp: thread_inv_def core_def fds_ok_def)
  then have d: "c \<notin> set (open_fds ?d)" "um_find (client_to_timer_map ?d) c = None"
      "c \<noteq> timeout_epoll_fd cfg" "c \<noteq> broadcast_pipe0 cfg" "c \<noteq> server_fd cfg"
    using drop_client_fds(1) [of c ?t tm cfg] by (simp_all add: drop_client_fields special_fds_def)
  show ?thesis
    using assms(2,4) d handle_timeout_drop [OF inv tm]
    by (simp add: wait_round_def deliver_all_def handle_event_def input_on_def handle_timeouts_def
        Let_def handle_client_def um_index_def)
qed

lemma stale_event_revives_client_witness:
  "\<exists>t t'. wait_round sample_cfg [(input_on 4, sample_outcome\<lparr>timeouts := Some [8]\<rparr>),
      (input_on 7, sample_outcome\<lparr>settime_ok := False\<rparr>)] t = Inr t'
    \<and> 7 \<notin> set (open_fds t') \<and> um_find (client_to_timer_map t') 7 = Some 0"
proof -
  let ?os = "sample_outcome\<lparr>accepts := [Accepted 7 (Some ''1.2.3.4'') False True (Timer_set 8 True)]\<rparr>"
  let ?t = "handle_server sample_cfg True (accepts ?os) (start_thread sample_cfg)"
  have "thread_inv sample_cfg (start_thread sample_cfg)"
    by (rule start_thread_inv) code_simp+
  moreover have "accepts_ok (open_fds (start_thread sample_cfg)) (accepts ?os)" by code_simp
  moreover have "num_connections (start_thread sample_cfg) < max_connections sample_cfg" by code_simp
  ultimately have "thread_inv sample_cfg ?t" by (blast intro: handle_server_inv)
  moreover have "um_find (timer_to_client_map ?t) 8 = Some 7" by code_simp
  ultimately have "\<exists>t'. wait_round sample_cfg [(input_on (timeout_epoll_fd sample_cfg),
      sample_outcome\<lparr>timeouts := Some [8]\<rparr>), (input_on 7, sample_outcome\<lparr>settime_ok := False\<rparr>)] ?t
      = Inr t' \<and> 7 \<notin> set (open_fds t') \<and> um_find (client_to_timer_map t') 7 = Some 0"
    using stale_event_revives_client [of sample_cfg ?t "sample_outcome\<lparr>timeouts := Some [8]\<rparr>" 8 7
        "sample_outcome\<lparr>settime_ok := False\<rparr>"] by simp
  then show ?thesis by (auto simp: sample_cfg_def)
qed

end
