(* ===== verification/Threads.thy ===== *)
theory Threads
  imports EpollServer
begin

text \<open>
  The threads of one server (\<open>EpollServer::run\<close> and \<open>run_thread\<close> of \<open>cpp-source/tcp-server.cpp\<close>)
  interleaved.  They share the listening socket, the broadcast pipe, the flag \<open>running\<close> and
  \<open>accept_mutex\<close>; each has its own epoll set, its own set of timers, the connections that it
  accepted, and the events that \<open>epoll_wait\<close> reported to it and that it has not handled yet.
  Descriptors are only opened while the mutex is held, so that the whole accept loop is one step,
  taken when the mutex is released: a descriptor that another thread closes meanwhile was closed
  before.
\<close>

section \<open>The system\<close>

text \<open>
  The pipe is opened with \<open>O_DIRECT\<close> and \<open>O_NONBLOCK\<close>: it holds packets, a read takes one of them,
  and returns nothing when there is none.  \<open>serving\<close> is the member \<open>running\<close> of the server.
\<close>

record system =
  local :: "nat \<Rightarrow> thread"
  pending :: "nat \<Rightarrow> epoll_event list"
  accept_mutex :: "nat option"
  serving :: bool
  pipe :: "string list"

definition set_thread :: "nat \<Rightarrow> thread \<Rightarrow> epoll_event list \<Rightarrow> system \<Rightarrow> system" where
  "set_thread i t evs s = s\<lparr>local := (local s)(i := t), pending := (pending s)(i := evs)\<rparr>"

definition start_system :: "(nat \<Rightarrow> config) \<Rightarrow> system" where
  "start_system cfgs =
     \<lparr>local = (\<lambda>i. start_thread (cfgs i)), pending = (\<lambda>_. []), accept_mutex = None, serving = True,
      pipe = []\<rparr>"

text \<open>All descriptors that are open, for the kernel to hand out others.\<close>

definition all_open :: "nat \<Rightarrow> system \<Rightarrow> int list" where
  "all_open n s = concat (map (\<lambda>i. open_fds (local s i)) [0..<n])"

definition pipe_read :: "system \<Rightarrow> string option" where
  "pipe_read s = (case pipe s of [] \<Rightarrow> None | packet # _ \<Rightarrow> Some packet)"

definition pipe_left :: "config \<Rightarrow> epoll_event \<Rightarrow> system \<Rightarrow> string list" where
  "pipe_left cfg ev s = (if ev_fd ev = broadcast_pipe0 cfg then tl (pipe s) else pipe s)"

definition is_input :: "epoll_event \<Rightarrow> bool" where
  "is_input ev \<longleftrightarrow> ev_in ev \<and> \<not> ev_err ev \<and> \<not> ev_hup ev"

text \<open>
  A thread with nothing left to handle waits, while the server is running, for a round of events;
  then it handles one after another.  On an event of the listening socket it takes the mutex and
  accepts later, or finds it taken and goes on; any other event it handles alone.  A handler that
  faults has no step.
\<close>

inductive sys_step :: "(nat \<Rightarrow> config) \<Rightarrow> nat \<Rightarrow> system \<Rightarrow> system \<Rightarrow> bool"
  for cfgs :: "nat \<Rightarrow> config" and n :: nat where
  wait: "i < n \<Longrightarrow> serving s \<Longrightarrow> pending s i = [] \<Longrightarrow> armed_round (local s i) evs \<Longrightarrow>
    sys_step cfgs n s (set_thread i (deliver_all evs (local s i)) evs s)"
| fail: "i < n \<Longrightarrow> serving s \<Longrightarrow> pending s i = [] \<Longrightarrow> sys_step cfgs n s (s\<lparr>serving := False\<rparr>)"
| broadcast: "packet \<noteq> [] \<Longrightarrow> sys_step cfgs n s (s\<lparr>pipe := pipe s @ [packet]\<rparr>)"
| lock: "i < n \<Longrightarrow> accept_mutex s = None \<Longrightarrow> pending s i = ev # evs \<Longrightarrow> is_input ev \<Longrightarrow>
    ev_fd ev = server_fd (cfgs i) \<Longrightarrow> sys_step cfgs n s (s\<lparr>accept_mutex := Some i\<rparr>)"
| accept: "i < n \<Longrightarrow> accept_mutex s = Some i \<Longrightarrow> pending s i = ev # evs \<Longrightarrow>
    accepts_ok (all_open n s) results \<Longrightarrow> t = handle_server (cfgs i) True results (local s i) \<Longrightarrow>
    sys_step cfgs n s
      ((set_thread i t evs s)\<lparr>accept_mutex := None, serving := serving s \<and> running t\<rparr>)"
| lose: "i < n \<Longrightarrow> accept_mutex s = Some j \<Longrightarrow> j \<noteq> i \<Longrightarrow> pending s i = ev # evs \<Longrightarrow> is_input ev \<Longrightarrow>
    ev_fd ev = server_fd (cfgs i) \<Longrightarrow>
    sys_step cfgs n s (set_thread i (handle_server (cfgs i) False [] (local s i)) evs s)"
| other: "i < n \<Longrightarrow> accept_mutex s \<noteq> Some i \<Longrightarrow> pending s i = ev # evs \<Longrightarrow>
    ev_fd ev \<noteq> server_fd (cfgs i) \<Longrightarrow> outcome_ok (cfgs i) (local s i) ev os \<Longrightarrow>
    (ev_fd ev = broadcast_pipe0 (cfgs i) \<longrightarrow> pipe_data os = pipe_read s) \<Longrightarrow>
    handle_event (cfgs i) ev os (local s i) = Inr t \<Longrightarrow>
    sys_step cfgs n s ((set_thread i t evs s)\<lparr>pipe := pipe_left (cfgs i) ev s\<rparr>)"

inductive steps_to :: "(nat \<Rightarrow> config) \<Rightarrow> nat \<Rightarrow> system \<Rightarrow> system \<Rightarrow> bool"
  for cfgs :: "nat \<Rightarrow> config" and n :: nat and s :: system where
  here: "steps_to cfgs n s s"
| further: "steps_to cfgs n s s' \<Longrightarrow> sys_step cfgs n s' s'' \<Longrightarrow> steps_to cfgs n s s''"

text \<open>
  The runs in which no thread handles a stale event, one whose connection the thread itself
  closed after the event was reported.
\<close>

definition handles_stale :: "nat \<Rightarrow> system \<Rightarrow> system \<Rightarrow> bool" where
  "handles_stale n s s' \<longleftrightarrow>
     (\<exists>i < n. \<exists>ev. pending s i = ev # pending s' i \<and> is_stale (local s i) ev)"

inductive fresh_to :: "(nat \<Rightarrow> config) \<Rightarrow> nat \<Rightarrow> system \<Rightarrow> system \<Rightarrow> bool"
  for cfgs :: "nat \<Rightarrow> config" and n :: nat and s :: system where
  here: "fresh_to cfgs n s s"
| further: "fresh_to cfgs n s s' \<Longrightarrow> sys_step cfgs n s' s'' \<Longrightarrow> \<not> handles_stale n s' s'' \<Longrightarrow>
    fresh_to cfgs n s s''"


text \<open>How the threads of one server are set up.\<close>

definition one_server :: "(nat \<Rightarrow> config) \<Rightarrow> nat \<Rightarrow> bool" where
  "one_server cfgs n \<longleftrightarrow>
     (\<forall>i < n. distinct (special_fds (cfgs i)) \<and> 0 < max_connections (cfgs i)
       \<and> server_fd (cfgs i) = server_fd (cfgs 0)
       \<and> broadcast_pipe0 (cfgs i) = broadcast_pipe0 (cfgs 0))
     \<and> (\<forall>i < n. \<forall>j < n. i \<noteq> j \<longrightarrow> timeout_epoll_fd (cfgs i) \<noteq> timeout_epoll_fd (cfgs j))"

lemma one_server_thread:
  assumes "one_server cfgs n" "i < n"
  shows "distinct (special_fds (cfgs i))" "0 < max_connections (cfgs i)"
    "broadcast_pipe0 (cfgs i) = broadcast_pipe0 (cfgs 0)"
  using assms unfolding one_server_def by blast+

definition own :: "config \<Rightarrow> thread \<Rightarrow> int set" where
  "own cfg t = set (open_fds t) - {server_fd cfg, broadcast_pipe0 cfg}"

section \<open>What one event can do\<close>

text \<open>It opens no descriptor and adds no client.\<close>

definition shrinks :: "thread \<Rightarrow> thread \<Rightarrow> bool" where
  "shrinks t u \<longleftrightarrow> set (open_fds u) \<subseteq> set (open_fds t) \<and> (\<forall>c. is_client u c \<longrightarrow> is_client t c)"

lemma drop_client_shrinks: "shrinks t (drop_client cfg c tm t)"
  by (auto simp: shrinks_def is_client_def drop_client_fields)
    (auto simp: drop_client_def close_client_callback_def close_fd_def Let_def split: if_splits)

lemma handle_event_shrinks:
  assumes "thread_inv cfg t" "\<not> is_stale t ev" "outcome_ok cfg t ev os"
    "ev_fd ev \<noteq> server_fd cfg" "handle_event cfg ev os t = Inr t'"
  shows "shrinks t t'"
  by (rule handle_event_rel [where R = shrinks, OF _ _ _ _ _ assms])
    (auto simp: drop_client_shrinks, auto simp: shrinks_def is_client_def send_raw_def Let_def)

lemma accept_loop_fresh:
  "accepts_ok fds results \<Longrightarrow> x \<in> set (open_fds (accept_loop cfg results t)) \<Longrightarrow>
    x \<in> set (open_fds t) \<or> x \<notin> set fds"
proof (induction cfg results t arbitrary: fds rule: accept_loop.induct)
  case (2 cfg a as t)
  show ?case
  proof (cases "num_connections t < max_connections cfg")
    case room: True
    show ?thesis
    proof (cases a)
      case (Accepted fd details cont added timer)
      show ?thesis
      proof (cases "cont \<or> \<not> added")
        case True
        with room Accepted "2.prems" show ?thesis
          by (auto simp: close_client_def close_only_def close_fd_def Let_def)
      next
        case False
        with "2.prems" Accepted obtain tm where timer: "timer = Timer_set tm True"
            and tm: "tm \<notin> set fds" "fd \<notin> set fds" and rest: "accepts_ok (tm # fd # fds) as"
          by (cases timer) auto
        let ?t = "t\<lparr>open_fds := fd # open_fds t, fd_to_details_map :=
          um_set fd (case details of Some d \<Rightarrow> d | None \<Rightarrow> ''NULL'') (fd_to_details_map t)\<rparr>"
        have x: "x \<in> set (open_fds (accept_loop cfg as (connected cfg fd timer ?t)))"
          using "2.prems"(2) room Accepted False by simp
        from "2.IH" [OF room Accepted refl _ rest x] False
        have "x \<in> set (open_fds (connected cfg fd timer ?t)) \<or> x \<notin> set (tm # fd # fds)" by blast
        moreover have "open_fds (connected cfg fd timer ?t) = tm # fd # open_fds t"
          by (simp add: connected_def start_timer_def timer Let_def)
        ultimately show ?thesis using tm by auto
      qed
    qed (use room "2.prems" in auto)
  qed (use "2.prems" in auto)
qed simp

lemma accepts_ok_mono: "accepts_ok fds results \<Longrightarrow> set fds' \<subseteq> set fds \<Longrightarrow> accepts_ok fds' results"
proof (induction fds results arbitrary: fds' rule: accepts_ok.induct)
  case (2 fds fd details cont added timer as)
  show ?case
  proof (cases "cont \<or> \<not> added")
    case True
    with 2 show ?thesis by auto
  next
    case False
    with "2.prems"(1) obtain tm where timer: "timer = Timer_set tm True"
        and tm: "fd \<notin> set fds" "tm \<notin> set fds" "tm \<noteq> fd" "accepts_ok (tm # fd # fds) as"
      by (cases timer) auto
    have "set (tm # fd # fds') \<subseteq> set (tm # fd # fds)" using "2.prems"(2) by auto
    from "2.IH" [OF timer tm(4) this] have "accepts_ok (tm # fd # fds') as" .
    with timer tm False "2.prems"(2) show ?thesis by auto
  qed
qed auto

section \<open>The invariant of the system\<close>

text \<open>A thread of the system, with the events left to it and whether it holds the mutex.\<close>

definition part_ok :: "config \<Rightarrow> thread \<Rightarrow> epoll_event list \<Rightarrow> bool \<Rightarrow> bool" where
  "part_ok cfg t evs holds \<longleftrightarrow> thread_inv cfg t \<and> distinct (map ev_fd evs)
     \<and> (server_fd cfg \<in> ev_fd ` set evs \<longrightarrow> um_find (epoll t) (server_fd cfg) = Some False)
     \<and> (holds \<longrightarrow> evs \<noteq> [] \<and> ev_fd (hd evs) = server_fd cfg)"

definition apart :: "(nat \<Rightarrow> config) \<Rightarrow> nat \<Rightarrow> system \<Rightarrow> bool" where
  "apart cfgs n s \<longleftrightarrow>
     (\<forall>i < n. \<forall>j < n. i \<noteq> j \<longrightarrow> own (cfgs i) (local s i) \<inter> own (cfgs j) (local s j) = {})"

definition sys_inv :: "(nat \<Rightarrow> config) \<Rightarrow> nat \<Rightarrow> system \<Rightarrow> bool" where
  "sys_inv cfgs n s \<longleftrightarrow>
     (\<forall>i < n. part_ok (cfgs i) (local s i) (pending s i) (accept_mutex s = Some i))
     \<and> apart cfgs n s \<and> (\<forall>i. accept_mutex s = Some i \<longrightarrow> i < n)"

lemma set_thread_simps [simp]:
  "local (set_thread i t evs s) j = (if j = i then t else local s j)"
  "pending (set_thread i t evs s) j = (if j = i then evs else pending s j)"
  "accept_mutex (set_thread i t evs s) = accept_mutex s"
  "serving (set_thread i t evs s) = serving s" "pipe (set_thread i t evs s) = pipe s"
  by (simp_all add: set_thread_def)

lemma start_inv:
  assumes "one_server cfgs n"
  shows "sys_inv cfgs n (start_system cfgs)"
proof -
  have own: "own (cfgs i) (start_thread (cfgs i)) \<subseteq> {timeout_epoll_fd (cfgs i)}" for i
    by (auto simp: own_def start_thread_def)
  have ne: "timeout_epoll_fd (cfgs i) \<noteq> timeout_epoll_fd (cfgs j)"
    if "i < n" "j < n" "i \<noteq> j" for i j
    using assms that by (simp add: one_server_def)
  have "own (cfgs i) (start_thread (cfgs i)) \<inter> own (cfgs j) (start_thread (cfgs j)) = {}"
    if "i < n" "j < n" "i \<noteq> j" for i j
    using own [of i] own [of j] ne [OF that] by auto
  moreover have "thread_inv (cfgs i) (start_thread (cfgs i))" if "i < n" for i
    using one_server_thread [OF assms that] by (intro start_thread_inv)
  ultimately show ?thesis by (simp add: sys_inv_def apart_def part_ok_def start_system_def)
qed

text \<open>A step replaces one thread by one that keeps the invariant and stays out of the others.\<close>

lemma sys_inv_thread:
  assumes inv: "sys_inv cfgs n s" and i: "i < n"
    and same: "\<And>j. j \<noteq> i \<Longrightarrow> local s' j = local s j \<and> pending s' j = pending s j"
    and mutex: "accept_mutex s' = accept_mutex s \<or> accept_mutex s' = None
      \<or> accept_mutex s' = Some i"
    and part: "part_ok (cfgs i) (local s' i) (pending s' i) (accept_mutex s' = Some i)"
    and own: "\<And>j x. j < n \<Longrightarrow> j \<noteq> i \<Longrightarrow> x \<in> own (cfgs i) (local s' i) \<Longrightarrow>
      x \<notin> own (cfgs j) (local s j)"
  shows "sys_inv cfgs n s'"
proof -
  have "own (cfgs a) (local s' a) \<inter> own (cfgs b) (local s' b) = {}"
    if "a < n" "b < n" "a \<noteq> b" for a b
  proof -
    have "own (cfgs a) (local s a) \<inter> own (cfgs b) (local s b) = {}"
      using inv that by (simp add: sys_inv_def apart_def)
    with that own [of a] own [of b] same [of a] same [of b] show ?thesis
      by (cases "a = i"; cases "b = i") auto
  qed
  moreover have "part_ok (cfgs a) (local s' a) (pending s' a) (accept_mutex s' = Some a)"
    if "a < n" for a
  proof (cases "a = i")
    case False
    have "part_ok (cfgs a) (local s a) (pending s a) (accept_mutex s = Some a)"
      using inv that by (simp add: sys_inv_def)
    with same [OF False] mutex False show ?thesis by (auto simp: part_ok_def)
  qed (use part in simp)
  moreover have "a < n" if "accept_mutex s' = Some a" for a
    using mutex that i inv by (auto simp: sys_inv_def)
  ultimately show ?thesis unfolding sys_inv_def apart_def by blast
qed

lemma own_apart:
  "sys_inv cfgs n s \<Longrightarrow> i < n \<Longrightarrow> j < n \<Longrightarrow> j \<noteq> i \<Longrightarrow> x \<in> own (cfgs i) (local s i) \<Longrightarrow>
    x \<notin> own (cfgs j) (local s j)"
  by (auto simp: sys_inv_def apart_def)

lemma own_shrinks:
  assumes "sys_inv cfgs n s" "i < n" "j < n" "j \<noteq> i" "set (open_fds t) \<subseteq> set (open_fds (local s i))"
    "x \<in> own (cfgs i) t"
  shows "x \<notin> own (cfgs j) (local s j)"
  using own_apart [OF assms(1-4)] assms(5,6) by (auto simp: own_def)

lemma own_deliver_all: "own cfg (deliver_all evs t) = own cfg t"
  by (simp add: own_def)

lemma part_of: "sys_inv cfgs n s \<Longrightarrow> i < n \<Longrightarrow>
    part_ok (cfgs i) (local s i) (pending s i) (accept_mutex s = Some i)"
  by (simp add: sys_inv_def)

lemma part_inv: "part_ok cfg t evs h \<Longrightarrow> thread_inv cfg t"
  by (simp add: part_ok_def)

lemma wait_part:
  assumes "part_ok cfg t [] h" "armed_round t evs"
  shows "part_ok cfg (deliver_all evs t) evs h"
  using assms by (auto simp: part_ok_def deliver_all_inv deliver_all_epoll armed_round_def)

text \<open>The thread that accepts has room, and what it opens belongs to no thread.\<close>

lemma accept_part:
  assumes part: "part_ok cfg t (ev # evs) True" and ok: "accepts_ok (open_fds t) results"
  shows "part_ok cfg (handle_server cfg True results t) evs False"
    and "num_connections t < max_connections cfg"
proof -
  have d: "um_find (epoll t) (server_fd cfg) = Some False" "server_fd cfg \<notin> ev_fd ` set evs"
    using part by (auto simp: part_ok_def)
  show room: "num_connections t < max_connections cfg"
    using armed_room [OF part_inv [OF part] d(1)] .
  have "thread_inv cfg (handle_server cfg True results t)"
    using handle_server_inv [OF part_inv [OF part] ok] room by blast
  with part d(2) show "part_ok cfg (handle_server cfg True results t) evs False"
    by (simp add: part_ok_def)
qed

lemma handle_server_opens:
  assumes "accepts_ok fds results" "x \<in> own cfg (handle_server cfg True results t)"
  shows "x \<in> own cfg t \<or> x \<notin> set fds"
proof -
  have "x \<in> set (open_fds (accept_loop cfg results t))"
    using assms(2) by (auto simp: own_def handle_server_def Let_def split: if_splits)
  from accept_loop_fresh [OF assms(1) this] show ?thesis using assms(2) by (auto simp: own_def)
qed

lemma other_part:
  assumes part: "part_ok cfg t (ev # evs) False" and fresh: "\<not> is_stale t ev"
    and ok: "outcome_ok cfg t ev os" and ne: "ev_fd ev \<noteq> server_fd cfg"
    and t': "handle_event cfg ev os t = Inr t'"
  shows "part_ok cfg t' evs False"
proof -
  note inv = part_inv [OF part]
  have "thread_inv cfg t'" using handle_event_inv [OF inv fresh ok] t' by simp
  with part handle_event_keeps [OF inv fresh ok _ ne t'] show ?thesis by (auto simp: part_ok_def)
qed

lemma open_sub: "j < n \<Longrightarrow> set (open_fds (local s j)) \<subseteq> set (all_open n s)"
  by (auto simp: all_open_def)

lemma sys_step_inv:
  assumes "sys_step cfgs n s s'" "sys_inv cfgs n s" "\<not> handles_stale n s s'"
  shows "sys_inv cfgs n s'"
  using assms
proof (induction rule: sys_step.induct)
  case (wait i s evs)
  with part_of [OF wait.prems(1) wait.hyps(1)] have "part_ok (cfgs i)
      (deliver_all evs (local s i)) evs (accept_mutex s = Some i)" by (intro wait_part) simp_all
  with wait show ?case
    by (intro sys_inv_thread [OF wait.prems(1) wait.hyps(1)]) (auto simp: own_deliver_all dest: own_apart)
next
  case (fail i s)
  then show ?case by (simp add: sys_inv_def apart_def)
next
  case (broadcast packet s)
  then show ?case by (simp add: sys_inv_def apart_def)
next
  case (lock i s ev evs)
  with part_of [OF lock.prems(1) lock.hyps(1)] show ?case
    by (intro sys_inv_thread [OF lock.prems(1) lock.hyps(1)])
      (auto simp: part_ok_def dest: own_apart)
next
  case (accept i s ev evs results t)
  have ok: "accepts_ok (open_fds (local s i)) results"
    using accepts_ok_mono [OF accept.hyps(4) open_sub] accept.hyps(1) by blast
  have part: "part_ok (cfgs i) (local s i) (ev # evs) True"
    using part_of [OF accept.prems(1) accept.hyps(1)] accept.hyps(2,3) by simp
  have "x \<notin> own (cfgs j) (local s j)" if "j < n" "j \<noteq> i" "x \<in> own (cfgs i) t" for j x
  proof -
    have "x \<in> own (cfgs i) (local s i) \<or> x \<notin> set (all_open n s)"
      using handle_server_opens [OF accept.hyps(4)] that(3) accept.hyps(5) by simp
    then show ?thesis
      using own_apart [OF accept.prems(1) accept.hyps(1) that(1,2)] open_sub [OF that(1)]
      by (auto simp: own_def)
  qed
  with accept_part(1) [OF part ok] accept.hyps(5) show ?case
    by (intro sys_inv_thread [OF accept.prems(1) accept.hyps(1)]) auto
next
  case (lose i s j ev evs)
  with part_of [OF lose.prems(1) lose.hyps(1)] show ?case
    by (intro sys_inv_thread [OF lose.prems(1) lose.hyps(1)])
      (auto simp: handle_server_def part_ok_def dest: own_apart)
next
  case (other i s ev evs os t)
  have fresh: "\<not> is_stale (local s i) ev"
    using other.prems(2) other.hyps(1,3) by (auto simp: handles_stale_def)
  have part: "part_ok (cfgs i) (local s i) (ev # evs) False"
    using part_of [OF other.prems(1) other.hyps(1)] other.hyps(2,3) by simp
  note t = fresh other.hyps(5,4,7)
  have "set (open_fds t) \<subseteq> set (open_fds (local s i))"
    using handle_event_shrinks [OF part_inv [OF part] t] by (simp add: shrinks_def)
  with other_part [OF part t] other.hyps(2) show ?case
    by (intro sys_inv_thread [OF other.prems(1) other.hyps(1)])
      (auto dest: own_shrinks [OF other.prems(1) other.hyps(1)])
qed

lemma fresh_to_inv: "fresh_to cfgs n s s' \<Longrightarrow> sys_inv cfgs n s \<Longrightarrow> sys_inv cfgs n s'"
  by (induction rule: fresh_to.induct) (auto intro: sys_step_inv)

section \<open>Threads that have lost the race\<close>








text \<open>One connection wakes all threads: the first takes the mutex, the others lose one by one.\<close>

definition burst :: "(nat \<Rightarrow> config) \<Rightarrow> nat \<Rightarrow> system" where
  "burst cfgs k =
     \<lparr>local = (\<lambda>i. if i < k then deliver (server_fd (cfgs i)) (start_thread (cfgs i))
        else start_thread (cfgs i)),
      pending = (\<lambda>i. if i = 0 then [input_on (server_fd (cfgs 0))] else []),
      accept_mutex = Some 0, serving = True, pipe = []\<rparr>"

lemma um_find_epoll_add: "fd \<noteq> fd' \<Longrightarrow> um_find (epoll_add fd m) fd' = um_find m fd'"
  by (simp add: epoll_add_def)

lemma start_armed:
  "distinct (special_fds cfg) \<Longrightarrow> um_find (epoll (start_thread cfg)) (server_fd cfg) = Some True"
  by (simp add: start_thread_def special_fds_def um_find_epoll_add) (simp add: epoll_add_def um_defs)

lemma armed_one: "armed_round t [input_on fd] \<longleftrightarrow> um_find (epoll t) fd = Some True"
  by (simp add: armed_round_def input_on_def)

lemma deliver_one: "deliver_all [input_on fd] t = deliver fd t"
  by (simp add: deliver_all_def input_on_def)

lemma handled_registered:
  "pending s i = ev # evs \<Longrightarrow> um_count (epoll (local s i)) (ev_fd ev) \<Longrightarrow>
    (\<And>j. j \<noteq> i \<Longrightarrow> pending s' j = pending s j) \<Longrightarrow> \<not> handles_stale n s s'"
  unfolding handles_stale_def is_stale_def by (metis list.inject not_Cons_self)

text \<open>A thread that waits handles nothing, and one that loses the race handles what it waited for.\<close>

lemma fresh_wait:
  assumes "fresh_to cfgs n s0 s" "i < n" "serving s" "pending s i = []"
    "um_find (epoll (local s i)) fd = Some True"
  shows "fresh_to cfgs n s0 (set_thread i (deliver fd (local s i)) [input_on fd] s)"
proof -
  have "sys_step cfgs n s
      (set_thread i (deliver_all [input_on fd] (local s i)) [input_on fd] s)"
    using assms(2-5) by (intro sys_step.wait) (simp_all add: armed_one)
  then have "sys_step cfgs n s (set_thread i (deliver fd (local s i)) [input_on fd] s)"
    by (simp add: deliver_one)
  moreover have "\<not> handles_stale n s (set_thread i (deliver fd (local s i)) [input_on fd] s)"
    using assms(4) by (auto simp: handles_stale_def split: if_splits)
  ultimately show ?thesis using assms(1) by (rule fresh_to.further [rotated])
qed

lemma burst_simps:
  "accept_mutex (burst cfgs k) = Some 0" "serving (burst cfgs k)"
  "local (burst cfgs k) k = start_thread (cfgs k)" "k \<noteq> 0 \<Longrightarrow> pending (burst cfgs k) k = []"
  by (simp_all add: burst_def)

lemma burst_Suc:
  assumes "k \<noteq> 0"
  shows "set_thread k (deliver (server_fd (cfgs k)) (start_thread (cfgs k))) []
    (set_thread k u evs (burst cfgs k)) = burst cfgs (Suc k)"
proof -
  have "(\<lambda>i. if i < k then f i else g i)(k := f k) = (\<lambda>i. if i < Suc k then f i else g i)"
    for f g :: "nat \<Rightarrow> thread" by (auto simp: less_Suc_eq)
  moreover have "(\<lambda>i. if i = 0 then p else [])(k := []) = (\<lambda>i. if i = 0 then p else [])"
    for p :: "epoll_event list" using assms by auto
  ultimately show ?thesis by (simp add: set_thread_def burst_def)
qed

lemma burst_step:
  assumes "one_server cfgs n" "0 < k" "k < n" "fresh_to cfgs n s0 (burst cfgs k)"
  shows "fresh_to cfgs n s0 (burst cfgs (Suc k))"
proof -
  let ?fd = "server_fd (cfgs k)"
  let ?t = "deliver ?fd (start_thread (cfgs k))"
  let ?w = "set_thread k ?t [input_on ?fd] (burst cfgs k)"
  have armed: "um_find (epoll (start_thread (cfgs k))) ?fd = Some True"
    using start_armed [OF one_server_thread(1) [OF assms(1,3)]] .
  then have w: "fresh_to cfgs n s0 ?w"
    using fresh_wait [OF assms(4,3), of ?fd] assms(2) by (simp add: burst_simps)
  have "sys_step cfgs n ?w (set_thread k (handle_server (cfgs k) False [] (local ?w k)) [] ?w)"
    using assms(2,3) by (intro sys_step.lose [where j = 0 and ev = "input_on ?fd"])
      (simp_all add: burst_simps input_on_def is_input_def)
  moreover have "set_thread k (handle_server (cfgs k) False [] (local ?w k)) [] ?w = burst cfgs (Suc k)"
    using assms(2) by (simp add: burst_Suc handle_server_def)
  ultimately have step: "sys_step cfgs n ?w (burst cfgs (Suc k))" by simp
  have "um_count (epoll ?t) ?fd" using um_find_count [OF armed] by (simp add: deliver_def)
  then have "\<not> handles_stale n ?w (burst cfgs (Suc k))"
    using assms(2) by (intro handled_registered [where i = k]) (auto simp: burst_def input_on_def)
  with fresh_to.further [OF w step] show ?thesis .
qed

lemma burst_reached:
  assumes "one_server cfgs n" "0 < k" "k \<le> n"
  shows "fresh_to cfgs n (start_system cfgs) (burst cfgs k)"
  using assms(2,3)
proof (induction k)
  case (Suc k)
  show ?case
  proof (cases "k = 0")
    case True
    let ?fd = "server_fd (cfgs 0)"
    let ?w = "set_thread 0 (deliver ?fd (start_thread (cfgs 0))) [input_on ?fd] (start_system cfgs)"
    have "um_find (epoll (start_thread (cfgs 0))) ?fd = Some True"
      using one_server_thread(1) [OF assms(1), of 0] Suc.prems by (intro start_armed) simp
    then have "fresh_to cfgs n (start_system cfgs) ?w"
      using Suc.prems fresh_wait [OF fresh_to.here, of 0 n "start_system cfgs" ?fd]
      by (simp add: start_system_def)
    moreover have "sys_step cfgs n ?w (?w\<lparr>accept_mutex := Some 0\<rparr>)"
      using Suc.prems by (intro sys_step.lock [where ev = "input_on ?fd"])
        (simp_all add: start_system_def is_input_def input_on_def)
    moreover have "\<not> handles_stale n ?w (?w\<lparr>accept_mutex := Some 0\<rparr>)"
      by (simp add: handles_stale_def)
    moreover have "?w\<lparr>accept_mutex := Some 0\<rparr> = burst cfgs (Suc 0)"
      by (auto simp: set_thread_def start_system_def burst_def)
    ultimately show ?thesis using True fresh_to.further by metis
  qed (use Suc burst_step [OF assms(1)] in auto)
qed simp


section \<open>What the threads promise\<close>

text \<open>
  C17. However the threads of a server interleave, in rounds of any number of events, no
  connection and no timer ever belongs to two of them, each keeps its invariant, only a thread
  that has room is inside the accept loop, and the next handler of a thread faults only if it
  finds the broadcast pipe empty.  Assumed: no thread handles a stale event (\<open>handles_stale\<close>),
  descriptors that are handed out are fresh, timers can be made, set and registered, and errors
  are reported for connections only (\<open>outcome_ok\<close>).
\<close>

theorem threads_never_share_a_connection:
  assumes "one_server cfgs n" "fresh_to cfgs n (start_system cfgs) s" "i < n" "j < n" "i \<noteq> j"
  shows "own (cfgs i) (local s i) \<inter> own (cfgs j) (local s j) = {}
    \<and> thread_inv (cfgs i) (local s i)
    \<and> (accept_mutex s = Some i \<longrightarrow> num_connections (local s i) < max_connections (cfgs i))
    \<and> (\<forall>ev evs os e. pending s i = ev # evs \<longrightarrow> \<not> is_stale (local s i) ev \<longrightarrow>
         outcome_ok (cfgs i) (local s i) ev os \<longrightarrow> handle_event (cfgs i) ev os (local s i) = Inl e \<longrightarrow>
         ev_fd ev = broadcast_pipe0 (cfgs i) \<and> pipe_data os = None)"
proof -
  have inv: "sys_inv cfgs n s" using fresh_to_inv [OF assms(2) start_inv [OF assms(1)]] .
  have part: "part_ok (cfgs i) (local s i) (pending s i) (accept_mutex s = Some i)"
    using part_of [OF inv assms(3)] .
  have "num_connections (local s i) < max_connections (cfgs i)" if m: "accept_mutex s = Some i"
  proof -
    from part m obtain ev evs where "pending s i = ev # evs" "part_ok (cfgs i) (local s i) (ev # evs) True"
      by (cases "pending s i") (auto simp: part_ok_def)
    from accept_part(2) [OF this(2), of "[]"] show ?thesis by simp
  qed
  moreover have "ev_fd ev = broadcast_pipe0 (cfgs i) \<and> pipe_data os = None"
    if "\<not> is_stale (local s i) ev" "outcome_ok (cfgs i) (local s i) ev os"
      "handle_event (cfgs i) ev os (local s i) = Inl e" for ev os e
    using handle_event_inv [OF part_inv [OF part] that(1,2)] that(3) by (simp add: empty_read_def)
  ultimately show ?thesis using inv part_inv [OF part] assms(3-5) by (auto simp: sys_inv_def apart_def)
qed



definition four_threads :: "nat \<Rightarrow> config" where
  "four_threads i = sample_cfg\<lparr>timeout_epoll_fd := 100 + int i\<rparr>"

lemma four_threads_one_server: "one_server four_threads 4"
  by (auto simp: one_server_def four_threads_def special_fds_def sample_cfg_def)

lemma threads_never_share_a_connection_witness:
  "own (four_threads 1) (local (burst four_threads 3) 1) \<inter>
      own (four_threads 2) (local (burst four_threads 3) 2) = {}
    \<and> thread_inv (four_threads 1) (local (burst four_threads 3) 1)"
  using threads_never_share_a_connection [OF four_threads_one_server
      burst_reached [OF four_threads_one_server], of 3 1 2] by simp


section \<open>A broadcast\<close>





end
