(* ===== verification/HttpApi.thy ===== *)
theory HttpApi
  imports Http
begin

text \<open>
  \<open>cpp-source/http-api.hpp\<close> and \<open>cpp-source/http-api.cpp\<close>: the routes, the responses, the
  static files with their cache and templates, and the request handler that \<open>start\<close> installs.
  The file system, the clock, the random draws, the hash, the token encryptor and the HTTPS
  client are the environment of a request.
\<close>

section \<open>State\<close>

definition BUFFER_LIMIT :: nat where "BUFFER_LIMIT = 8192"

lemma BUFFER_LIMIT_pos: "0 < BUFFER_LIMIT"
  by (simp add: BUFFER_LIMIT_def)

record http_response =
  start :: string
  status :: string
  headers :: "(string, string) umap"
  body :: string

record view =
  vroute :: string
  vmethod :: string
  vparameters :: "(string, string) umap"
  vsize :: int

text \<open>One of the three handlers of a route is set by its constructor; they may throw.\<close>

record route =
  route_function :: "(JsonObject \<Rightarrow> string res) option"
  form_function :: "(JsonObject \<Rightarrow> view res) option"
  token_function :: "(JsonObject \<Rightarrow> JsonObject \<Rightarrow> string res) option"
  required_parameters :: "(string \<times> JsonType) list"
  requires_human :: bool
  minimum_ms_between_call :: int
  client_ms_at_call :: "(string, int) umap"

text \<open>\<open>None\<close> as data: allocated, but never read into.\<close>

record cached_file =
  data :: "string option"
  data_length :: nat
  modified :: int

record session =
  captcha :: string
  created :: int

text \<open>\<open>out\<close> is what has been written to the connection of the request.\<close>

record http_api =
  file_cache :: "(string, cached_file) umap"
  sessions :: "(string, session) umap"
  file_cache_remaining_bytes :: int
  public_directory :: string
  routemap :: "(string, route) umap"
  out :: "string list"

text \<open>
  A file that \<open>lstat\<close> finds: regular with its modification time and its contents, which opens or
  does not.  A file does not change while one request is handled.
\<close>

datatype node = Missing | Directory | Special | Regular int string bool

record env =
  fs :: "string \<Rightarrow> node"
  now_ms :: int
  client_detail :: string
  send_ok :: bool
  lock_free :: bool
  captcha_draws :: "nat list"
  secret_captcha_url :: string
  sha256_hash :: "string \<Rightarrow> string"
  https_get :: "string \<Rightarrow> string"
  decrypt :: "string \<Rightarrow> string res"

section \<open>Routes\<close>

definition new_route :: "(string \<times> JsonType) list \<Rightarrow> int \<Rightarrow> bool \<Rightarrow> route" where
  "new_route params rate_limit human =
     \<lparr>route_function = None, form_function = None, token_function = None,
      required_parameters = params, requires_human = human,
      minimum_ms_between_call = rate_limit, client_ms_at_call = []\<rparr>"

text \<open>\<open>path[path.length() - 1]\<close> is read although the path may be empty.\<close>

definition slash_terminated :: "string \<Rightarrow> string res" where
  "slash_terminated path =
     (if path = [] then Inl OutOfBounds
      else if last path \<noteq> CHR ''/'' then Inr (path @ ''/'') else Inr path)"

definition form_route ::
  "string \<Rightarrow> string \<Rightarrow> (JsonObject \<Rightarrow> view res) \<Rightarrow> route \<Rightarrow> http_api \<Rightarrow> http_api" where
  "form_route m path f r api =
     api\<lparr>routemap := um_set (m @ '' '' @ path) (r\<lparr>form_function := Some f\<rparr>) (routemap api)\<rparr>"

definition add_route ::
  "string \<Rightarrow> string \<Rightarrow> (JsonObject \<Rightarrow> string res) \<Rightarrow> route \<Rightarrow> http_api \<Rightarrow> http_api res" where
  "add_route m path f r api =
     bindR (slash_terminated path) (\<lambda>path.
       Inr (api\<lparr>routemap := um_set (m @ '' /api'' @ path) (r\<lparr>route_function := Some f\<rparr>)
         (routemap api)\<rparr>))"

text \<open>\<open>authenticated_route\<close> ends the program (\<open>None\<close>) when there is no encryptor.\<close>

definition authenticated_route ::
  "bool \<Rightarrow> string \<Rightarrow> string \<Rightarrow> (JsonObject \<Rightarrow> JsonObject \<Rightarrow> string res) \<Rightarrow> route \<Rightarrow> http_api \<Rightarrow>
    http_api res option" where
  "authenticated_route has_encryptor m path f r api =
     (if \<not> has_encryptor then None
      else Some (bindR (slash_terminated path) (\<lambda>path.
        Inr (api\<lparr>routemap := um_set (m @ '' /api'' @ path) (r\<lparr>token_function := Some f\<rparr>)
          (routemap api)\<rparr>))))"

definition captcha_set :: string where
  "captcha_set = ''23456789$@!=*ABCDEFGHJKMNPQRSTabcdefghijkmnprstuvwxyz''"

definition get_captcha :: "nat list \<Rightarrow> string" where
  "get_captcha draws = map (\<lambda>i. captcha_set ! (i mod length captcha_set)) (take 6 draws)"

definition set_file_cache_size :: "int \<Rightarrow> http_api \<Rightarrow> http_api" where
  "set_file_cache_size megabytes api =
     api\<lparr>file_cache_remaining_bytes := megabytes * 1024 * 1024\<rparr>"

text \<open>The table of routes that \<open>start\<close> publishes.\<close>

definition route_object :: "route \<Rightarrow> JsonObject" where
  "route_object r =
     JsonObject OBJECT []
       [(''rate_limit'', new_string (to_string (nat (minimum_ms_between_call r)))),
        (''parameters'', JsonObject ARRAY [] []
          (map (new_string \<circ> fst) (required_parameters r)
           @ (if token_function r \<noteq> None then [new_string ''token''] else [])))] []"

definition routes_object :: "http_api \<Rightarrow> JsonObject" where
  "routes_object api = JsonObject OBJECT [] (map (\<lambda>(k, r). (k, route_object r)) (routemap api)) []"

section \<open>Responses\<close>

definition new_response :: http_response where
  "new_response = \<lparr>start = ''HTTP/1.1'', status = ''200 Ok'', headers = [], body = []\<rparr>"

definition response_str :: "http_response \<Rightarrow> string" where
  "response_str r =
     start r @ '' '' @ status r @ [CR, LF]
       @ concat (map (\<lambda>(k, v). k @ '': '' @ v @ [CR, LF]) (headers r)) @ [CR, LF] @ body r"

definition set_header :: "string \<Rightarrow> string \<Rightarrow> http_response \<Rightarrow> http_response" where
  "set_header k v r = r\<lparr>headers := um_set k v (headers r)\<rparr>"

text \<open>\<open>EpollServer::send\<close>: the string version, and the one that reports an error.\<close>

definition server_send :: "env \<Rightarrow> string \<Rightarrow> http_api \<Rightarrow> int \<times> http_api" where
  "server_send env s api =
     (if send_ok env then (int (length s), api\<lparr>out := out api @ [s]\<rparr>) else (- 1, api))"

definition server_send_failed :: "env \<Rightarrow> string \<Rightarrow> http_api \<Rightarrow> bool \<times> http_api" where
  "server_send_failed env s api =
     (if send_ok env then (False, api\<lparr>out := out api @ [s]\<rparr>) else (True, api))"

definition with_content_length :: "http_response \<Rightarrow> http_response" where
  "with_content_length r =
     (if \<not> um_count (headers r) ''Content-Length''
      then set_header ''Content-Length'' (to_string (length (body r))) r else r)"

definition respond :: "env \<Rightarrow> http_response \<Rightarrow> http_api \<Rightarrow> int \<times> http_api" where
  "respond env r api = server_send env (response_str (with_content_length r)) api"

definition respond_404 :: "env \<Rightarrow> http_api \<Rightarrow> int \<times> http_api" where
  "respond_404 env api =
     respond env \<lparr>start = ''HTTP/1.1'', status = ''302 Not Found'',
         headers = [(''Location'', ''404.html'')],
         body = ''<h1 style='' @ [CHR 0x27] @ ''text-align:center;'' @ [CHR 0x27]
           @ ''>404 Not Found</h1>''\<rparr> api"

text \<open>The pieces in which a cached file is sent, from an offset on.\<close>

function cached_chunks :: "string \<Rightarrow> nat \<Rightarrow> string list" where
  "cached_chunks d offset =
     (let size = (if length d < offset + BUFFER_LIMIT then length d mod BUFFER_LIMIT
                  else BUFFER_LIMIT)
      in take size (drop offset d)
           # (if size = BUFFER_LIMIT then cached_chunks d (offset + size) else []))"
  by pat_completeness auto
termination
proof (relation "measure (\<lambda>(d, offset). length d + BUFFER_LIMIT - offset)")
  fix d :: string and offset size :: nat
  assume size: "size = (if length d < offset + BUFFER_LIMIT then length d mod BUFFER_LIMIT
      else BUFFER_LIMIT)" "size = BUFFER_LIMIT"
  have "length d mod BUFFER_LIMIT \<noteq> BUFFER_LIMIT"
    using mod_less_divisor [OF BUFFER_LIMIT_pos, of "length d"] by simp
  then have "offset + BUFFER_LIMIT \<le> length d" using size by (auto split: if_splits)
  with size BUFFER_LIMIT_pos
  show "((d, offset + size), d, offset) \<in> measure (\<lambda>(d, offset). length d + BUFFER_LIMIT - offset)"
    by simp
qed simp

text \<open>The pieces in which a file is read, the last one being short.\<close>

function read_chunks :: "string \<Rightarrow> string list" where
  "read_chunks d =
     (if length d < BUFFER_LIMIT then [d]
      else take BUFFER_LIMIT d # read_chunks (drop BUFFER_LIMIT d))"
  by pat_completeness auto
termination
  using BUFFER_LIMIT_pos by (relation "measure length") auto

declare cached_chunks.simps [simp del] read_chunks.simps [simp del]

fun send_chunks :: "env \<Rightarrow> string list \<Rightarrow> http_api \<Rightarrow> bool \<times> http_api" where
  "send_chunks env [] api = (False, api)"
| "send_chunks env (s # ss) api =
     (case server_send_failed env s api of
        (True, api') \<Rightarrow> (True, api')
      | (False, api') \<Rightarrow> send_chunks env ss api')"

definition respond_cached_file ::
  "env \<Rightarrow> http_response \<Rightarrow> cached_file \<Rightarrow> http_api \<Rightarrow> (int \<times> http_api) prog" where
  "respond_cached_file env r file api =
     (let r = set_header ''Content-Length'' (to_string (data_length file)) r;
          (headers_size, api) = respond env r api
      in case data file of
           None \<Rightarrow> fail Uninitialised
         | Some d \<Rightarrow>
             (case send_chunks env (cached_chunks d 0) api of
                (True, api) \<Rightarrow> ret (- 1, api)
              | (False, api) \<Rightarrow> ret (headers_size + int (data_length file), api)))"

section \<open>Templates\<close>

text \<open>\<open>body.substr(s, e - s + 3)\<close> with the unsigned difference wrapping around.\<close>

definition template_parameter :: "string \<Rightarrow> nat \<Rightarrow> nat \<Rightarrow> string" where
  "template_parameter b s e =
     (let count = (int e - int s + 3) mod 2 ^ 64 in take (nat count) (drop s b))"

partial_function (option) strip_parameters :: "string \<Rightarrow> string prog" where
  "strip_parameters b =
     (case find_sub ''{{{'' b of
        None \<Rightarrow> ret b
      | Some s \<Rightarrow>
          (case find_sub ''}}}'' b of
             None \<Rightarrow> ret b
           | Some e \<Rightarrow>
               bindP (replace_all b (template_parameter b s e) []) strip_parameters))"

fun substitute :: "(string, string) umap \<Rightarrow> string \<Rightarrow> string prog" where
  "substitute [] b = ret b"
| "substitute ((k, v) # ps) b =
     bindP (replace_all b (''{{{'' @ k @ ''}}}'') v) (substitute ps)"

definition render :: "(string, string) umap \<Rightarrow> string \<Rightarrow> string prog" where
  "render params b = bindP (substitute params b) strip_parameters"

section \<open>Files\<close>

definition respond_parameterized_view ::
  "env \<Rightarrow> view \<Rightarrow> http_response \<Rightarrow> http_api \<Rightarrow> (int \<times> http_api) prog" where
  "respond_parameterized_view env v r api =
     (case fs env (vroute v) of
        Regular mtime content True \<Rightarrow>
          (let buffer = take BUFFER_LIMIT content in
           if int (length buffer) \<noteq> vsize v then ret (- 1, api)
           else bindP (render (vparameters v) buffer)
             (\<lambda>b. ret (respond env (r\<lparr>body := b\<rparr>) api)))
      | _ \<Rightarrow> ret (- 1, api))"

definition respond_view ::
  "env \<Rightarrow> view \<Rightarrow> http_response \<Rightarrow> http_api \<Rightarrow> (int \<times> http_api) prog" where
  "respond_view env v r api =
     (let (len, api) = respond env r api in
      if len < 0 then ret (- 1, api)
      else (case fs env (vroute v) of
        Regular mtime content True \<Rightarrow>
          (case send_chunks env (read_chunks content) api of
             (True, api) \<Rightarrow> ret (- 1, api)
           | (False, api) \<Rightarrow>
               ret (int (length (response_str (with_content_length r))) + vsize v, api))
      | _ \<Rightarrow> ret (- 1, api)))"

fun clean_dots :: "string \<Rightarrow> string" where
  "clean_dots [] = []"
| "clean_dots [c] = [c]"
| "clean_dots (c # d # cs) =
     (if c = CHR ''.'' \<and> d = CHR ''.'' then clean_dots (d # cs) else c # clean_dots (d # cs))"

definition content_type :: "string \<Rightarrow> string" where
  "content_type path =
     (if endsWith path ''.css'' then ''text/css''
      else if endsWith path ''.html'' then ''text/html''
      else if endsWith path ''.svg'' then ''image/svg+xml''
      else if endsWith path ''.js'' then ''text/javascript''
      else ''text/plain'')"

text \<open>The path that is served, after a directory has become its index.\<close>

definition served_path :: "env \<Rightarrow> string \<Rightarrow> string" where
  "served_path env path = (if fs env path = Directory then path @ ''/index.html'' else path)"

text \<open>Dropping a stale entry, then filling the cache: \<open>Inl\<close> when the file does not open.\<close>

definition refresh_cache :: "string \<Rightarrow> int \<Rightarrow> http_api \<Rightarrow> http_api" where
  "refresh_cache path mtime api =
     (case um_find (file_cache api) path of
        Some file \<Rightarrow>
          if modified file \<noteq> mtime then api\<lparr>file_cache := um_erase path (file_cache api)\<rparr> else api
      | None \<Rightarrow> api)"

definition fill_cache ::
  "env \<Rightarrow> string \<Rightarrow> int \<Rightarrow> string \<Rightarrow> bool \<Rightarrow> http_api \<Rightarrow> bool \<times> http_api" where
  "fill_cache env path mtime content readable api =
     (if \<not> um_count (file_cache api) path
        \<and> int (length content) < file_cache_remaining_bytes api \<and> lock_free env
      then
        (let file = \<lparr>data = (if readable then Some content else None),
               data_length = length content, modified = mtime\<rparr>
         in (\<not> readable, api\<lparr>file_cache := um_set path file (file_cache api),
               file_cache_remaining_bytes :=
                 file_cache_remaining_bytes api - int (length content)\<rparr>))
      else (False, api))"

definition serve_file ::
  "env \<Rightarrow> view \<Rightarrow> http_response \<Rightarrow> string \<Rightarrow> nat \<Rightarrow> http_api \<Rightarrow> (int \<times> http_api) prog" where
  "serve_file env v r path st_size api =
     (let is_html = endsWith path ''.html'' in
      case um_find (file_cache api) path of
        Some file \<Rightarrow>
          if data_length file < BUFFER_LIMIT \<and> is_html then
            (case data file of
               None \<Rightarrow> fail Uninitialised
             | Some d \<Rightarrow> bindP (render (vparameters v) d)
                 (\<lambda>b. ret (respond env (r\<lparr>body := b\<rparr>) api)))
          else respond_cached_file env r file api
      | None \<Rightarrow>
          (let v = v\<lparr>vsize := int st_size\<rparr> in
           if st_size < BUFFER_LIMIT \<and> is_html then respond_parameterized_view env v r api
           else respond_view env v r api))"

definition respond_http ::
  "env \<Rightarrow> view \<Rightarrow> http_response \<Rightarrow> http_api \<Rightarrow> (int \<times> http_api) prog" where
  "respond_http env v r api =
     (let clean_route = public_directory api @ clean_dots (vroute v) in
      if fs env clean_route = Missing then ret (respond_404 env api)
      else
        (let path = served_path env clean_route in
         case fs env path of
           Regular mtime content readable \<Rightarrow>
             (let r = set_header ''Content-Type'' (content_type path) r in
              if vmethod v = ''HEAD'' then
                ret (respond env (set_header ''Content-Length'' (to_string (length content)) r) api)
              else
                (case fill_cache env path mtime content readable (refresh_cache path mtime api) of
                   (True, api) \<Rightarrow> ret (- 1, api)
                 | (False, api) \<Rightarrow> serve_file env v r path (length content) api))
         | _ \<Rightarrow> ret (respond_404 env api)))"

section \<open>The request handler\<close>

definition session_name :: string where "session_name = ''libjaypea-session''"

definition string_or_empty :: "JsonObject \<Rightarrow> string \<Rightarrow> string" where
  "string_or_empty req k =
     (if HasObj req k STRING then (case GetStr req k of Inr s \<Rightarrow> s | Inl _ \<Rightarrow> []) else [])"

text \<open>
  An unknown or expired session is forgotten; without one, the session is named by the hash of
  what is known of the client, and exists from then on.
\<close>

definition attach_session :: "env \<Rightarrow> JsonObject \<Rightarrow> http_api \<Rightarrow> JsonObject \<times> string \<times> http_api" where
  "attach_session env req api =
     (let now = now_ms env div 1000;
          req = (if HasObj req session_name STRING then
              (case um_find (sessions api) (string_or_empty req session_name) of
                 None \<Rightarrow> erase_objectValue session_name req
               | Some s \<Rightarrow> if 3600 < now - created s then erase_objectValue session_name req else req)
            else req);
          req = (if \<not> HasObj req session_name STRING then
              set_objectValue session_name (new_string (sha256_hash env (client_detail env
                @ string_or_empty req ''User-Agent'' @ string_or_empty req ''Host''))) req
            else req);
          key = string_or_empty req session_name
      in (req, key,
          if um_count (sessions api) key then api
          else api\<lparr>sessions := um_set key \<lparr>captcha = [], created = now\<rparr> (sessions api)\<rparr>))"

definition session_captcha :: "string \<Rightarrow> http_api \<Rightarrow> string" where
  "session_captcha key api =
     (case um_find (sessions api) key of None \<Rightarrow> [] | Some s \<Rightarrow> captcha s)"

definition set_captcha :: "string \<Rightarrow> string \<Rightarrow> http_api \<Rightarrow> http_api" where
  "set_captcha key text api =
     (case um_find (sessions api) key of
        None \<Rightarrow> api
      | Some s \<Rightarrow> api\<lparr>sessions := um_set key (s\<lparr>captcha := text\<rparr>) (sessions api)\<rparr>)"

definition request_view :: "JsonObject \<Rightarrow> view" where
  "request_view req =
     \<lparr>vroute = string_or_empty req ''route'', vmethod = string_or_empty req ''method'',
      vparameters = [], vsize = 0\<rparr>"

definition request_route_key :: "RequestResult \<Rightarrow> JsonObject \<Rightarrow> string" where
  "request_route_key rtype req =
     (let key = (if HasObj req ''method'' STRING \<and> HasObj req ''route'' STRING
                 then string_or_empty req ''method'' @ '' '' @ string_or_empty req ''route''
                 else ''GET /404.html'')
      in if (rtype = HTTP_API \<or> rtype = API) \<and> last key \<noteq> CHR ''/'' then key @ ''/'' else key)"

definition json_error :: "string \<Rightarrow> string" where
  "json_error text = ''{'' @ [DQ] @ ''error'' @ [DQ] @ '':'' @ [DQ] @ text @ [DQ] @ ''}''"

text \<open>A refused request: the page of the form with the reason, or a JSON error.\<close>

definition refuse ::
  "env \<Rightarrow> RequestResult \<Rightarrow> string \<Rightarrow> view \<Rightarrow> http_response \<Rightarrow> http_api \<Rightarrow> (int \<times> http_api) prog" where
  "refuse env rtype text v r api =
     (if rtype = HTTP_FORM then
        respond_http env (v\<lparr>vparameters := um_set ''status'' text (vparameters v)\<rparr>) r api
      else ret (respond env (r\<lparr>body := json_error text\<rparr>) api))"

definition answer_captcha ::
  "env \<Rightarrow> JsonObject \<Rightarrow> string \<Rightarrow> http_response \<Rightarrow> http_api \<Rightarrow> int \<times> http_api" where
  "answer_captcha env req key r api =
     (let r = set_header ''Content-Type'' ''text/html'' r;
          api = (if HasObj req ''new'' STRING \<and> GetStr req ''new'' = Inr ''true''
                 then set_captcha key [] api else api);
          api = (if session_captcha key api = []
                 then set_captcha key (get_captcha (captcha_draws env)) api else api);
          text = session_captcha key api
      in respond env (r\<lparr>body := (if secret_captcha_url env = []
           then ''<h3>'' @ text @ ''</h3>'' @ [DQ] @ ''}''
           else https_get env (secret_captcha_url env @ text))\<rparr>) api)"

fun decode_parameters :: "JsonObject \<Rightarrow> (string \<times> JsonType) list \<Rightarrow> view \<Rightarrow> view res" where
  "decode_parameters req [] v = Inr v"
| "decode_parameters req ((k, t) # ps) v =
     bindR (GetURLDecodedStr req k)
       (\<lambda>s. decode_parameters req ps (v\<lparr>vparameters := um_set k s (vparameters v)\<rparr>))"

definition rate_limited :: "env \<Rightarrow> route \<Rightarrow> bool" where
  "rate_limited env rt =
     (case um_find (client_ms_at_call rt) (client_detail env) of
        None \<Rightarrow> False
      | Some t \<Rightarrow> now_ms env - t < minimum_ms_between_call rt)"

definition note_call :: "env \<Rightarrow> string \<Rightarrow> route \<Rightarrow> http_api \<Rightarrow> http_api" where
  "note_call env key rt api =
     api\<lparr>routemap := um_set key (rt\<lparr>client_ms_at_call :=
        um_set (client_detail env) (now_ms env) (client_ms_at_call rt)\<rparr>) (routemap api)\<rparr>"

fun missing_parameter ::
  "JsonObject \<Rightarrow> (string \<times> JsonType) list \<Rightarrow> (string \<times> JsonType) option" where
  "missing_parameter req [] = None"
| "missing_parameter req ((k, t) # ps) =
     (if \<not> HasObj req k t \<or> HasObj req k STRING \<and> GetStr req k = Inr [] then Some (k, t)
      else missing_parameter req ps)"

text \<open>The checks in their order: \<open>Some\<close> reason to refuse, and what they changed.\<close>

definition check_request ::
  "env \<Rightarrow> JsonObject \<Rightarrow> string \<Rightarrow> string \<Rightarrow> route \<Rightarrow> http_api \<Rightarrow> string option \<times> http_api" where
  "check_request env req key route_key rt api =
     (if 0 < minimum_ms_between_call rt \<and> rate_limited env rt then
        (Some ''This route is rate-limited, wait a bit.'', api)
      else
        (let api = (if 0 < minimum_ms_between_call rt then note_call env route_key rt api else api)
         in case missing_parameter req (required_parameters rt) of
              Some (k, t) \<Rightarrow> (Some ([CHR 0x27] @ k @ [CHR 0x27] @ '' requires a ''
                @ typeString t @ ''.''), api)
            | None \<Rightarrow>
                if requires_human rt then
                  (if \<not> HasObj req ''captcha'' STRING then
                     (Some ''An answer is required for the captcha.'', api)
                   else if GetStr req ''captcha'' \<noteq> Inr (session_captcha key api) then
                     (Some ''Provided answer to the captcha is incorrect.'', set_captcha key [] api)
                   else (None, set_captcha key [] api))
                else (None, api)))"

text \<open>Exceptions that \<open>catch(const std::exception&)\<close> catches; \<open>GetStr\<close> throws a pointer.\<close>

definition caught :: "fault \<Rightarrow> bool" where
  "caught e = (case e of OutOfRange \<Rightarrow> True | InvalidArgument \<Rightarrow> True | RuntimeError _ \<Rightarrow> True
     | _ \<Rightarrow> False)"

definition call_token_function ::
  "env \<Rightarrow> (JsonObject \<Rightarrow> JsonObject \<Rightarrow> string res) \<Rightarrow> JsonObject \<Rightarrow> string prog" where
  "call_token_function env f req =
     (let run = bindP (lift_res (bindR (GetStr req ''token'') (\<lambda>s. decrypt env (deescape s))))
            (\<lambda>text. bindP (parse_into new_empty (c_str text)) (\<lambda>token. lift_res (f req token)))
      in case run of
           Some (Inl e) \<Rightarrow> if caught e then ret (json_error ''Insufficient access.'') else fail e
         | r \<Rightarrow> r)"

definition dispatch ::
  "env \<Rightarrow> RequestResult \<Rightarrow> JsonObject \<Rightarrow> route option \<Rightarrow> view \<Rightarrow> http_response \<Rightarrow> http_api \<Rightarrow>
    (int \<times> http_api) prog" where
  "dispatch env rtype req rt v r api =
     (case rtype of
        HTTP \<Rightarrow> respond_http env v r api
      | HTTP_FORM \<Rightarrow>
          (case Option.bind rt form_function of
             None \<Rightarrow> ret (respond env (r\<lparr>body := json_error ''Bad form route.''\<rparr>) api)
           | Some f \<Rightarrow> bindP (lift_res (f req)) (\<lambda>v. respond_http env v r api))
      | HTTP_API \<Rightarrow>
          (case Option.bind rt route_function of
             Some f \<Rightarrow> bindP (lift_res (f req)) (\<lambda>b. ret (respond env (r\<lparr>body := b\<rparr>) api))
           | None \<Rightarrow>
              (case Option.bind rt token_function of
                 Some f \<Rightarrow>
                   if \<not> HasObj req ''token'' STRING then
                     ret (respond env (r\<lparr>body := json_error ([CHR 0x27] @ ''token'' @ [CHR 0x27]
                       @ '' requires a string.'')\<rparr>) api)
                   else bindP (call_token_function env f req)
                     (\<lambda>b. ret (respond env (r\<lparr>body := b\<rparr>) api))
               | None \<Rightarrow> respond_http env v r api))
      | API \<Rightarrow> ret (respond_404 env api))"

definition handle_request ::
  "env \<Rightarrow> RequestResult \<Rightarrow> JsonObject \<Rightarrow> http_api \<Rightarrow> (int \<times> http_api) prog" where
  "handle_request env rtype req api =
     (let (req, key, api) = attach_session env req api;
          r = set_header session_name key new_response;
          v = request_view req;
          route_key = request_route_key rtype req
      in if rtype = HTTP then dispatch env rtype req None v r api
         else if route_key = ''GET /api/captcha/'' then ret (answer_captcha env req key r api)
         else case um_find (routemap api) route_key of
           None \<Rightarrow> refuse env rtype ''Bad route.'' v r api
         | Some rt \<Rightarrow>
             bindP (lift_res (decode_parameters req (required_parameters rt) v))
               (\<lambda>v. case check_request env req key route_key rt api of
                  (Some text, api) \<Rightarrow> refuse env rtype text v r api
                | (None, api) \<Rightarrow> dispatch env rtype req (um_find (routemap api) route_key) v r api))"

text \<open>\<open>on_read\<close>: the handler on what has been received.\<close>

definition on_read :: "env \<Rightarrow> string \<Rightarrow> http_api \<Rightarrow> (int \<times> http_api) prog" where
  "on_read env text api =
     bindP (parse_http_request text (new_typed OBJECT))
       (\<lambda>(rtype, req). handle_request env rtype req api)"

section \<open>Files in pieces\<close>

lemma cached_chunks_concat:
  "offset mod BUFFER_LIMIT = 0 \<Longrightarrow> offset \<le> length d \<Longrightarrow> concat (cached_chunks d offset) = drop offset d"
proof (induction d offset rule: cached_chunks.induct)
  case (1 d offset)
  show ?case
  proof (cases "length d < offset + BUFFER_LIMIT")
    case True
    have "length d mod BUFFER_LIMIT = (offset + (length d - offset)) mod BUFFER_LIMIT"
      using "1.prems" by simp
    also have "\<dots> = (length d - offset) mod BUFFER_LIMIT"
      using "1.prems"(1) by (metis add_0 mod_add_left_eq)
    also have "\<dots> = length d - offset" using True "1.prems" by simp
    finally have m: "length d mod BUFFER_LIMIT = length d - offset" .
    then have "length d mod BUFFER_LIMIT \<noteq> BUFFER_LIMIT"
      using mod_less_divisor [OF BUFFER_LIMIT_pos, of "length d"] by linarith
    with True m show ?thesis by (subst cached_chunks.simps) (simp add: Let_def)
  next
    case False
    then have "concat (cached_chunks d (offset + BUFFER_LIMIT)) = drop (offset + BUFFER_LIMIT) d"
      using 1 by simp
    with False show ?thesis
      by (subst cached_chunks.simps) (simp add: Let_def add.commute flip: drop_drop)
  qed
qed

lemma read_chunks_concat: "concat (read_chunks d) = d"
proof (induction d rule: read_chunks.induct)
  case (1 d)
  then show ?case by (subst read_chunks.simps) simp
qed

lemma send_chunks_ok:
  "send_ok env \<Longrightarrow> send_chunks env ss api = (False, api\<lparr>out := out api @ ss\<rparr>)"
  by (induction ss arbitrary: api) (simp_all add: server_send_failed_def)

lemma send_chunks_api: "\<exists>ss'. snd (send_chunks env ss api) = api\<lparr>out := out api @ ss'\<rparr>"
proof (induction ss arbitrary: api)
  case Nil
  show ?case by (rule exI [of _ "[]"]) simp
next
  case (Cons s ss)
  show ?case
  proof (cases "send_ok env")
    case True
    then show ?thesis by (intro exI [of _ "s # ss"]) (simp add: send_chunks_ok server_send_failed_def)
  next
    case False
    then show ?thesis by (intro exI [of _ "[]"]) (simp add: server_send_failed_def)
  qed
qed

section \<open>Paths\<close>

definition has_dots :: "string \<Rightarrow> bool" where
  "has_dots s = (find_sub ''..'' s \<noteq> None)"

lemma has_dots_simps [simp]:
  "\<not> has_dots []" "\<not> has_dots [c]"
  "has_dots (c # d # s) \<longleftrightarrow> c = CHR ''.'' \<and> d = CHR ''.'' \<or> has_dots (d # s)"
  by (auto simp: has_dots_def starts_with_def)

lemma hd_clean_dots: "s \<noteq> [] \<Longrightarrow> \<exists>r. clean_dots s = (if hd s = CHR ''.'' then CHR ''.'' else hd s) # r"
  by (induction s rule: clean_dots.induct) auto

lemma clean_dots_safe: "\<not> has_dots (clean_dots s)"
proof (induction s rule: clean_dots.induct)
  case (3 c d cs)
  obtain r where r: "clean_dots (d # cs) = d # r" using hd_clean_dots [of "d # cs"] by auto
  with 3 show ?case by auto
qed simp_all

lemma has_dots_append_slash: "\<not> has_dots s \<Longrightarrow> \<not> has_dots (s @ ''/index.html'')"
proof (induction s rule: clean_dots.induct)
  case 1
  show ?case by code_simp
next
  case (2 c)
  then show ?case by simp
qed simp

lemma clean_dots_id: "\<not> has_dots s \<Longrightarrow> clean_dots s = s"
  by (induction s rule: clean_dots.induct) auto

text \<open>
  The public directory itself, or a path in it: what follows its name begins with a slash and
  does not step up with two dots.
\<close>

definition inside :: "string \<Rightarrow> string \<Rightarrow> bool" where
  "inside dir path \<longleftrightarrow> path = dir \<or> (\<exists>p. path = dir @ ''/'' @ p \<and> \<not> has_dots p)"

text \<open>A route that begins with a slash; an empty one asks for the directory.\<close>

definition anchored :: "string \<Rightarrow> bool" where
  "anchored route \<longleftrightarrow> route = [] \<or> hd route = CHR ''/''"

lemma inside_slash: "\<not> has_dots (CHR ''/'' # p) \<Longrightarrow> inside dir (dir @ CHR ''/'' # p)"
  by (cases p) (auto simp: inside_def)

lemma clean_dots_inside:
  assumes "anchored route"
  shows "inside dir (dir @ clean_dots route)" "inside dir (dir @ clean_dots route @ ''/index.html'')"
proof -
  have dots: "\<not> has_dots (clean_dots route @ ''/index.html'')"
    by (intro has_dots_append_slash clean_dots_safe)
  show "inside dir (dir @ clean_dots route)"
  proof (cases "route = []")
    case False
    with assms hd_clean_dots [OF False] obtain r where r: "clean_dots route = CHR ''/'' # r"
      by (auto simp: anchored_def)
    from clean_dots_safe [of route] show ?thesis unfolding r by (rule inside_slash)
  qed (simp add: inside_def)
  show "inside dir (dir @ clean_dots route @ ''/index.html'')"
  proof (cases "route = []")
    case True
    have "\<not> has_dots ''/index.html''" by code_simp
    with True show ?thesis by (simp add: inside_slash)
  next
    case False
    with assms hd_clean_dots [OF False] obtain r where r: "clean_dots route = CHR ''/'' # r"
      by (auto simp: anchored_def)
    from dots show ?thesis unfolding r append_Cons by (rule inside_slash)
  qed
qed

lemma served_path_inside:
  "anchored route \<Longrightarrow>
    inside (public_directory api) (served_path env (public_directory api @ clean_dots route))"
  using clean_dots_inside [of route "public_directory api"] by (simp add: served_path_def)

lemma respond_fs [simp]: "respond (env\<lparr>fs := f\<rparr>) r api = respond env r api"
  by (simp add: respond_def server_send_def)

lemma respond_404_fs [simp]: "respond_404 (env\<lparr>fs := f\<rparr>) api = respond_404 env api"
  by (simp add: respond_404_def)

lemma send_chunks_fs [simp]: "send_chunks (env\<lparr>fs := f\<rparr>) ss api = send_chunks env ss api"
  by (induction ss arbitrary: api) (simp_all add: server_send_failed_def split: prod.splits)

lemma respond_cached_file_fs [simp]:
  "respond_cached_file (env\<lparr>fs := f\<rparr>) r file api = respond_cached_file env r file api"
  by (simp add: respond_cached_file_def split: prod.split option.split)

lemma fill_cache_fs [simp]:
  "fill_cache (env\<lparr>fs := f\<rparr>) path m c b api = fill_cache env path m c b api"
  by (simp add: fill_cache_def)

lemma refresh_cache_remaining [simp]:
  "file_cache_remaining_bytes (refresh_cache path m api) = file_cache_remaining_bytes api"
  "public_directory (refresh_cache path m api) = public_directory api"
  by (simp_all add: refresh_cache_def split: option.split)

lemma fill_cache_cached:
  assumes "int (length c) < file_cache_remaining_bytes api" "lock_free env"
    "fill_cache env path m c b api = (False, api')"
  shows "um_count (file_cache api') path"
  using assms by (auto simp: fill_cache_def Let_def split: if_splits)

lemma serve_file_cached_fs:
  "um_count (file_cache api) path \<Longrightarrow>
    serve_file (env\<lparr>fs := f\<rparr>) v r path n api = serve_file env v r path n api"
  by (auto simp: serve_file_def um_count_find Let_def split: option.split)

text \<open>
  The cache has room: a request finds a file of the directory in the cache or can put it there.
\<close>

definition cacheable :: "env \<Rightarrow> http_api \<Rightarrow> bool" where
  "cacheable env api \<longleftrightarrow> lock_free env \<and>
     (\<forall>path m c b. inside (public_directory api) path \<longrightarrow> fs env path = Regular m c b \<longrightarrow>
        int (length c) < file_cache_remaining_bytes api)"

lemma respond_http_confined:
  assumes cache: "cacheable env api" and route: "anchored (vroute v)"
    and same: "\<And>p. inside (public_directory api) p \<Longrightarrow> f p = fs env p"
  shows "respond_http (env\<lparr>fs := f\<rparr>) v r api = respond_http env v r api"
proof -
  let ?clean = "public_directory api @ clean_dots (vroute v)"
  have c: "f ?clean = fs env ?clean" by (rule same [OF clean_dots_inside(1) [OF route]])
  then have s: "served_path (env\<lparr>fs := f\<rparr>) ?clean = served_path env ?clean"
    by (simp add: served_path_def)
  let ?path = "served_path env ?clean"
  have p: "f ?path = fs env ?path" by (rule same [OF served_path_inside [OF route]])
  show ?thesis
  proof (cases "fs env ?path")
    case (Regular m content b)
    obtain failed api' where fill: "fill_cache env ?path m content b (refresh_cache ?path m api) =
        (failed, api')" by (cases "fill_cache env ?path m content b (refresh_cache ?path m api)")
    have "int (length content) < file_cache_remaining_bytes api" "lock_free env"
      using cache Regular served_path_inside [OF route] unfolding cacheable_def by blast+
    then have "\<not> failed \<Longrightarrow> um_count (file_cache api') ?path"
      using fill by (intro fill_cache_cached [of content "refresh_cache ?path m api" env ?path m b api'])
        auto
    with fill Regular show ?thesis
      by (cases failed) (simp_all add: respond_http_def c s p Let_def serve_file_cached_fs)
  qed (simp_all add: respond_http_def c s p Let_def)
qed

section \<open>What requests do to the cache\<close>

definition files_of :: "http_api \<Rightarrow> string \<times> (string, cached_file) umap \<times> int" where
  "files_of api = (public_directory api, file_cache api, file_cache_remaining_bytes api)"

lemma files_of_update [simp]:
  "files_of (api\<lparr>out := x\<rparr>) = files_of api"
  "files_of (api\<lparr>sessions := y\<rparr>) = files_of api"
  "files_of (api\<lparr>routemap := z\<rparr>) = files_of api"
  by (simp_all add: files_of_def)

lemma files_of_respond [simp]: "files_of (snd (respond env r api)) = files_of api"
  by (simp add: respond_def server_send_def)

lemma files_of_respond_404 [simp]: "files_of (snd (respond_404 env api)) = files_of api"
  by (simp add: respond_404_def)

lemma files_of_send_chunks [simp]: "files_of (snd (send_chunks env ss api)) = files_of api"
  using send_chunks_api [of env ss api] by auto

lemma files_of_set_captcha [simp]: "files_of (set_captcha key text api) = files_of api"
  by (simp add: set_captcha_def split: option.split)

lemma files_of_answer_captcha [simp]: "files_of (snd (answer_captcha env req key r api)) = files_of api"
  by (simp add: answer_captcha_def Let_def)

lemma files_of_note_call [simp]: "files_of (note_call env key rt api) = files_of api"
  by (simp add: note_call_def)

lemma files_of_check [simp]: "files_of (snd (check_request env req key rk rt api)) = files_of api"
  by (auto simp: check_request_def Let_def split: option.split)

lemma files_of_attach [simp]: "files_of (snd (snd (attach_session env req api))) = files_of api"
  by (simp add: attach_session_def Let_def)

lemma cacheable_files_of: "files_of api' = files_of api \<Longrightarrow> cacheable env api' \<longleftrightarrow> cacheable env api"
  by (simp add: cacheable_def files_of_def)

lemma env_fs_checks [simp]:
  "rate_limited (env\<lparr>fs := f\<rparr>) rt = rate_limited env rt"
  "note_call (env\<lparr>fs := f\<rparr>) key rt api = note_call env key rt api"
  by (simp_all add: rate_limited_def note_call_def split: option.split)

lemma env_fs_fields [simp]:
  "attach_session (env\<lparr>fs := f\<rparr>) req api = attach_session env req api"
  "answer_captcha (env\<lparr>fs := f\<rparr>) req key r api = answer_captcha env req key r api"
  "check_request (env\<lparr>fs := f\<rparr>) req key rk rt api = check_request env req key rk rt api"
  "call_token_function (env\<lparr>fs := f\<rparr>) g req = call_token_function env g req"
  by (simp_all add: attach_session_def answer_captcha_def check_request_def
      call_token_function_def Let_def split: option.split)

text \<open>
  The budget of the cache: what is cached and what is left never exceed the initial budget, what
  is left stays positive, names are distinct, and an entry has the length it announces.
\<close>

definition cache_inv :: "int \<Rightarrow> http_api \<Rightarrow> bool" where
  "cache_inv budget api \<longleftrightarrow>
     0 < file_cache_remaining_bytes api
     \<and> int (sum_list (map (data_length \<circ> snd) (file_cache api))) + file_cache_remaining_bytes api
         \<le> budget
     \<and> um_wf (file_cache api)
     \<and> (\<forall>path file d. um_find (file_cache api) path = Some file \<longrightarrow> data file = Some d \<longrightarrow>
          length d = data_length file)"

lemma cache_inv_files_of: "files_of api' = files_of api \<Longrightarrow> cache_inv b api' \<longleftrightarrow> cache_inv b api"
  by (simp add: cache_inv_def files_of_def)

lemma sum_list_um_erase: "sum_list (map f (um_erase k m)) \<le> (sum_list (map f m) :: nat)"
  by (induction m) (auto simp: um_erase_def AList.delete_eq)

lemma um_set_append: "\<not> um_count m k \<Longrightarrow> um_set k v m = m @ [(k, v)]"
  by (induction m) (auto simp: um_set_def um_count_def split: if_splits)

lemma refresh_cache_inv: "cache_inv budget api \<Longrightarrow> cache_inv budget (refresh_cache path m api)"
proof -
  assume inv: "cache_inv budget api"
  have "int (sum_list (map (data_length \<circ> snd) (um_erase path (file_cache api)))) \<le>
      int (sum_list (map (data_length \<circ> snd) (file_cache api)))"
    by (simp only: of_nat_le_iff sum_list_um_erase)
  with inv have "cache_inv budget (api\<lparr>file_cache := um_erase path (file_cache api)\<rparr>)"
    by (auto simp: cache_inv_def um.wf_erase)
  with inv show ?thesis by (simp add: refresh_cache_def split: option.split)
qed

lemma fill_cache_inv:
  assumes inv: "cache_inv budget api" and f: "fill_cache env path m c b api = (x, api')"
  shows "cache_inv budget api'"
proof (cases "\<not> um_count (file_cache api) path \<and> int (length c) < file_cache_remaining_bytes api
    \<and> lock_free env")
  case True
  let ?file = "\<lparr>data = (if b then Some c else None), data_length = length c, modified = m\<rparr>"
  have api': "api' = api\<lparr>file_cache := um_set path ?file (file_cache api),
      file_cache_remaining_bytes := file_cache_remaining_bytes api - int (length c)\<rparr>"
    using f True by (simp add: fill_cache_def)
  have "um_set path ?file (file_cache api) = file_cache api @ [(path, ?file)]"
    using True by (simp add: um_set_append)
  then have s: "int (sum_list (map (data_length \<circ> snd) (um_set path ?file (file_cache api)))) =
      int (sum_list (map (data_length \<circ> snd) (file_cache api))) + int (length c)" by simp
  show ?thesis
    using inv True s unfolding api' cache_inv_def
    by (auto simp: um.wf_insert split: if_splits)
qed (use assms in \<open>auto simp: fill_cache_def\<close>)

lemma serve_file_files:
  assumes "serve_file env v r path n api = ret (k, api')"
  shows "files_of api' = files_of api"
proof -
  have snd_eq: "p = (a, b) \<Longrightarrow> b = snd p" for p :: "int \<times> http_api" and a b by simp
  have snd_eq': "p = (a, b) \<Longrightarrow> b = snd p" for p :: "bool \<times> http_api" and a b by simp
  show ?thesis
    using assms
    by (auto simp: serve_file_def respond_cached_file_def respond_parameterized_view_def
        respond_view_def Let_def bindP_eq_ret split: option.splits prod.splits if_splits bool.splits
          node.splits dest!: snd_eq snd_eq')
qed

lemma respond_http_inv:
  assumes inv: "cache_inv budget api" and r: "respond_http env v r api = ret (k, api')"
  shows "cache_inv budget api'"
proof -
  let ?clean = "public_directory api @ clean_dots (vroute v)"
  let ?path = "served_path env ?clean"
  have simple: "cache_inv budget api'" if "ret (respond env r' api) = ret (k, api')" for r'
    using that inv files_of_respond [of env r' api] cache_inv_files_of [of api' api budget] by simp
  have gone: "cache_inv budget api'" if "ret (respond_404 env api) = ret (k, api')"
    using that inv files_of_respond_404 [of env api] cache_inv_files_of [of api' api budget] by simp
  show ?thesis
  proof (cases "fs env ?clean = Missing")
    case True
    with r gone show ?thesis by (simp add: respond_http_def Let_def)
  next
    case False
    show ?thesis
    proof (cases "fs env ?path")
      case (Regular m content b)
      show ?thesis
      proof (cases "vmethod v = ''HEAD''")
        case True
        with r Regular False simple show ?thesis by (simp add: respond_http_def Let_def)
      next
        case False
        obtain x api1 where f: "fill_cache env ?path m content b (refresh_cache ?path m api) = (x, api1)"
          by (cases "fill_cache env ?path m content b (refresh_cache ?path m api)")
        from fill_cache_inv [OF refresh_cache_inv [OF inv] f] have "cache_inv budget api1" .
        moreover have "files_of api' = files_of api1"
        proof (cases x)
          case True
          then show ?thesis
            using r Regular False \<open>fs env ?clean \<noteq> Missing\<close> f by (simp add: respond_http_def Let_def)
        next
          case False
          then have "serve_file env v (set_header ''Content-Type'' (content_type ?path) r) ?path
              (length content) api1 = ret (k, api')"
            using r Regular \<open>vmethod v \<noteq> ''HEAD''\<close> \<open>fs env ?clean \<noteq> Missing\<close> f
            by (simp add: respond_http_def Let_def)
          then show ?thesis by (rule serve_file_files)
        qed
        ultimately show ?thesis using cache_inv_files_of [of api' api1 budget] by simp
      qed
    qed (use r gone False in \<open>simp_all add: respond_http_def Let_def\<close>)
  qed
qed

lemma refuse_inv:
  assumes "cache_inv budget api" "refuse env rtype msg v r api = ret (k, api')"
  shows "cache_inv budget api'"
proof (cases "rtype = HTTP_FORM")
  case True
  with assms respond_http_inv show ?thesis by (auto simp: refuse_def)
next
  case False
  with assms(2) have "api' = snd (respond env (r\<lparr>body := json_error msg\<rparr>) api)"
    by (auto simp: refuse_def)
  with assms(1) cache_inv_files_of files_of_respond show ?thesis by blast
qed

lemma dispatch_inv:
  assumes inv: "cache_inv budget api" and d: "dispatch env rtype req rt v r api = ret (k, api')"
  shows "cache_inv budget api'"
proof -
  have simple: "cache_inv budget api'" if "respond env r' api = (k, api')" for r'
    using that inv files_of_respond [of env r' api] cache_inv_files_of [of api' api budget] by simp
  have gone: "cache_inv budget api'" if "respond_404 env api = (k, api')"
    using that inv files_of_respond_404 [of env api] cache_inv_files_of [of api' api budget] by simp
  show ?thesis
    using d respond_http_inv [OF inv] simple gone
    by (auto simp: dispatch_def bindP_eq_ret split: RequestResult.splits option.splits if_splits)
qed

lemma handle_request_inv:
  assumes inv: "cache_inv budget api" and r: "handle_request env rtype req api = ret (k, api')"
  shows "cache_inv budget api'"
proof -
  obtain req' key api1 where a: "attach_session env req api = (req', key, api1)"
    by (cases "attach_session env req api")
  then have inv1: "cache_inv budget api1"
    using inv cache_inv_files_of [of api1 api budget] files_of_attach [of env req api] by simp
  let ?r = "set_header session_name key new_response" and ?v = "request_view req'"
  let ?rk = "request_route_key rtype req'"
  have c: "cache_inv budget (snd (answer_captcha env req' key ?r api1))"
    using inv1 cache_inv_files_of [of "snd (answer_captcha env req' key ?r api1)" api1 budget] by simp
  show ?thesis
  proof (cases "rtype = HTTP \<or> ?rk = ''GET /api/captcha/'' \<or> um_find (routemap api1) ?rk = None")
    case True
    then consider "dispatch env rtype req' None ?v ?r api1 = ret (k, api')"
      | "answer_captcha env req' key ?r api1 = (k, api')"
      | "refuse env rtype ''Bad route.'' ?v ?r api1 = ret (k, api')"
      using r by (auto simp: handle_request_def a Let_def split: if_splits)
    then show ?thesis
      using c dispatch_inv [OF inv1] refuse_inv [OF inv1] by cases (blast, simp, blast)
  next
    case False
    then obtain rt where rt: "um_find (routemap api1) ?rk = Some rt" by auto
    obtain x b where x: "check_request env req' key ?rk rt api1 = (x, b)"
      by (cases "check_request env req' key ?rk rt api1")
    have "cache_inv budget b"
      using inv1 x cache_inv_files_of [of b api1 budget]
        files_of_check [of env req' key ?rk rt api1] by simp
    note step = dispatch_inv [OF this] refuse_inv [OF this]
    obtain v where "(case x of Some msg \<Rightarrow> refuse env rtype msg v ?r b
        | None \<Rightarrow> dispatch env rtype req' (um_find (routemap b) ?rk) v ?r b) = ret (k, api')"
      using False rt x r by (cases x) (auto simp: handle_request_def a Let_def bindP_eq_ret)
    then show ?thesis by (cases x) (auto intro: step)
  qed
qed

text \<open>One request after another; a request that faults or hangs leaves no new state.\<close>

definition serve :: "http_api \<Rightarrow> env \<times> string \<Rightarrow> http_api" where
  "serve api request =
     (case on_read (fst request) (snd request) api of
        Some (Inr (k, api')) \<Rightarrow> api' | _ \<Rightarrow> api)"

interpretation http_server: event_machine serve "cache_inv budget" "\<lambda>_ _. True" for budget
proof
  fix api and request :: "env \<times> string"
  assume inv: "cache_inv budget api"
  show "cache_inv budget (serve api request)"
  proof (cases "\<exists>k api'. on_read (fst request) (snd request) api = ret (k, api')")
    case True
    then obtain k api' where r: "on_read (fst request) (snd request) api = ret (k, api')" by blast
    then have "cache_inv budget api'"
      using handle_request_inv [OF inv] by (auto simp: on_read_def bindP_eq_ret)
    with r show ?thesis by (simp add: serve_def ret_def)
  next
    case False
    then have "serve api request = api"
      by (auto simp: serve_def ret_def split: option.split sum.split)
    with inv show ?thesis by simp
  qed
qed

section \<open>Templates that hang\<close>

lemma strip_parameters_stuck:
  assumes "find_sub ''}}}'' b = Some e" "find_sub ''{{{'' b = Some (e + 3)"
  shows "strip_parameters b = None"
proof -
  have "template_parameter b (e + 3) e = []" by (simp add: template_parameter_def)
  with assms show ?thesis by (subst strip_parameters.simps) (simp add: replace_all_empty)
qed

text \<open>What a template is once it has been stripped: no parameter that opens and closes is left.\<close>

lemma strip_parameters_done:
  assumes "strip_parameters b = Some r"
  shows "\<forall>b'. r = Inr b' \<longrightarrow> find_sub ''{{{'' b' = None \<or> find_sub ''}}}'' b' = None"
proof (rule strip_parameters.raw_induct [OF _ assms])
  fix f :: "string \<Rightarrow> string prog" and b r
  assume IH: "\<And>b r. f b = Some r \<Longrightarrow>
      \<forall>b'. r = Inr b' \<longrightarrow> find_sub ''{{{'' b' = None \<or> find_sub ''}}}'' b' = None"
    and eq: "(case find_sub ''{{{'' b of None \<Rightarrow> ret b
      | Some s \<Rightarrow> (case find_sub ''}}}'' b of None \<Rightarrow> ret b
        | Some e \<Rightarrow> bindP (replace_all b (template_parameter b s e) []) f)) = Some r"
  show "\<forall>b'. r = Inr b' \<longrightarrow> find_sub ''{{{'' b' = None \<or> find_sub ''}}}'' b' = None"
  proof (cases "find_sub ''{{{'' b = None \<or> find_sub ''}}}'' b = None")
    case True
    with eq have "ret b = Some r" by (auto split: option.splits)
    with True show ?thesis by (auto simp: ret_def)
  next
    case False
    with eq obtain s e where "bindP (replace_all b (template_parameter b s e) []) f = Some r"
      by auto
    then show ?thesis
      by (cases rule: bindP_cases) (auto simp: fail_def dest: IH)
  qed
qed

section \<open>Checks\<close>

lemma attach_session_keeps:
  assumes "attach_session env req api = (req', key, api')" "k \<noteq> session_name"
  shows "um_find (objectValues req') k = um_find (objectValues req) k"
  using assms by (auto simp: attach_session_def Let_def split: if_splits option.splits)

lemma attach_session_routes:
  "attach_session env req api = (req', key, api') \<Longrightarrow> routemap api' = routemap api"
  by (auto simp: attach_session_def Let_def)

lemma session_name_other: "''method'' \<noteq> session_name" "''route'' \<noteq> session_name"
  by (simp_all add: session_name_def)

lemma string_or_empty_cong:
  "um_find (objectValues req') k = um_find (objectValues req) k \<Longrightarrow>
    string_or_empty req' k = string_or_empty req k \<and> HasObj req' k t = HasObj req k t
    \<and> GetStr req' k = GetStr req k"
  by (simp add: string_or_empty_def HasObj_def GetStr_def)

lemma attach_session_route_key:
  assumes "attach_session env req api = (req', key, api')"
  shows "request_route_key rtype req' = request_route_key rtype req"
proof -
  note m = attach_session_keeps [OF assms session_name_other(1)]
    and r = attach_session_keeps [OF assms session_name_other(2)]
  have "HasObj req' ''method'' STRING = HasObj req ''method'' STRING"
      "HasObj req' ''route'' STRING = HasObj req ''route'' STRING"
      "string_or_empty req' ''method'' = string_or_empty req ''method''"
      "string_or_empty req' ''route'' = string_or_empty req ''route''"
    using string_or_empty_cong [OF m] string_or_empty_cong [OF r] by simp_all
  then show ?thesis by (simp only: request_route_key_def)
qed

section \<open>Where requests look\<close>

text \<open>The functions of the forms answer with pages whose routes begin with a slash.\<close>

definition forms_anchored :: "http_api \<Rightarrow> bool" where
  "forms_anchored api \<longleftrightarrow> (\<forall>key rt g req v. um_find (routemap api) key = Some rt \<longrightarrow>
     form_function rt = Some g \<longrightarrow> g req = Inr v \<longrightarrow> anchored (vroute v))"

text \<open>An API whose directory, cache and forms are those of another.\<close>

definition same_place :: "http_api \<Rightarrow> http_api \<Rightarrow> bool" where
  "same_place api b \<longleftrightarrow> files_of b = files_of api \<and>
     (\<forall>key. map_option form_function (um_find (routemap b) key) =
       map_option form_function (um_find (routemap api) key))"

lemma dispatch_confined:
  assumes "cacheable env api" "anchored (vroute v)"
    and same: "\<And>p. inside (public_directory api) p \<Longrightarrow> f p = fs env p"
    and forms: "\<And>g req v. Option.bind rt form_function = Some g \<Longrightarrow> g req = Inr v \<Longrightarrow> anchored (vroute v)"
  shows "dispatch (env\<lparr>fs := f\<rparr>) rtype req rt v r api = dispatch env rtype req rt v r api"
proof -
  have "bindP (lift_res (g req)) (\<lambda>v. respond_http (env\<lparr>fs := f\<rparr>) v r api) =
      bindP (lift_res (g req)) (\<lambda>v. respond_http env v r api)"
    if "Option.bind rt form_function = Some g" for g
    using respond_http_confined [OF assms(1) forms [OF that] same]
    by (cases "g req") (simp_all add: lift_res_def)
  then show ?thesis
    using respond_http_confined [OF assms(1,2) same]
    by (simp add: dispatch_def split: RequestResult.split option.split)
qed

lemma refuse_confined:
  assumes "cacheable env api" "anchored (vroute v)"
    "\<And>p. inside (public_directory api) p \<Longrightarrow> f p = fs env p"
  shows "refuse (env\<lparr>fs := f\<rparr>) rtype text v r api = refuse env rtype text v r api"
  using respond_http_confined [OF assms(1) _ assms(3)] assms(2) by (simp add: refuse_def)

lemma decode_parameters_vroute:
  "decode_parameters req ps v = Inr v' \<Longrightarrow> vroute v' = vroute v"
proof (induction ps arbitrary: v)
  case (Cons p ps)
  then show ?case by (cases p; cases "GetURLDecodedStr req (fst p)") fastforce+
qed simp

lemma same_place_respond:
  assumes "same_place api b" "cacheable env api" "forms_anchored api"
  shows "cacheable env b" "public_directory b = public_directory api" "forms_anchored b"
proof -
  have "forms_anchored b"
    unfolding forms_anchored_def
  proof (intro allI impI)
    fix key rt g req v
    assume b: "um_find (routemap b) key = Some rt" "form_function rt = Some g" "g req = Inr v"
    have "map_option form_function (um_find (routemap api) key) = Some (Some g)"
      using assms(1) b(1,2) unfolding same_place_def by (metis option.map(2))
    then obtain rt' where "um_find (routemap api) key = Some rt'" "form_function rt' = Some g" by auto
    with assms(3) b(3) show "anchored (vroute v)" unfolding forms_anchored_def by blast
  qed
  then show "cacheable env b" "public_directory b = public_directory api" "forms_anchored b"
    using assms(1,2) cacheable_files_of [of b api env] by (simp_all add: same_place_def files_of_def)
qed

lemma check_request_place:
  assumes "check_request env req key rk rt api = (x, b)" "um_find (routemap api) rk = Some rt"
  shows "same_place api b"
proof -
  have "files_of b = files_of api" using files_of_check [of env req key rk rt api] assms(1) by simp
  moreover have "routemap (set_captcha key msg c) = routemap c" for key msg c
    by (simp add: set_captcha_def split: option.split)
  then have "routemap b = routemap api \<or> routemap b = routemap (note_call env rk rt api)"
    using assms(1) by (auto simp: check_request_def Let_def split: option.splits if_splits)
  ultimately show ?thesis using assms(2) by (auto simp: same_place_def note_call_def)
qed

lemma handle_request_confined:
  assumes cache: "cacheable env api" and forms: "forms_anchored api"
    and route: "anchored (string_or_empty req ''route'')"
    and same: "\<And>p. inside (public_directory api) p \<Longrightarrow> f p = fs env p"
  shows "handle_request (env\<lparr>fs := f\<rparr>) rtype req api = handle_request env rtype req api"
proof -
  obtain req' key api' where a: "attach_session env req api = (req', key, api')"
    by (cases "attach_session env req api")
  have place: "same_place api api'"
    using files_of_attach [of env req api] a attach_session_routes [OF a] by (simp add: same_place_def)
  let ?v = "request_view req'" and ?rk = "request_route_key rtype req'"
  have v: "anchored (vroute ?v)"
    using route string_or_empty_cong [OF attach_session_keeps [OF a session_name_other(2)]]
    by (simp add: request_view_def)
  have d: "dispatch (env\<lparr>fs := f\<rparr>) rtype req' (um_find (routemap b) k) v r b =
        dispatch env rtype req' (um_find (routemap b) k) v r b"
    and d': "dispatch (env\<lparr>fs := f\<rparr>) rtype req' None v r b = dispatch env rtype req' None v r b"
    and u: "refuse (env\<lparr>fs := f\<rparr>) rtype msg v r b = refuse env rtype msg v r b"
    if "same_place api b" "anchored (vroute v)" for rtype k v r b msg
  proof -
    note b = same_place_respond [OF that(1) cache forms]
    have s: "\<And>p. inside (public_directory b) p \<Longrightarrow> f p = fs env p" using same b(2) by simp
    have g: "\<And>g req v. Option.bind (um_find (routemap b) k) form_function = Some g \<Longrightarrow> g req = Inr v \<Longrightarrow>
        anchored (vroute v)"
      using b(3) by (auto simp: forms_anchored_def bind_eq_Some_conv)
    show "dispatch (env\<lparr>fs := f\<rparr>) rtype req' (um_find (routemap b) k) v r b =
        dispatch env rtype req' (um_find (routemap b) k) v r b"
      by (rule dispatch_confined [OF b(1) that(2) s g])
    show "dispatch (env\<lparr>fs := f\<rparr>) rtype req' None v r b = dispatch env rtype req' None v r b"
      by (rule dispatch_confined [OF b(1) that(2) s]) (simp_all add: bind_eq_Some_conv)
    show "refuse (env\<lparr>fs := f\<rparr>) rtype msg v r b = refuse env rtype msg v r b"
      by (rule refuse_confined [OF b(1) that(2) s])
  qed
  show ?thesis
  proof (cases "rtype = HTTP \<or> ?rk = ''GET /api/captcha/'' \<or> um_find (routemap api') ?rk = None")
    case True
    then show ?thesis
      using v place by (auto simp: handle_request_def a Let_def d' u)
  next
    case False
    then obtain rt where rt: "um_find (routemap api') ?rk = Some rt" by auto
    obtain x b where x: "check_request env req' key ?rk rt api' = (x, b)"
      by (cases "check_request env req' key ?rk rt api'")
    have b: "same_place api b"
      using check_request_place [OF x rt] place by (simp add: same_place_def)
    show ?thesis
    proof (cases "decode_parameters req' (required_parameters rt) ?v")
      case (Inr w)
      have w: "anchored (vroute w)" using decode_parameters_vroute [OF Inr] v by simp
      show ?thesis
        using False rt x d [OF b w] u [OF b w] Inr
        by (cases x) (simp_all add: handle_request_def a Let_def)
    qed (use False rt in \<open>simp add: handle_request_def a Let_def\<close>)
  qed
qed

lemma decode_parameters_missing:
  assumes "(k, t) \<in> set ps" "um_find (objectValues req) k = None"
  shows "\<exists>e. decode_parameters req ps v = Inl e"
  using assms
proof (induction ps arbitrary: v)
  case (Cons p ps)
  show ?case
  proof (cases "GetURLDecodedStr req (fst p)")
    case (Inr s)
    have "p \<noteq> (k, t)"
    proof
      assume "p = (k, t)"
      with Cons.prems(2) Inr show False by (simp add: GetURLDecodedStr_def GetStr_def)
    qed
    with Cons Inr show ?thesis by (cases p) auto
  qed (cases p; simp)
qed simp

section \<open>What the HTTP server promises\<close>

text \<open>
  C2. The server does not look outside of its public directory: the answer to a request and its
  effect are the same for any two file systems that agree on the paths inside the directory, with
  a slash after its name and no two dots.  This holds while the route that was read from the
  request, whose parameters and headers may replace that of its first line, begins with a slash;
  while the functions of forms answer with such routes; and while the cache lock is free and the
  cache has room for the files of the directory.
\<close>

theorem static_files_confined:
  assumes "cacheable env api" "forms_anchored api"
    "\<And>rtype req. parse_http_request request (new_typed OBJECT) = ret (rtype, req) \<Longrightarrow>
      anchored (string_or_empty req ''route'')"
    "\<And>p. inside (public_directory api) p \<Longrightarrow> f p = fs env p"
  shows "on_read (env\<lparr>fs := f\<rparr>) request api = on_read env request api"
proof (cases "parse_http_request request (new_typed OBJECT)")
  case (Some r)
  show ?thesis
  proof (cases r)
    case (Inr p)
    with Some have p: "parse_http_request request (new_typed OBJECT) = ret (fst p, snd p)" by (simp add: ret_def)
    have "handle_request (env\<lparr>fs := f\<rparr>) (fst p) (snd p) api = handle_request env (fst p) (snd p) api"
      by (rule handle_request_confined [OF assms(1,2) assms(3) [OF p] assms(4)])
    with p show ?thesis by (simp add: on_read_def split_beta)
  qed (simp add: on_read_def Some bindP_def)
qed (simp add: on_read_def)

definition sample_env :: env where
  "sample_env = \<lparr>fs = (\<lambda>p. if p = ''pub/a.html'' then Regular 1 ''hi'' True else Missing),
     now_ms = 5000, client_detail = ''1.2.3.4'', send_ok = True, lock_free = True,
     captcha_draws = [0, 1, 2, 3, 4, 5], secret_captcha_url = [], sha256_hash = (\<lambda>s. ''h'' @ s),
     https_get = (\<lambda>_. []), decrypt = (\<lambda>_. Inl (RuntimeError ''bad''))\<rparr>"

definition sample_api :: http_api where
  "sample_api = \<lparr>file_cache = [], sessions = [], file_cache_remaining_bytes = 1000,
     public_directory = ''pub'', routemap =
       [(''POST /api/add/'', (new_route [(''name'', STRING)] 1000 True)
           \<lparr>route_function := Some (\<lambda>_. Inr ''ok'')\<rparr>)], out = []\<rparr>"

lemma plain_request_strings:
  assumes "plain_in 1 path" "wf_pairs 2 3 params" "\<forall>(k, v) \<in> set params. no_json v"
    "map_of (rev (request_bindings ''GET'' path params [])) ''Content-Type'' = None"
  shows "\<exists>obj. parse_http_request (print_request ''GET'' path params [] []) (new_typed OBJECT) =
      ret (HTTP, obj)
    \<and> (\<forall>k v. map_of (rev (request_bindings ''GET'' path params [])) k = Some v \<longrightarrow>
        GetStr obj k = Inr v \<and> HasObj obj k STRING \<and> string_or_empty obj k = v)"
proof -
  let ?bs = "request_bindings ''GET'' path params []"
  have "GetStr (request_members ?bs) k = Inr v \<and> HasObj (request_members ?bs) k STRING"
    if "map_of (rev ?bs) k = Some v" for k v
  proof -
    have s: "is_string (request_members ?bs) k v"
      using store_headers_find(1) [OF that] by (simp add: request_members_def)
    then show ?thesis
      using is_string_GetStr [OF s] by (auto simp: is_string_def HasObj_def split: option.splits)
  qed
  then show ?thesis
    using parse_plain_request [of "''GET''" "''GET /''" path params "[]" "[]"] assms
    by (auto simp: after_head_def request_members_content_type methods_def string_or_empty_def)
qed

lemma static_files_confined_witness:
  "on_read (sample_env\<lparr>fs := (\<lambda>p. if p = ''pub/a.html'' then Regular 1 ''hi'' True
      else if p = ''pub-private/x'' \<or> p = ''pub/../secret'' then Regular 1 ''key'' True else Missing)\<rparr>)
     (print_request ''GET'' ''../secret'' [] [] []) sample_api =
   on_read sample_env (print_request ''GET'' ''../secret'' [] [] []) sample_api"
proof (rule static_files_confined)
  show "cacheable sample_env sample_api"
    by (simp add: cacheable_def sample_env_def sample_api_def)
  show "forms_anchored sample_api"
    by (auto simp: forms_anchored_def sample_api_def new_route_def um_find_def split: if_splits)
  fix rtype req
  assume "parse_http_request (print_request ''GET'' ''../secret'' [] [] []) (new_typed OBJECT) =
    ret (rtype, req)"
  moreover have "\<exists>obj. parse_http_request (print_request ''GET'' ''../secret'' [] [] [])
      (new_typed OBJECT) = ret (HTTP, obj)
    \<and> (\<forall>k v. map_of (rev (request_bindings ''GET'' ''../secret'' [] [])) k = Some v \<longrightarrow>
        GetStr obj k = Inr v \<and> HasObj obj k STRING \<and> string_or_empty obj k = v)"
    by (rule plain_request_strings) (simp_all add: request_bindings_def)
  ultimately have "string_or_empty req ''route'' = ''/../secret''"
    by (auto simp: request_bindings_def)
  then show "anchored (string_or_empty req ''route'')" by (simp add: anchored_def)
next
  fix p assume p: "inside (public_directory sample_api) p"
  have "has_dots ''../secret''" by code_simp
  then have "\<not> inside ''pub'' ''pub-private/x''" "\<not> inside ''pub'' ''pub/../secret''"
    by (auto simp: inside_def)
  with p show "(\<lambda>p. if p = ''pub/a.html'' then Regular 1 ''hi'' True
      else if p = ''pub-private/x'' \<or> p = ''pub/../secret'' then Regular 1 ''key'' True
      else Missing) p = fs sample_env p"
    by (auto simp: sample_env_def sample_api_def)
qed

text \<open>
  A request whose route does not begin with a slash leaves the directory: the name of the
  directory and the route are put together as they are, so that the route \<open>-private/x\<close> asks for a
  file of another directory, and is served it.  A query parameter called \<open>route\<close> sets the route.
\<close>

theorem route_leaves_the_directory:
  assumes "parse_http_request request (new_typed OBJECT) = ret (HTTP, req)"
    "GetStr req ''route'' = Inr route" "HasObj req ''route'' STRING"
    "string_or_empty req ''method'' = ''GET''" "\<not> has_dots route"
    "fs env (public_directory api @ route) = Regular m content True"
    "\<not> endsWith (public_directory api @ route) ''.html''"
    "\<not> um_count (file_cache api) (public_directory api @ route)"
    "int (length content) < file_cache_remaining_bytes api" "lock_free env" "send_ok env"
  shows "\<exists>n api' head chunks. on_read env request api = ret (n, api')
    \<and> out api' = out api @ head # chunks \<and> concat chunks = content"
proof -
  let ?path = "public_directory api @ route"
  let ?file = "\<lparr>data = Some content, data_length = length content, modified = m\<rparr>"
  obtain req' key b where a: "attach_session env req api = (req', key, b)"
    by (cases "attach_session env req api")
  have b: "public_directory b = public_directory api" "file_cache b = file_cache api"
    "file_cache_remaining_bytes b = file_cache_remaining_bytes api" "out b = out api"
    using a by (auto simp: attach_session_def Let_def)
  have v: "vroute (request_view req') = route" "vmethod (request_view req') = ''GET''"
    using assms(2-4) string_or_empty_cong [OF attach_session_keeps [OF a session_name_other(1)]]
      string_or_empty_cong [OF attach_session_keeps [OF a session_name_other(2)]]
    by (simp_all add: request_view_def) (simp add: string_or_empty_def)
  let ?r = "set_header ''Content-Type'' (content_type ?path) (set_header session_name key new_response)"
  let ?b = "b\<lparr>file_cache := um_set ?path ?file (file_cache b),
    file_cache_remaining_bytes := file_cache_remaining_bytes b - int (length content)\<rparr>"
  have refresh: "refresh_cache ?path m b = b"
    using assms(8) b(2) by (simp add: refresh_cache_def um_count_find split: option.split)
  have fill: "fill_cache env ?path m content True b = (False, ?b)"
    using assms(8-10) b by (simp add: fill_cache_def Let_def)
  have "on_read env request api = respond_cached_file env ?r ?file ?b"
    using assms(1,5-7) a v b refresh fill clean_dots_id [of route]
    by (simp add: on_read_def handle_request_def dispatch_def respond_http_def served_path_def
        serve_file_def Let_def)
  moreover have "concat (cached_chunks content 0) = content"
    using cached_chunks_concat [of 0 content] by simp
  ultimately show ?thesis
    using assms(11) b(4)
    by (auto simp: respond_cached_file_def respond_def server_send_def send_chunks_ok Let_def)
qed

lemma route_leaves_the_directory_witness:
  "\<exists>n api' head chunks. on_read (sample_env\<lparr>fs := (\<lambda>p. if p = ''pub-private/x'' then Regular 1 ''key'' True
       else Missing)\<rparr>) (print_request ''GET'' [] [(''route'', ''-private/x'')] [] []) sample_api =
       ret (n, api')
    \<and> out api' = out sample_api @ head # chunks \<and> concat chunks = ''key''"
proof -
  let ?ps = "[(''route'', ''-private/x'')]"
  have "\<exists>obj. parse_http_request (print_request ''GET'' [] ?ps [] []) (new_typed OBJECT) =
      ret (HTTP, obj)
    \<and> (\<forall>k v. map_of (rev (request_bindings ''GET'' [] ?ps [])) k = Some v \<longrightarrow>
        GetStr obj k = Inr v \<and> HasObj obj k STRING \<and> string_or_empty obj k = v)"
    by (rule plain_request_strings) (simp_all add: request_bindings_def no_json_def)
  then obtain obj where obj: "parse_http_request (print_request ''GET'' [] ?ps [] [])
      (new_typed OBJECT) = ret (HTTP, obj)"
    "GetStr obj ''route'' = Inr ''-private/x''" "HasObj obj ''route'' STRING"
    "string_or_empty obj ''method'' = ''GET''"
    by (auto simp: request_bindings_def)
  show ?thesis
  proof (rule route_leaves_the_directory [OF obj, where m = 1])
    show "\<not> has_dots ''-private/x''"
      "\<not> endsWith (public_directory sample_api @ ''-private/x'') ''.html''"
      "\<not> um_count (file_cache sample_api) (public_directory sample_api @ ''-private/x'')"
      "int (length ''key'') < file_cache_remaining_bytes sample_api" by code_simp+
  qed (simp_all add: sample_env_def sample_api_def)
qed

text \<open>
  When a file is not in the cache and does not fit, the server sends what is at the raw route
  of the request, a path of the whole file system with its dots, instead of the file it looked
  up: here a plain text file, with the headers of the one and the contents of the other.
\<close>

theorem uncached_file_is_read_from_raw_route:
  assumes "fs env (public_directory api @ clean_dots (vroute v)) = Regular m content b"
    "file_cache_remaining_bytes api \<le> int (length content)"
    "\<not> um_count (file_cache api) (public_directory api @ clean_dots (vroute v))"
    "\<not> endsWith (public_directory api @ clean_dots (vroute v)) ''.html''"
    "vmethod v \<noteq> ''HEAD''" "send_ok env" "fs env (vroute v) = Regular m' secret True"
  shows "\<exists>n head chunks api'. respond_http env v r api = ret (n, api')
    \<and> out api' = out api @ head # chunks \<and> concat chunks = secret"
proof -
  let ?path = "public_directory api @ clean_dots (vroute v)"
  let ?r = "set_header ''Content-Type'' (content_type ?path) r"
  have "refresh_cache ?path m api = api"
    using assms(3) by (simp add: refresh_cache_def um_count_find split: option.split)
  then have "respond_http env v r api = respond_view env (v\<lparr>vsize := int (length content)\<rparr>) ?r api"
    using assms(1-5)
    by (simp add: respond_http_def served_path_def fill_cache_def serve_file_def Let_def
        um_count_find)
  then show ?thesis
    using assms(6,7) read_chunks_concat [of secret]
    by (simp add: respond_view_def respond_def server_send_def send_chunks_ok)
qed

lemma uncached_file_is_read_from_raw_route_witness:
  "\<exists>env api n head chunks api'. respond_http env (request_view (new_typed OBJECT)
       \<lparr>vroute := ''/etc/passwd''\<rparr>) new_response api = ret (n, api')
    \<and> out api' = [head] @ chunks \<and> concat chunks = ''root:x:0''"
proof -
  let ?env = "sample_env\<lparr>fs := (\<lambda>p. if p = ''pub/etc/passwd'' then Regular 1 ''demo'' True
      else if p = ''/etc/passwd'' then Regular 1 ''root:x:0'' True else Missing)\<rparr>"
  let ?api = "sample_api\<lparr>file_cache_remaining_bytes := 0\<rparr>"
  let ?v = "(request_view (new_typed OBJECT))\<lparr>vroute := ''/etc/passwd''\<rparr>"
  have c: "clean_dots ''/etc/passwd'' = ''/etc/passwd''" by code_simp
  have e: "\<not> endsWith ''pub/etc/passwd'' ''.html''" by code_simp
  have m: "vmethod (request_view (new_typed OBJECT)) = []"
    by (simp add: request_view_def string_or_empty_def HasObj_def)
  have "\<exists>n head chunks api'. respond_http ?env ?v new_response ?api = ret (n, api')
      \<and> out api' = out ?api @ head # chunks \<and> concat chunks = ''root:x:0''"
    by (rule uncached_file_is_read_from_raw_route)
      (use c e in \<open>simp_all add: sample_env_def sample_api_def m\<close>)
  then show ?thesis by (auto simp: sample_api_def) blast
qed

text \<open>
  C8. Over any sequence of requests the files in the cache and the remaining budget never exceed
  the budget the server started with, the remaining budget stays positive, no file is cached
  twice, and a cached file has the length that is announced for it.
\<close>

theorem cache_stays_in_budget:
  assumes "cache_inv budget api"
  shows "cache_inv budget (run_steps serve api requests)"
  by (rule http_server.run_inv_always [OF assms]) simp

lemma cache_stays_in_budget_witness:
  "cache_inv 1000 (run_steps serve sample_api [(sample_env, ''GET /a.html HTTP/1.1'' @ [LF, LF])])"
  by (rule cache_stays_in_budget) (simp add: cache_inv_def sample_api_def um_wf_def)

text \<open>
  A cached file is sent completely and in order, whatever its length, in pieces of at most
  the buffer size, after headers that announce its length.
\<close>

theorem cached_file_is_sent_whole:
  assumes "data file = Some d" "length d = data_length file" "send_ok env"
  shows "\<exists>n chunks. respond_cached_file env r file api =
      ret (n, api\<lparr>out := out api
        @ response_str (set_header ''Content-Length'' (to_string (length d)) r) # chunks\<rparr>)
    \<and> concat chunks = d"
  using assms cached_chunks_concat [of 0 d]
  by (auto simp: respond_cached_file_def respond_def server_send_def send_chunks_ok
      with_content_length_def set_header_def Let_def)

lemma cached_file_is_sent_whole_witness:
  "\<exists>n chunks. respond_cached_file sample_env new_response
      \<lparr>data = Some ''abc'', data_length = 3, modified = 1\<rparr> sample_api =
      ret (n, sample_api\<lparr>out := out sample_api
        @ response_str (set_header ''Content-Length'' (to_string (length ''abc'')) new_response) # chunks\<rparr>)
    \<and> concat chunks = ''abc''"
  by (rule cached_file_is_sent_whole) (simp_all add: sample_env_def)

text \<open>
  A call of a route that lacks one of the required parameters is never refused with the
  message that is meant for it: decoding the parameters comes first and leaves the handler with
  an exception that nothing catches.
\<close>

theorem missing_parameter_is_fatal:
  assumes "rtype \<noteq> HTTP" "request_route_key rtype req \<noteq> ''GET /api/captcha/''"
    "um_find (routemap api) (request_route_key rtype req) = Some rt"
    "(k, t) \<in> set (required_parameters rt)" "um_find (objectValues req) k = None"
    "k \<noteq> session_name"
  shows "\<exists>e. handle_request env rtype req api = fail e"
proof -
  obtain req' key api' where a: "attach_session env req api = (req', key, api')"
    by (cases "attach_session env req api")
  have "um_find (objectValues req') k = None"
    using attach_session_keeps [OF a assms(6)] assms(5) by simp
  from decode_parameters_missing [OF assms(4) this, of "request_view req'"]
  obtain e where "decode_parameters req' (required_parameters rt) (request_view req') = Inl e"
    by blast
  then show ?thesis
    using assms(1-3) attach_session_route_key [OF a, of rtype] attach_session_routes [OF a]
    by (simp add: handle_request_def a)
qed

definition sample_call :: JsonObject where
  "sample_call = JsonObject OBJECT []
     [(''method'', new_string ''POST''), (''route'', new_string ''/api/add'')] []"

lemma sample_route_key: "request_route_key HTTP_API sample_call = ''POST /api/add/''"
  by code_simp

lemma missing_parameter_is_fatal_witness:
  "\<exists>e. handle_request sample_env HTTP_API sample_call sample_api = fail e"
proof (rule missing_parameter_is_fatal [where k = "''name''" and t = STRING])
  show "um_find (routemap sample_api) (request_route_key HTTP_API sample_call) =
      Some ((new_route [(''name'', STRING)] 1000 True)\<lparr>route_function := Some (\<lambda>_. Inr ''ok'')\<rparr>)"
    unfolding sample_route_key by (simp add: sample_api_def um_find_def)
  show "request_route_key HTTP_API sample_call \<noteq> ''GET /api/captcha/''"
    unfolding sample_route_key by simp
qed (simp_all add: session_name_def sample_call_def um_find_def new_route_def)

text \<open>
  C12. A second call of a rate-limited route by the same client within the minimum interval is
  refused, whatever else either request holds, and is not counted as a call.
\<close>

theorem rate_limit_holds:
  assumes "check_request env1 req1 key1 route_key rt api = (x, api1)"
    "0 < minimum_ms_between_call rt" "\<not> rate_limited env1 rt"
    "um_find (routemap api1) route_key = Some rt2" "client_detail env2 = client_detail env1"
    "now_ms env2 - now_ms env1 < minimum_ms_between_call rt"
  shows "check_request env2 req2 key2 route_key rt2 api1 =
    (Some ''This route is rate-limited, wait a bit.'', api1)"
proof -
  have "routemap (set_captcha key msg b) = routemap b" for key msg b
    by (simp add: set_captcha_def split: option.split)
  then have "routemap api1 = routemap (note_call env1 route_key rt api)"
    using assms(1-3) by (auto simp: check_request_def Let_def split: option.splits if_splits)
  then have "rt2 = rt\<lparr>client_ms_at_call :=
      um_set (client_detail env1) (now_ms env1) (client_ms_at_call rt)\<rparr>"
    using assms(4) by (simp add: note_call_def)
  then show ?thesis
    using assms(2,5,6) by (simp add: check_request_def rate_limited_def)
qed

definition sample_route :: route where
  "sample_route = (new_route [] 1000 False)\<lparr>route_function := Some (\<lambda>_. Inr ''ok'')\<rparr>"

lemma rate_limit_holds_witness:
  "\<exists>api1 rt2. check_request (sample_env\<lparr>now_ms := 5400\<rparr>) sample_call [] ''GET /api/x/'' rt2 api1 =
    (Some ''This route is rate-limited, wait a bit.'', api1)"
proof -
  let ?api1 = "note_call sample_env ''GET /api/x/'' sample_route sample_api"
  let ?rt2 = "sample_route\<lparr>client_ms_at_call := [(''1.2.3.4'', 5000)]\<rparr>"
  have "check_request (sample_env\<lparr>now_ms := 5400\<rparr>) sample_call [] ''GET /api/x/'' ?rt2 ?api1 =
      (Some ''This route is rate-limited, wait a bit.'', ?api1)"
    by (rule rate_limit_holds [where ?env1.0 = sample_env and ?req1.0 = sample_call and ?key1.0 = "[]"
          and rt = sample_route and api = sample_api and x = None])
      (simp_all add: check_request_def sample_route_def new_route_def rate_limited_def note_call_def
        sample_env_def)
  then show ?thesis by blast
qed

text \<open>
  The captcha of a route is no obstacle to a client that never asked for one: the session
  starts with an empty answer, so an empty answer is correct.
\<close>

theorem empty_captcha_passes:
  assumes "requires_human rt" "minimum_ms_between_call rt = 0"
    "missing_parameter req (required_parameters rt) = None"
    "is_string req ''captcha'' []" "session_captcha key api = []"
  shows "\<exists>api'. check_request env req key route_key rt api = (None, api')"
proof -
  have "HasObj req ''captcha'' STRING"
    using assms(4) by (auto simp: is_string_def HasObj_def split: option.splits)
  then show ?thesis
    using assms(1-3,5) is_string_GetStr [OF assms(4)] by (simp add: check_request_def)
qed

lemma empty_captcha_passes_witness:
  "\<exists>api'. check_request sample_env (JsonObject OBJECT [] [(''captcha'', new_string [])] [])
     ''s'' ''GET /api/x/'' (new_route [] 0 True) sample_api = (None, api')"
  by (rule empty_captcha_passes)
    (simp_all add: new_route_def is_string_def um_find_def new_string_def session_captcha_def
      sample_api_def)

text \<open>
  A request that is bare JSON never reaches the function of its route: when all the checks
  pass, it is answered with the page for what is not found.
\<close>

theorem bare_json_is_never_served:
  assumes "attach_session env req api = (req', key, api1)"
    "request_route_key API req \<noteq> ''GET /api/captcha/''"
    "um_find (routemap api) (request_route_key API req) = Some rt"
    "decode_parameters req' (required_parameters rt) (request_view req') = Inr v"
    "check_request env req' key (request_route_key API req) rt api1 = (None, api2)"
  shows "handle_request env API req api = ret (respond_404 env api2)"
  using assms attach_session_route_key [OF assms(1), of API] attach_session_routes [OF assms(1)]
  by (simp add: handle_request_def dispatch_def)

lemma bare_json_is_never_served_witness:
  "\<exists>api2. handle_request sample_env API sample_call
     (sample_api\<lparr>routemap := [(''POST /api/add/'', sample_route\<lparr>minimum_ms_between_call := 0\<rparr>)]\<rparr>) =
     ret (respond_404 sample_env api2)"
proof -
  let ?rt = "sample_route\<lparr>minimum_ms_between_call := 0\<rparr>"
  let ?api = "sample_api\<lparr>routemap := [(''POST /api/add/'', ?rt)]\<rparr>"
  obtain req' key api1 where a: "attach_session sample_env sample_call ?api = (req', key, api1)"
    by (cases "attach_session sample_env sample_call ?api")
  have k: "request_route_key API sample_call = ''POST /api/add/''" by code_simp
  have "handle_request sample_env API sample_call ?api = ret (respond_404 sample_env api1)"
    by (rule bare_json_is_never_served [OF a, where rt = ?rt])
      (simp_all add: k um_find_def sample_route_def new_route_def check_request_def)
  then show ?thesis by blast
qed

text \<open>
  A page whose first closing braces stand directly before its first opening braces hangs the
  server: the stretch between them has length zero, and replacing it never ends.  Values of
  parameters are put into the page before, so a client can cause it.
\<close>

theorem template_hangs:
  assumes "substitute params b = ret b'" "find_sub ''}}}'' b' = Some e"
    "find_sub ''{{{'' b' = Some (e + 3)"
  shows "render params b = None"
  using strip_parameters_stuck [OF assms(2,3)] assms(1) by (simp add: render_def)

lemma template_hangs_witness: "render [(''status'', ''}}}{{{'')] ''<p>{{{status}}}</p>'' = None"
proof (rule template_hangs)
  show "substitute [(''status'', ''}}}{{{'')] ''<p>{{{status}}}</p>'' = ret ''<p>}}}{{{</p>''"
    by (simp add: replace_all_def replace_loop.simps starts_with_def)
  show "find_sub ''}}}'' ''<p>}}}{{{</p>'' = Some 3" by code_simp
  show "find_sub ''{{{'' ''<p>}}}{{{</p>'' = Some (3 + 3)" by code_simp
qed

end
