(* ===== verification/Websocket.thy ===== *)
theory Websocket
  imports Http
begin

unbundle bit_operations_syntax

text \<open>
  \<open>cpp-source/websocket.hpp\<close>, \<open>cpp-source/websocket-server.cpp\<close> and
  \<open>cpp-source/tls-websocket-server.cpp\<close>: frames, the handshake, and the two servers that put
  them between \<open>EpollServer\<close> and the application.
\<close>

section \<open>Frames\<close>

text \<open>
  The packet buffer goes on behind the message; what is read there is never used, because the
  loop over the payload stops at the end of the message, so it reads as 0.
\<close>

definition byte_at :: "string \<Rightarrow> nat \<Rightarrow> char" where
  "byte_at s i = (if i < length s then s ! i else NUL)"

definition xor_char :: "char \<Rightarrow> char \<Rightarrow> char" where
  "xor_char c m = char_of (uchar c XOR uchar m)"

fun unmask :: "string \<Rightarrow> nat \<Rightarrow> string \<Rightarrow> string" where
  "unmask mk i [] = []"
| "unmask mk i (c # cs) = xor_char c (byte_at mk (i mod 4)) # unmask mk (i + 1) cs"

text \<open>
  The length: 16 bits in the order of the machine for 126, two sign-extended characters for 127.
\<close>

definition payload_length :: "string \<Rightarrow> 64 word" where
  "payload_length d =
     (let len = uchar (byte_at d 1) mod 128 in
      if len = 126 then of_nat (uchar (byte_at d 2) + 256 * uchar (byte_at d 3))
      else if len = 127 then
        word_of_int (schar (byte_at d 2)) + push_bit 8 (word_of_int (schar (byte_at d 3)))
      else of_nat len)"

definition payload_offset :: "string \<Rightarrow> nat" where
  "payload_offset d =
     (let len = uchar (byte_at d 1) mod 128 in
      if len = 126 then 4 else if len = 127 then 10 else 2)"

definition parse_frame :: "string \<Rightarrow> string" where
  "parse_frame d =
     (let n = unat (payload_length d);
          offset = payload_offset d;
          masked = (128 \<le> uchar (byte_at d 1));
          mk = (if masked then map (byte_at d) [offset, offset + 1, offset + 2, offset + 3]
                  else [NUL, NUL, NUL, NUL]);
          offset = (if masked then offset + 4 else offset)
      in unmask mk 0 (take n (drop offset d)))"

definition create_frame :: "string \<Rightarrow> string" where
  "create_frame d =
     (let n = length d in
      char_of (0x81 :: nat)
        # (if n \<le> 125 then [char_of n]
           else if n \<le> 65535 then
             [char_of (126 :: nat), char_of (n mod 65536 div 256), char_of (n mod 65536 mod 256)]
           else [])
        @ d)"

section \<open>The handshake and the messages\<close>

text \<open>
  \<open>accept_hash\<close> is the base-64 text of the SHA-1 hash, from the cryptographic library.
\<close>

definition get_handshake_response :: "(string \<Rightarrow> string) \<Rightarrow> string \<Rightarrow> string" where
  "get_handshake_response accept_hash key =
     ''HTTP/1.1 101 Switching Protocols'' @ [CR, LF] @ ''Upgrade: websocket'' @ [CR, LF]
     @ ''Connection: Upgrade'' @ [CR, LF] @ ''Sec-WebSocket-Accept: ''
     @ accept_hash (key @ ''258EAFA5-E914-47DA-95CA-C5AB0DC85B11'') @ [CR, LF] @ [CR, LF]"

record websocket =
  client_handshake_complete :: "(int, bool) umap"
  sent :: "(int \<times> string) list"

definition handshake_complete :: "int \<Rightarrow> websocket \<Rightarrow> bool \<times> websocket" where
  "handshake_complete fd w =
     (case um_find (client_handshake_complete w) fd of
        Some b \<Rightarrow> (b, w)
      | None \<Rightarrow> (False, w\<lparr>client_handshake_complete :=
          um_set fd False (client_handshake_complete w)\<rparr>))"

text \<open>
  \<open>send\<close> of both servers: a frame once the handshake is complete; \<open>ok\<close> is whether the base
  class can write.
\<close>

definition ws_send :: "bool \<Rightarrow> int \<Rightarrow> string \<Rightarrow> websocket \<Rightarrow> bool \<times> websocket" where
  "ws_send ok fd d w =
     (let (complete, w) = handshake_complete fd w;
          d = (if complete then create_frame d else d)
      in if ok then (False, w\<lparr>sent := sent w @ [(fd, d)]\<rparr>) else (True, w))"

text \<open>\<open>accept_continuation\<close>: a new connection starts without a handshake.\<close>

definition ws_accept :: "int \<Rightarrow> websocket \<Rightarrow> websocket" where
  "ws_accept fd w =
     w\<lparr>client_handshake_complete := um_set fd False (client_handshake_complete w)\<rparr>"

definition ws_message :: "(int \<Rightarrow> string \<Rightarrow> int) \<Rightarrow> int \<Rightarrow> string \<Rightarrow> int" where
  "ws_message callback fd message =
     (if schar (byte_at message 0) = 3 \<and> schar (byte_at message 1) = - 23 then - 1
      else if message = ''ping'' then int (length ''pong'')
      else callback fd message)"

definition ws_recv ::
  "(string \<Rightarrow> string) \<Rightarrow> (int \<Rightarrow> string \<Rightarrow> int) \<Rightarrow> bool \<Rightarrow> int \<Rightarrow> string \<Rightarrow> websocket \<Rightarrow>
    (int \<times> websocket) prog" where
  "ws_recv accept_hash callback ok fd d w =
     (let (complete, w) = handshake_complete fd w in
      if complete then ret (ws_message callback fd (parse_frame d), w)
      else bindP (parse_http_request d (new_typed OBJECT)) (\<lambda>(_, req).
        if \<not> HasObj req ''Sec-WebSocket-Key'' STRING then ret (- 1, w)
        else bindP (lift_res (GetStr req ''Sec-WebSocket-Key'')) (\<lambda>key.
          case ws_send ok fd (get_handshake_response accept_hash key) w of
            (True, w) \<Rightarrow> ret (- 1, w)
          | (False, w) \<Rightarrow> ret (1, w\<lparr>client_handshake_complete :=
              um_set fd True (client_handshake_complete w)\<rparr>))))"

section \<open>Frames and their payload\<close>

lemma unmask_zero: "set mk \<subseteq> {NUL} \<Longrightarrow> unmask mk i cs = cs"
proof (induction cs arbitrary: i)
  case (Cons c cs)
  have "byte_at mk k = NUL" for k
    using Cons.prems by (auto simp: byte_at_def dest!: nth_mem)
  then show ?case using Cons by (simp add: xor_char_def uchar_def)
qed simp

lemma xor_char_xor_char: "xor_char (xor_char c m) m = c"
proof -
  have lt: "uchar c XOR uchar m < 2 ^ 8"
  proof -
    have "take_bit 8 (uchar c XOR uchar m) = uchar c XOR uchar m"
      using uchar_lt [of c] uchar_lt [of m]
      by (simp only: take_bit_xor) (simp add: take_bit_nat_eq_self)
    then show ?thesis by (simp only: take_bit_nat_eq_self_iff)
  qed
  have "(uchar c XOR uchar m) XOR uchar m = uchar c" by (simp add: ac_simps)
  with lt show ?thesis by (simp add: xor_char_def uchar_char_of)
qed

lemma unmask_unmask: "unmask mk i (unmask mk i cs) = cs"
  by (induction cs arbitrary: i) (simp_all add: xor_char_xor_char)

lemma length_unmask [simp]: "length (unmask mk i cs) = length cs"
  by (induction cs arbitrary: i) simp_all

lemma byte_at_simps [simp]: "byte_at (c # s) 0 = c" "byte_at (c # s) (Suc i) = byte_at s i"
  by (simp_all add: byte_at_def)

lemma byte_at_numeral [simp]: "byte_at (c # s) (numeral k) = byte_at s (pred_numeral k)"
  by (simp add: numeral_eq_Suc)

lemma take_min_unat: "take (unat (of_nat n :: 64 word)) s = take n s" if "n < 2 ^ 64"
proof -
  have "unat (of_nat n :: 64 word) = n" using that by (simp add: unat_of_nat)
  then show ?thesis by simp
qed

text \<open>The frame a client sends, by the protocol: masked, the length in network order.\<close>

definition client_header :: "nat \<Rightarrow> string" where
  "client_header n =
     (if n \<le> 125 then [char_of (128 + n)]
      else [char_of (128 + 126 :: nat), char_of (n div 256), char_of (n mod 256)])"

definition client_frame :: "string \<Rightarrow> string \<Rightarrow> string" where
  "client_frame mk d = char_of (0x81 :: nat) # client_header (length d) @ mk @ unmask mk 0 d"

text \<open>A 16-bit length in network order, read in the order of the machine.\<close>

definition swap16 :: "nat \<Rightarrow> nat" where
  "swap16 n = n div 256 + 256 * (n mod 256)"

lemma swap16_lt: "n < 65536 \<Longrightarrow> swap16 n < 65536"
proof -
  assume "n < 65536"
  then have "n div 256 < 256" "n mod 256 < 256" by (simp_all add: less_mult_imp_div_less)
  then show ?thesis by (simp add: swap16_def)
qed

lemma parse_server_frame:
  assumes "length d \<le> 65535"
  shows "parse_frame (create_frame d) =
    (if length d \<le> 125 then d else take (swap16 (length d)) d)"
proof (cases "length d \<le> 125")
  case True
  then show ?thesis
    by (simp add: parse_frame_def create_frame_def payload_length_def payload_offset_def Let_def
        uchar_char_of take_min_unat unmask_zero)
next
  case False
  have s: "swap16 (length d) < 2 ^ 64" using swap16_lt [of "length d"] assms by simp
  have lt: "length d div 256 < 256" using assms by (simp add: less_mult_imp_div_less)
  have "payload_length (create_frame d) = of_nat (swap16 (length d))"
    using False assms lt
    by (simp add: create_frame_def payload_length_def Let_def uchar_char_of
        uchar_char_of_mod swap16_def)
  then show ?thesis
    using False assms
    by (simp add: take_min_unat [OF s] parse_frame_def create_frame_def payload_offset_def Let_def uchar_char_of
        unmask_zero)
qed

lemma parse_client_frame:
  assumes "length d \<le> 65535" "length mk = 4"
  shows "parse_frame (client_frame mk d) =
    (if length d \<le> 125 then d else take (swap16 (length d)) d)"
proof -
  obtain a b c e where mk: "mk = [a, b, c, e]"
    using assms(2) by (auto simp: numeral_eq_Suc length_Suc_conv)
  have take_unmask: "unmask mk 0 (take n (unmask mk 0 d)) = take n d" for n
  proof -
    have "unmask k i (take n (unmask k i s)) = take n s" for k i s n
      by (induction s arbitrary: i n) (auto simp: take_Cons xor_char_xor_char split: nat.split)
    then show ?thesis .
  qed
  show ?thesis
  proof (cases "length d \<le> 125")
    case True
    then show ?thesis
      using take_unmask [of "length d"]
      by (simp add: parse_frame_def client_frame_def client_header_def payload_length_def
          payload_offset_def Let_def uchar_char_of take_min_unat mk)
  next
    case False
    have s: "swap16 (length d) < 2 ^ 64" using swap16_lt [of "length d"] assms by simp
    have lt: "length d div 256 < 256" using assms by (simp add: less_mult_imp_div_less)
    have "payload_length (client_frame mk d) = of_nat (swap16 (length d))"
      using False assms lt
      by (simp add: client_frame_def client_header_def payload_length_def Let_def uchar_char_of
          uchar_char_of_mod swap16_def)
    then show ?thesis
      using False assms take_unmask [of "swap16 (length d)"]
      by (simp add: take_min_unat [OF s] parse_frame_def client_frame_def client_header_def payload_offset_def Let_def
          uchar_char_of mk)
  qed
qed

interpretation ws_frame: codec create_frame "\<lambda>f. Some (parse_frame f)" "\<lambda>d. length d \<le> 125"
  by unfold_locales (simp add: parse_server_frame)

section \<open>What the websocket servers promise\<close>

text \<open>
  C11. A message that a client frames by the protocol, with any mask, is read up to the length
  that its two length bytes give in the wrong order: whole up to 125 bytes, and cut short beyond
  whenever the swapped length is smaller.
\<close>

theorem client_message_is_read:
  assumes "length d \<le> 65535" "length mk = 4"
  shows "parse_frame (client_frame mk d) =
    (if length d \<le> 125 then d else take (swap16 (length d)) d)"
  by (rule parse_client_frame [OF assms])

text \<open>A message of 256 bytes loses all but its first.\<close>

lemma client_message_is_read_witness:
  "parse_frame (client_frame ''abcd'' (replicate 256 (CHR ''x''))) = ''x''"
  using client_message_is_read [of "replicate 256 (CHR ''x'')" "''abcd''"]
  by (simp add: swap16_def)

text \<open>
  What the server frames, it reads back itself up to 125 bytes; two different short messages
  never have the same frame.
\<close>

theorem frames_are_injective:
  assumes "length d \<le> 125" "length d' \<le> 125" "create_frame d = create_frame d'"
  shows "d = d'"
  by (rule ws_frame.enc_inj [OF assms])

lemma frames_are_injective_witness: "create_frame ''a'' = create_frame ''a'' \<and> ''a'' = ''a''"
  using frames_are_injective [of "''a''" "''a''"] by simp

text \<open>
  Until a connection has sent a handshake with a key, nothing it sends reaches the
  application: the outcome is the same for every application callback.
\<close>

theorem no_message_before_handshake:
  assumes "um_find (client_handshake_complete w) fd \<noteq> Some True"
  shows "ws_recv accept_hash callback ok fd d w = ws_recv accept_hash callback' ok fd d w"
  using assms by (auto simp: ws_recv_def handshake_complete_def Let_def split: option.split)

lemma no_message_before_handshake_witness:
  "ws_recv id (\<lambda>_ _. 1) True 7 ''ping'' (ws_accept 7 \<lparr>client_handshake_complete = [(7, True)], sent = []\<rparr>) =
   ws_recv id (\<lambda>_ _. 2) True 7 ''ping'' (ws_accept 7 \<lparr>client_handshake_complete = [(7, True)], sent = []\<rparr>)"
  by (rule no_message_before_handshake) (simp add: ws_accept_def)

end
