(* ===== verification/Symmetric.thy ===== *)
theory Symmetric
  imports Prelude
begin

text \<open>
  \<open>cpp-source/symmetric-encryptor.cpp\<close> and the classes that use it
  (\<open>symmetric-epoll-server.cpp\<close>, \<open>symmetric-event-client.cpp\<close>):
  sealed messages with a transaction number, sent as a block of fixed size that holds the length
  and a block with the data.  The cipher, the hash and the base-64 coding are the library's and
  are parameters.
\<close>

section \<open>Sealing\<close>

text \<open>
  AES in CBC mode under the key and the fixed initialisation vector (decryption throws on bad
  padding), the keyed hash, and base 64.
\<close>

record crypto =
  aes_encrypt :: "string \<Rightarrow> string"
  aes_decrypt :: "string \<Rightarrow> string res"
  hmac :: "string \<Rightarrow> string"
  base64 :: "string \<Rightarrow> string"
  unbase64 :: "string \<Rightarrow> string"

definition encrypt :: "crypto \<Rightarrow> string \<Rightarrow> string" where
  "encrypt cr d =
     (let e = aes_encrypt cr d; hash = hmac cr e in base64 cr (hash @ e))"

definition decrypt :: "crypto \<Rightarrow> string \<Rightarrow> string res" where
  "decrypt cr d =
     (let e = unbase64 cr d in
      if take 32 e \<noteq> hmac cr (drop 32 e) then Inl (RuntimeError ''HashVerificationFilter'')
      else if length e < 32 then Inl OutOfRange
      else aes_decrypt cr (drop 32 e))"

definition transaction_char :: "nat \<Rightarrow> char" where
  "transaction_char transaction = char_of (transaction mod 255)"

definition encrypt_transaction :: "crypto \<Rightarrow> string \<Rightarrow> nat \<Rightarrow> string" where
  "encrypt_transaction cr d transaction = encrypt cr (transaction_char transaction # d)"

text \<open>\<open>new_data[0]\<close> of an empty string is its terminator; erasing from it does nothing.\<close>

definition decrypt_transaction :: "crypto \<Rightarrow> string \<Rightarrow> nat \<Rightarrow> string res" where
  "decrypt_transaction cr d transaction =
     bindR (decrypt cr d) (\<lambda>new_data.
       if peek new_data \<noteq> transaction_char transaction
       then Inl (RuntimeError ''Bad transaction number.'')
       else Inr (drop 1 new_data))"

section \<open>Sending\<close>

definition SIZE_BLOCK :: nat where "SIZE_BLOCK = 89"

text \<open>The length as a 32-bit number, in the order of the machine.\<close>

definition size_bytes :: "nat \<Rightarrow> string" where
  "size_bytes n =
     [char_of (n mod 2 ^ 32 mod 256), char_of (n mod 2 ^ 32 div 256 mod 256),
      char_of (n mod 2 ^ 32 div 65536 mod 256), char_of (n mod 2 ^ 32 div 16777216 mod 256)]"

definition size_of_bytes :: "string \<Rightarrow> nat" where
  "size_of_bytes s =
     uchar (s ! 0) + 256 * uchar (s ! 1) + 65536 * uchar (s ! 2) + 16777216 * uchar (s ! 3)"

text \<open>
  \<open>send\<close>: the number of bytes that \<open>write\<close> takes of each block, or an error, is given.  The first
  write passes 89 bytes of the sealed length, whatever its size is.  The result is whether
  \<open>send\<close> reports an error, the new transaction number and what was written.
\<close>

definition enc_send ::
  "crypto \<Rightarrow> string \<Rightarrow> int \<Rightarrow> int \<Rightarrow> nat \<Rightarrow> (bool \<times> nat \<times> string list) res" where
  "enc_send cr d written1 written2 transaction =
     (let send_data = encrypt_transaction cr (c_str d) transaction;
          send_data_size = encrypt_transaction cr (size_bytes (length send_data)) transaction;
          transaction = transaction + 1
      in if length send_data_size + 1 < SIZE_BLOCK then Inl OutOfBounds
         else
           (let block1 = take SIZE_BLOCK (send_data_size @ [NUL]) in
            if written1 \<noteq> int SIZE_BLOCK then
              Inr (True, transaction, if written1 < 0 then [] else [take (nat written1) block1])
            else if written2 \<noteq> int (length send_data) then
              Inr (True, transaction, [block1]
                @ (if written2 < 0 then [] else [take (nat written2) send_data]))
            else Inr (False, transaction, [block1, send_data])))"

section \<open>Receiving\<close>

datatype enc_read = Enc_would_block | Enc_error | Enc_data string

text \<open>
  The wait for the data block: it spins while there is nothing to read, so with no further
  result it does not return.
\<close>

fun recv_block ::
  "crypto \<Rightarrow> (string \<Rightarrow> int) \<Rightarrow> nat \<Rightarrow> nat \<Rightarrow> enc_read list \<Rightarrow> (int \<times> nat \<times> string option) option" where
  "recv_block cr callback block_size transaction [] = None"
| "recv_block cr callback block_size transaction (r # rs) =
     (case r of
        Enc_would_block \<Rightarrow> recv_block cr callback block_size transaction rs
      | Enc_error \<Rightarrow> Some (- 1, transaction, None)
      | Enc_data d \<Rightarrow>
          if d = [] then Some (- 2, transaction, None)
          else if length d \<noteq> block_size then Some (- 3, transaction, None)
          else
            (case decrypt_transaction cr d transaction of
               Inl e \<Rightarrow> Some (- 4, transaction, None)
             | Inr s \<Rightarrow> Some (callback s, transaction + 1, Some s)))"

text \<open>
  \<open>recv\<close>: the result, the new transaction number, and the message that was handed on.  Reading
  asks for 89 bytes, so a result has at most as many.
\<close>

definition enc_recv ::
  "crypto \<Rightarrow> nat \<Rightarrow> (string \<Rightarrow> int) \<Rightarrow> enc_read \<Rightarrow> enc_read list \<Rightarrow> nat \<Rightarrow>
    (int \<times> nat \<times> string option) option" where
  "enc_recv cr data_length callback r rs transaction =
     (case r of
        Enc_would_block \<Rightarrow> Some (0, transaction, None)
      | Enc_error \<Rightarrow> Some (- 1, transaction, None)
      | Enc_data d \<Rightarrow>
          if d = [] then Some (- 2, transaction, None)
          else if length d \<noteq> SIZE_BLOCK then Some (- 3, transaction, None)
          else
            (case decrypt_transaction cr d transaction of
               Inl e \<Rightarrow> Some (- 4, transaction, None)
             | Inr s \<Rightarrow>
                 if length s \<noteq> 4 then Some (- 5, transaction, None)
                 else if data_length \<le> size_of_bytes s then Some (- 1, transaction, None)
                 else recv_block cr callback (size_of_bytes s) transaction rs))"

section \<open>The classes around it\<close>

text \<open>
  The server and the event client keep one counter of reads and one of writes per descriptor;
  a new connection resets both.
\<close>

record counters =
  reads :: "(int, nat) umap"
  writes :: "(int, nat) umap"

definition counter :: "int \<Rightarrow> (int, nat) umap \<Rightarrow> nat" where
  "counter fd m = (case um_find m fd of Some n \<Rightarrow> n | None \<Rightarrow> 0)"

definition peer_connected :: "int \<Rightarrow> counters \<Rightarrow> counters" where
  "peer_connected fd cs = cs\<lparr>reads := um_set fd 0 (reads cs), writes := um_set fd 0 (writes cs)\<rparr>"

definition peer_send ::
  "crypto \<Rightarrow> int \<Rightarrow> string \<Rightarrow> int \<Rightarrow> int \<Rightarrow> counters \<Rightarrow> (bool \<times> counters \<times> string list) res" where
  "peer_send cr fd d written1 written2 cs =
     bindR (enc_send cr d written1 written2 (counter fd (writes cs)))
       (\<lambda>(e, n, w). Inr (e, cs\<lparr>writes := um_set fd n (writes cs)\<rparr>, w))"

definition peer_recv ::
  "crypto \<Rightarrow> int \<Rightarrow> nat \<Rightarrow> (string \<Rightarrow> int) \<Rightarrow> enc_read \<Rightarrow> enc_read list \<Rightarrow> counters \<Rightarrow>
    (int \<times> counters \<times> string option) option" where
  "peer_recv cr fd data_length callback r rs cs =
     map_option (\<lambda>(k, n, s). (k, cs\<lparr>reads := um_set fd n (reads cs)\<rparr>, s))
       (enc_recv cr data_length callback r rs (counter fd (reads cs)))"

section \<open>What the sealing relies on\<close>

text \<open>
  Decoding undoes encoding, decryption undoes encryption, and the keyed hash has 32 bytes.
\<close>

definition crypto_ok :: "crypto \<Rightarrow> bool" where
  "crypto_ok cr \<longleftrightarrow> (\<forall>x. unbase64 cr (base64 cr x) = x)
     \<and> (\<forall>x. aes_decrypt cr (aes_encrypt cr x) = Inr x) \<and> (\<forall>x. length (hmac cr x) = 32)"

lemma decrypt_encrypt: "crypto_ok cr \<Longrightarrow> decrypt cr (encrypt cr d) = Inr d"
  by (simp add: decrypt_def encrypt_def crypto_ok_def Let_def)

lemma transaction_char_eq:
  "transaction_char n = transaction_char m \<longleftrightarrow> n mod 255 = m mod 255"
proof
  assume "transaction_char n = transaction_char m"
  then have "uchar (char_of (n mod 255)) = uchar (char_of (m mod 255))"
    by (simp add: transaction_char_def)
  moreover have "n mod 255 < 256" "m mod 255 < 256"
    by (rule order_less_trans [of _ 255]; simp)+
  ultimately show "n mod 255 = m mod 255" by (simp add: uchar_char_of)
qed (simp add: transaction_char_def)

lemma decrypt_encrypt_transaction:
  "crypto_ok cr \<Longrightarrow> decrypt_transaction cr (encrypt_transaction cr d n) m =
    (if n mod 255 = m mod 255 then Inr d else Inl (RuntimeError ''Bad transaction number.''))"
  by (simp add: decrypt_transaction_def encrypt_transaction_def decrypt_encrypt
      transaction_char_eq)

lemma size_of_size_bytes: "n < 2 ^ 32 \<Longrightarrow> size_of_bytes (size_bytes n) = n"
proof -
  assume n: "n < 2 ^ 32"
  then have d: "n div 16777216 < 256" by (simp add: less_mult_imp_div_less)
  have "n = 16777216 * (n div 16777216) + 65536 * (n div 65536 mod 256)
      + 256 * (n div 256 mod 256) + n mod 256"
  proof -
    have a: "n = 256 * (n div 256) + n mod 256" by simp
    have b: "n div 256 = 256 * (n div 65536) + n div 256 mod 256"
      using mult_div_mod_eq [of 256 "n div 256"] by (simp add: div_mult2_eq [symmetric])
    have c: "n div 65536 = 256 * (n div 16777216) + n div 65536 mod 256"
      using mult_div_mod_eq [of 256 "n div 65536"] by (simp add: div_mult2_eq [symmetric])
    from a b c show ?thesis by linarith
  qed
  with n d show ?thesis by (simp add: size_of_bytes_def size_bytes_def uchar_char_of
        uchar_char_of_mod)
qed

lemma length_size_bytes [simp]: "length (size_bytes n) = 4"
  by (simp add: size_bytes_def)

section \<open>What the sealed channel promises\<close>

definition authentic :: "crypto \<Rightarrow> string \<Rightarrow> nat \<Rightarrow> string \<Rightarrow> bool" where
  "authentic cr b tr s \<longleftrightarrow>
     32 \<le> length (unbase64 cr b)
     \<and> take 32 (unbase64 cr b) = hmac cr (drop 32 (unbase64 cr b))
     \<and> (\<exists>p. aes_decrypt cr (drop 32 (unbase64 cr b)) = Inr p \<and> peek p = transaction_char tr
          \<and> s = drop 1 p)"

lemma decrypt_transaction_Inr: "decrypt_transaction cr b tr = Inr s \<Longrightarrow> authentic cr b tr s"
  by (auto simp: decrypt_transaction_def decrypt_def authentic_def Let_def bindR_eq_Inr
      split: if_splits)

lemma recv_block_delivers:
  "recv_block cr callback n tr rs = Some (k, tr', Some s) \<Longrightarrow>
    tr' = tr + 1 \<and> k = callback s \<and> (\<exists>b. Enc_data b \<in> set rs \<and> authentic cr b tr s)"
  by (induction rs)
    (auto split: enc_read.splits if_splits sum.splits dest: decrypt_transaction_Inr)

lemma enc_recv_delivers:
  "enc_recv cr dl callback r rs tr = Some (k, tr', Some s) \<Longrightarrow>
    \<exists>b1 z. r = Enc_data b1 \<and> b1 \<noteq> [] \<and> length b1 = SIZE_BLOCK
      \<and> decrypt_transaction cr b1 tr = Inr z \<and> length z = 4 \<and> size_of_bytes z < dl
      \<and> recv_block cr callback (size_of_bytes z) tr rs = Some (k, tr', Some s)"
  by (auto simp: enc_recv_def split: enc_read.splits if_splits sum.splits)

text \<open>A coding that pads as much as the blocks need, to try the channel on.\<close>

definition sample_crypto :: crypto where
  "sample_crypto = \<lparr>aes_encrypt = (\<lambda>x. x @ replicate 52 (CHR ''p'')), aes_decrypt = (\<lambda>x. Inr (take (length x - 52) x)),
     hmac = (\<lambda>_. replicate 32 (CHR ''h'')), base64 = id, unbase64 = id\<rparr>"

lemma sample_crypto_ok: "crypto_ok sample_crypto"
  by (simp add: crypto_ok_def sample_crypto_def)

text \<open>
  C9. By the lengths that the cipher, the hash and the base-64 coding have, the sealed length is
  65 bytes at most: every message that is sent writes 89 bytes of it and reads past its end.
\<close>

theorem send_reads_past_size_block:
  assumes "\<forall>x. length (aes_encrypt cr x) = 16 * (length x div 16 + 1)"
    "\<forall>x. length (hmac cr x) = 32"
    "\<forall>x. length (base64 cr x) \<le>
       4 * ((length x + 2) div 3) + 4 * ((length x + 2) div 3) div 72 + 1"
  shows "enc_send cr d w1 w2 n = Inl OutOfBounds"
proof -
  have "length (encrypt_transaction cr (size_bytes m) n) \<le> 65" for m
  proof -
    let ?e = "aes_encrypt cr (transaction_char n # size_bytes m)"
    have "length (hmac cr ?e @ ?e) = 48" using assms(1,2) by simp
    then show ?thesis
      using assms(3) [rule_format, of "hmac cr ?e @ ?e"]
      by (simp add: encrypt_transaction_def encrypt_def Let_def)
  qed
  then have "length (encrypt_transaction cr (size_bytes m) n) + 1 < SIZE_BLOCK" for m
    by (simp add: SIZE_BLOCK_def le_less_trans [of _ 65])
  then show ?thesis by (simp add: enc_send_def Let_def)
qed

lemma send_reads_past_size_block_witness:
  "\<exists>cr. enc_send cr ''hello'' 89 64 0 = Inl OutOfBounds"
proof -
  let ?cr = "\<lparr>aes_encrypt = (\<lambda>x. replicate (16 * (length x div 16 + 1)) (CHR ''c'')), aes_decrypt = Inr,
    hmac = (\<lambda>_. replicate 32 (CHR ''h'')),
    base64 = (\<lambda>x. replicate (4 * ((length x + 2) div 3)) (CHR ''A'')), unbase64 = id\<rparr>"
  have "enc_send ?cr ''hello'' 89 64 0 = Inl OutOfBounds"
    by (rule send_reads_past_size_block) simp_all
  then show ?thesis by blast
qed

text \<open>
  C5. Only authenticated data is handed to the application: whatever arrives, a message that is
  delivered came in a block whose keyed hash verifies and whose transaction number is the one
  the receiver expects, and its counter moves on by one.
\<close>

theorem delivered_is_authentic:
  assumes "enc_recv cr dl callback r rs tr = Some (k, tr', Some s)"
  shows "tr' = tr + 1 \<and> k = callback s \<and> (\<exists>b. Enc_data b \<in> set rs \<and> authentic cr b tr s)"
  using enc_recv_delivers [OF assms] recv_block_delivers by blast

lemma delivered_is_authentic_witness:
  "\<exists>b. Enc_data b \<in> set [Enc_data (encrypt_transaction sample_crypto ''ab'' 7)]
     \<and> authentic sample_crypto b 7 ''ab''"
proof -
  have l: "length (encrypt_transaction sample_crypto ''ab'' 7) = 87"
    by (simp add: encrypt_transaction_def encrypt_def sample_crypto_def)
  note ok = sample_crypto_ok
  have "enc_recv sample_crypto 100 (\<lambda>_. 1) (Enc_data (encrypt_transaction sample_crypto (size_bytes 87) 7))
      [Enc_data (encrypt_transaction sample_crypto ''ab'' 7)] 7 = Some (1, 8, Some ''ab'')"
    using l size_of_size_bytes [of 87]
    by (simp add: enc_recv_def decrypt_encrypt_transaction [OF ok])
      (simp add: encrypt_transaction_def encrypt_def sample_crypto_def SIZE_BLOCK_def Let_def)
  from delivered_is_authentic [OF this] show ?thesis by blast
qed

text \<open>
  C40. The transaction number stops a replay, but only for so long: blocks that were accepted once
  are refused at every later count, except at the counts that are equal to the first modulo 255,
  where they are accepted again.
\<close>

theorem replay_is_refused_modulo_255:
  assumes "enc_recv cr dl callback (Enc_data b1) [Enc_data b2] n = Some (k, n + 1, Some s)"
  shows "enc_recv cr dl callback (Enc_data b1) [Enc_data b2] m =
    (if m mod 255 = n mod 255 then Some (k, m + 1, Some s) else Some (- 4, m, None))"
proof -
  from enc_recv_delivers [OF assms] obtain z where z: "b1 \<noteq> []" "length b1 = SIZE_BLOCK"
      "decrypt_transaction cr b1 n = Inr z" "length z = 4" "size_of_bytes z < dl"
      "recv_block cr callback (size_of_bytes z) n [Enc_data b2] = Some (k, n + 1, Some s)"
    by auto
  have dec: "decrypt_transaction cr b m =
      (if m mod 255 = n mod 255 then Inr t else Inl (RuntimeError ''Bad transaction number.''))"
    if d: "decrypt_transaction cr b n = Inr t" for b t
  proof -
    from d obtain p where "decrypt cr b = Inr p" "peek p = transaction_char n" "t = drop 1 p"
      by (auto simp: decrypt_transaction_def bindR_eq_Inr split: if_splits)
    then show ?thesis
      by (auto simp: decrypt_transaction_def transaction_char_eq)
  qed
  from z(6) obtain "b2 \<noteq> []" "length b2 = size_of_bytes z" "decrypt_transaction cr b2 n = Inr s"
      "k = callback s"
    by (auto split: if_splits sum.splits)
  with z dec [OF z(3)] dec [of b2 s] show ?thesis by (simp add: enc_recv_def)
qed

lemma replay_is_refused_modulo_255_witness:
  "\<exists>b1 b2. enc_recv sample_crypto 100 (\<lambda>_. 1) (Enc_data b1) [Enc_data b2] 8 = Some (- 4, 8, None)
    \<and> enc_recv sample_crypto 100 (\<lambda>_. 1) (Enc_data b1) [Enc_data b2] 262 = Some (1, 263, Some ''ab'')"
proof -
  let ?b1 = "encrypt_transaction sample_crypto (size_bytes 87) 7"
  let ?b2 = "encrypt_transaction sample_crypto ''ab'' 7"
  have l: "length ?b2 = 87" by (simp add: encrypt_transaction_def encrypt_def sample_crypto_def)
  note ok = sample_crypto_ok
  have "enc_recv sample_crypto 100 (\<lambda>_. 1) (Enc_data ?b1) [Enc_data ?b2] 7 = Some (1, 7 + 1, Some ''ab'')"
    using l size_of_size_bytes [of 87]
    by (simp add: enc_recv_def decrypt_encrypt_transaction [OF ok])
      (simp add: encrypt_transaction_def encrypt_def sample_crypto_def SIZE_BLOCK_def Let_def)
  note r = replay_is_refused_modulo_255 [OF this]
  from r [of 8] r [of 262] show ?thesis by auto
qed

end
