(* ===== verification/EventClient.thy ===== *)
theory EventClient
  imports EpollServer
begin

text \<open>
  \<open>cpp-source/tcp-event-client.hpp\<close> and \<open>tcp-event-client.cpp\<close>: many connections of one client,
  each a state machine that is visited once in a pass; and \<open>simple-tcp-client.cpp\<close>: one blocking
  connection.  What the system calls return is an argument of a visit.
\<close>

section \<open>State\<close>

datatype ConnectionState = DISCONNECTED | CONNECTING | CONNECTED | DEAD

text \<open>\<open>address\<close> is the part of \<open>server_address\<close> that is resolved.\<close>

record connection =
  conn_fd :: int
  hostname :: string
  ip_address :: string
  port :: nat
  conn_state :: ConnectionState
  address :: "nat option"

definition named_connection :: "string \<Rightarrow> nat \<Rightarrow> connection" where
  "named_connection new_hostname new_port =
     \<lparr>conn_fd = - 1, hostname = new_hostname, ip_address = [], port = new_port,
      conn_state = DISCONNECTED, address = None\<rparr>"

definition ip_connection :: "nat \<Rightarrow> string \<Rightarrow> connection" where
  "ip_connection new_port new_ip_address =
     \<lparr>conn_fd = - 1, hostname = [], ip_address = new_ip_address, port = new_port,
      conn_state = DISCONNECTED, address = None\<rparr>"

record event_client =
  host_addresses :: "(string, nat) umap"
  alive_connections :: int
  client_reads :: "(int, int) umap"
  client_writes :: "(int, int) umap"
  connections :: "connection list"

text \<open>No constructor sets \<open>alive_connections\<close>: \<open>garbage\<close> is what the memory held.\<close>

definition new_client :: "int \<Rightarrow> event_client" where
  "new_client garbage =
     \<lparr>host_addresses = [], alive_connections = garbage, client_reads = [], client_writes = [],
      connections = []\<rparr>"

definition add :: "connection \<Rightarrow> event_client \<Rightarrow> event_client" where
  "add conn cl =
     cl\<lparr>connections := connections cl @ [conn], alive_connections := alive_connections cl + 1\<rparr>"

section \<open>Operations on one connection\<close>

definition client_close :: "connection \<Rightarrow> event_client \<Rightarrow> connection \<times> event_client" where
  "client_close conn cl =
     (conn\<lparr>conn_state := DEAD\<rparr>, cl\<lparr>alive_connections := alive_connections cl - 1\<rparr>)"

definition client_send :: "int \<Rightarrow> string \<Rightarrow> int \<Rightarrow> event_client \<Rightarrow> bool \<times> event_client" where
  "client_send fd d written cl =
     (if written < 0 then (True, cl)
      else (False, cl\<lparr>client_writes :=
        um_set fd (fst (um_index fd (client_writes cl)) + 1) (client_writes cl)\<rparr>))"

text \<open>
  \<open>recv\<close> into a buffer of \<open>limit\<close> bytes: the terminator is written behind what was read.
\<close>

definition client_recv ::
  "(int \<Rightarrow> string \<Rightarrow> int) \<Rightarrow> int \<Rightarrow> int \<Rightarrow> read_result \<Rightarrow> int res" where
  "client_recv callback limit fd r =
     (case r of
        Read_would_block \<Rightarrow> Inr 0
      | Read_error \<Rightarrow> Inr (- 1)
      | Read_eof \<Rightarrow> Inr (- 2)
      | Read_data d \<Rightarrow> if limit \<le> int (length d) then Inl OutOfBounds else Inr (callback fd d))"

datatype socket_result = Socket int | Socket_emfile | Socket_error

datatype connect_result = Connect_ok | Connect_pending | Connect_error

text \<open>What happens at a visit; \<open>close_on_connect\<close> is the answer of \<open>on_connect\<close>.\<close>

record visit_outcome =
  socket_res :: socket_result
  resolved :: "nat option"
  connect_res :: connect_result
  close_on_connect :: bool
  read_data :: read_result

definition resolve ::
  "connection \<Rightarrow> nat option \<Rightarrow> event_client \<Rightarrow> nat option \<times> event_client" where
  "resolve conn found cl =
     (case um_find (host_addresses cl) (hostname conn) of
        Some a \<Rightarrow> (Some a, cl)
      | None \<Rightarrow>
         (case found of
            None \<Rightarrow> (None, cl)
          | Some a \<Rightarrow> (Some a, cl\<lparr>host_addresses := um_set (hostname conn) a (host_addresses cl)\<rparr>)))"

text \<open>
  One visit: the connection, the client, and whether the pass keeps the loop running.
  \<open>inet_addr\<close> turns the text of an address into one.
\<close>

definition visit ::
  "(string \<Rightarrow> nat) \<Rightarrow> (int \<Rightarrow> string \<Rightarrow> int) \<Rightarrow> connection \<Rightarrow> visit_outcome \<Rightarrow> event_client \<Rightarrow>
    (connection \<times> event_client \<times> bool) res" where
  "visit inet_addr callback conn os cl =
     (case conn_state conn of
        DISCONNECTED \<Rightarrow>
          (case socket_res os of
             Socket_emfile \<Rightarrow> Inr (conn\<lparr>conn_fd := - 1\<rparr>, cl, False)
           | Socket_error \<Rightarrow>
               (case client_close (conn\<lparr>conn_fd := - 1\<rparr>) cl of (conn, cl) \<Rightarrow> Inr (conn, cl, False))
           | Socket fd \<Rightarrow>
               (let conn = conn\<lparr>conn_fd := fd\<rparr> in
                if hostname conn \<noteq> [] then
                  (case resolve conn (resolved os) cl of
                     (None, cl) \<Rightarrow> (case client_close conn cl of (conn, cl) \<Rightarrow> Inr (conn, cl, False))
                   | (Some a, cl) \<Rightarrow>
                       Inr (conn\<lparr>address := Some a, conn_state := CONNECTING\<rparr>, cl, True))
                else Inr (conn\<lparr>address := Some (inet_addr (ip_address conn)),
                       conn_state := CONNECTING\<rparr>, cl, True)))
      | CONNECTING \<Rightarrow>
          (case connect_res os of
             Connect_error \<Rightarrow> (case client_close conn cl of (conn, cl) \<Rightarrow> Inr (conn, cl, False))
           | Connect_pending \<Rightarrow> Inr (conn, cl, True)
           | Connect_ok \<Rightarrow>
               (let cl = cl\<lparr>client_reads := um_set (conn_fd conn) 0 (client_reads cl),
                      client_writes := um_set (conn_fd conn) 0 (client_writes cl)\<rparr>;
                    conn = conn\<lparr>conn_state := CONNECTED\<rparr>
                in if close_on_connect os
                   then (case client_close conn cl of (conn, cl) \<Rightarrow> Inr (conn, cl, True))
                   else Inr (conn, cl, True)))
      | CONNECTED \<Rightarrow>
          bindR (client_recv callback PACKET_LIMIT (conn_fd conn) (read_data os)) (\<lambda>len.
            if len < 0 then (case client_close conn cl of (conn, cl) \<Rightarrow> Inr (conn, cl, True))
            else Inr (conn, cl, True))
      | DEAD \<Rightarrow> Inr (conn, cl, False))"

section \<open>The loop\<close>

text \<open>One pass over the connections, with an outcome for each of them.\<close>

fun visit_all ::
  "(string \<Rightarrow> nat) \<Rightarrow> (int \<Rightarrow> string \<Rightarrow> int) \<Rightarrow> connection list \<Rightarrow> visit_outcome list \<Rightarrow>
    event_client \<Rightarrow> bool \<Rightarrow> (connection list \<times> event_client \<times> bool) res" where
  "visit_all inet_addr callback (c # cs) (os # oss) cl go =
     bindR (visit inet_addr callback c os cl) (\<lambda>(c', cl, r).
     bindR (visit_all inet_addr callback cs oss cl (go \<or> r)) (\<lambda>(cs', cl, go).
       Inr (c' # cs', cl, go)))"
| "visit_all inet_addr callback cs oss cl go = Inr (cs, cl, go)"

definition client_pass ::
  "(string \<Rightarrow> nat) \<Rightarrow> (int \<Rightarrow> string \<Rightarrow> int) \<Rightarrow> visit_outcome list \<Rightarrow> event_client \<Rightarrow>
    (event_client \<times> bool) res" where
  "client_pass inet_addr callback oss cl =
     bindR (visit_all inet_addr callback (connections cl) oss cl False) (\<lambda>(cs, cl, go).
       Inr (cl\<lparr>connections := cs\<rparr>, go))"

text \<open>
  \<open>run\<close>, over passes that \<open>on_event_loop\<close> may stop; the flag tells whether the loop has ended.
\<close>

fun client_run ::
  "(string \<Rightarrow> nat) \<Rightarrow> (int \<Rightarrow> string \<Rightarrow> int) \<Rightarrow> (bool \<times> visit_outcome list) list \<Rightarrow> event_client \<Rightarrow>
    (event_client \<times> bool) res" where
  "client_run inet_addr callback [] cl = Inr (cl, False)"
| "client_run inet_addr callback ((stop, oss) # passes) cl =
     (if stop then Inr (cl, True)
      else bindR (client_pass inet_addr callback oss cl) (\<lambda>(cl, go).
        if alive_connections cl \<le> 0 \<or> \<not> go then Inr (cl, True)
        else client_run inet_addr callback passes cl))"

section \<open>One blocking connection\<close>

text \<open>
  \<open>reconnect\<close> by what \<open>socket\<close>, \<open>connect\<close>, \<open>select\<close> and \<open>getsockopt\<close> return.
\<close>

definition reconnect :: "bool \<Rightarrow> connect_result \<Rightarrow> int \<Rightarrow> bool \<Rightarrow> int \<Rightarrow> bool" where
  "reconnect socket_ok con selected option_ok valopt =
     (if \<not> socket_ok then False
      else case con of
        Connect_ok \<Rightarrow> True
      | Connect_error \<Rightarrow> False
      | Connect_pending \<Rightarrow>
          if selected < 0 then False
          else if 0 < selected then option_ok \<and> valopt = 0
          else False)"

text \<open>The wait of \<open>communicate\<close>; \<open>attempts i\<close> is the result of the call number \<open>i\<close>.\<close>

partial_function (option) await_connection :: "bool \<Rightarrow> (nat \<Rightarrow> bool) \<Rightarrow> nat \<Rightarrow> unit prog" where
  "await_connection linked attempts i =
     (if linked then ret ()
      else (let ignored = attempts i in await_connection linked attempts (i + 1)))"

text \<open>The buffer of the caller is taken to have room for one byte more than was asked for.\<close>

definition communicate ::
  "bool \<Rightarrow> (nat \<Rightarrow> bool) \<Rightarrow> int \<Rightarrow> read_result \<Rightarrow> int \<Rightarrow> (bool \<times> string \<times> int) prog" where
  "communicate linked attempts written r requests =
     bindP (await_connection linked attempts 0) (\<lambda>_.
       if written < 0 then fail (RuntimeError ''SimpleTcpClient write'')
       else case r of
         Read_data d \<Rightarrow> ret (True, d, requests + 1)
       | Read_eof \<Rightarrow> ret (False, [], requests + 1)
       | _ \<Rightarrow> fail (RuntimeError ''SimpleTcpClient read''))"

section \<open>Bookkeeping of the connections\<close>

definition living :: "connection list \<Rightarrow> int" where
  "living cs = int (length (filter (\<lambda>c. conn_state c \<noteq> DEAD) cs))"

lemma living_simps [simp]:
  "living [] = 0"
  "living (c # cs) = (if conn_state c \<noteq> DEAD then 1 else 0) + living cs"
  "living (cs @ cs') = living cs + living cs'"
  by (simp_all add: living_def)

fun progress :: "ConnectionState \<Rightarrow> nat" where
  "progress DISCONNECTED = 0" | "progress CONNECTING = 1" | "progress CONNECTED = 2"
| "progress DEAD = 3"

lemma visit_effect:
  assumes "visit inet_addr callback c os cl = Inr (c', cl', r)"
  shows "living [c'] - living [c] = alive_connections cl' - alive_connections cl"
    and "progress (conn_state c) \<le> progress (conn_state c')"
    and "conn_state c' = DEAD \<and> conn_state c = DEAD \<Longrightarrow> \<not> r"
    and "connections cl' = connections cl"
  using assms
  by (auto simp: visit_def client_close_def resolve_def Let_def bindR_eq_Inr
      split: ConnectionState.splits socket_result.splits connect_result.splits if_splits
        option.splits prod.splits)

lemma visit_all_effect:
  "visit_all inet_addr callback cs oss cl go = Inr (cs', cl', go') \<Longrightarrow>
    living cs' - living cs = alive_connections cl' - alive_connections cl
    \<and> list_all2 (\<lambda>c c'. progress (conn_state c) \<le> progress (conn_state c')) cs cs'
    \<and> connections cl' = connections cl"
proof (induction inet_addr callback cs oss cl go arbitrary: cs' cl' go' rule: visit_all.induct)
  case (1 inet_addr callback c cs os oss cl go)
  then obtain c1 cl1 r cs2 where v: "visit inet_addr callback c os cl = Inr (c1, cl1, r)"
      and a: "visit_all inet_addr callback cs oss cl1 (go \<or> r) = Inr (cs2, cl', go')"
      and cs': "cs' = c1 # cs2"
    by (auto simp: bindR_eq_Inr)
  from "1.IH" [OF a] visit_effect [OF v] cs' show ?case by simp
qed (auto simp: list_all2_refl)

text \<open>
  The count of living connections is off by what the memory held before the first one was added.
\<close>

definition client_inv :: "int \<Rightarrow> event_client res \<Rightarrow> bool" where
  "client_inv garbage s =
     (case s of Inl _ \<Rightarrow> True | Inr cl \<Rightarrow> alive_connections cl = garbage + living (connections cl))"

text \<open>The application adds connections, and passes are made, in any order.\<close>

datatype client_event = Add_connection connection | Pass "visit_outcome list"

definition client_step ::
  "(string \<Rightarrow> nat) \<Rightarrow> (int \<Rightarrow> string \<Rightarrow> int) \<Rightarrow> event_client res \<Rightarrow> client_event \<Rightarrow> event_client res" where
  "client_step inet_addr callback s e =
     bindR s (\<lambda>cl. case e of
        Add_connection conn \<Rightarrow> Inr (add conn cl)
      | Pass oss \<Rightarrow> bindR (client_pass inet_addr callback oss cl) (\<lambda>(cl, go). Inr cl))"

definition client_admissible :: "event_client res \<Rightarrow> client_event \<Rightarrow> bool" where
  "client_admissible s e =
     (case e of Add_connection conn \<Rightarrow> conn_state conn \<noteq> DEAD | Pass _ \<Rightarrow> True)"

lemma client_pass_alive:
  assumes "client_pass inet_addr callback oss cl = Inr (cl', go)"
  shows "living (connections cl') - living (connections cl) =
    alive_connections cl' - alive_connections cl"
  using assms by (auto simp: client_pass_def bindR_eq_Inr dest: visit_all_effect)

interpretation client: event_machine "client_step inet_addr callback" "client_inv garbage"
  client_admissible for inet_addr callback garbage
proof
  fix s e
  assume inv: "client_inv garbage s" and ok: "client_admissible s e"
  show "client_inv garbage (client_step inet_addr callback s e)"
  proof (cases s)
    case (Inr cl)
    show ?thesis
    proof (cases e)
      case (Add_connection conn)
      with Inr inv ok show ?thesis
        by (simp add: client_inv_def client_step_def client_admissible_def add_def)
    next
      case (Pass oss)
      show ?thesis
      proof (cases "client_pass inet_addr callback oss cl")
        case (Inr p)
        then show ?thesis
          using \<open>s = Inr cl\<close> Pass inv client_pass_alive [of inet_addr callback oss cl "fst p" "snd p"]
          by (cases p) (simp add: client_inv_def client_step_def)
      qed (use Inr Pass in \<open>simp add: client_inv_def client_step_def\<close>)
    qed
  qed (simp add: client_inv_def client_step_def)
qed

section \<open>What the clients promise\<close>

text \<open>
  Through any sequence of added connections and passes, whatever the system calls return, the
  count of living connections is the number of connections that are not dead, plus whatever was
  in the uninitialised member: it is right exactly when that was 0.
\<close>

theorem alive_count_is_off_by_garbage:
  assumes "admissible_run (client_step inet_addr callback) client_admissible
      (Inr (new_client garbage)) events"
    "run_steps (client_step inet_addr callback) (Inr (new_client garbage)) events = Inr cl"
  shows "alive_connections cl = garbage + living (connections cl)"
proof -
  have "client_inv garbage (Inr (new_client garbage))"
    by (simp add: client_inv_def new_client_def)
  from client.run_inv [OF this assms(1)] assms(2) show ?thesis by (simp add: client_inv_def)
qed

definition sample_visit :: visit_outcome where
  "sample_visit = \<lparr>socket_res = Socket 5, resolved = Some 1, connect_res = Connect_ok,
     close_on_connect = False, read_data = Read_eof\<rparr>"

lemma alive_count_is_off_by_garbage_witness:
  "\<exists>cl. run_steps (client_step (\<lambda>_. 0) (\<lambda>_ _. 1)) (Inr (new_client 41))
      [Add_connection (named_connection ''host'' 80), Pass [sample_visit], Pass [sample_visit]] = Inr cl
    \<and> alive_connections cl = 41 + living (connections cl) \<and> living (connections cl) = 1"
proof -
  let ?es = "[Add_connection (named_connection ''host'' 80), Pass [sample_visit], Pass [sample_visit]]"
  obtain cl where cl: "run_steps (client_step (\<lambda>_. 0) (\<lambda>_ _. 1)) (Inr (new_client 41)) ?es = Inr cl"
      "living (connections cl) = 1"
    by (simp add: client_step_def add_def new_client_def named_connection_def client_pass_def
        visit_def resolve_def sample_visit_def Let_def)
  have "alive_connections cl = 41 + living (connections cl)"
    by (rule alive_count_is_off_by_garbage [OF _ cl(1)])
      (simp add: client_admissible_def named_connection_def)
  with cl show ?thesis by blast
qed

text \<open>
  A connection only moves forward, from disconnected over connecting and connected to dead:
  no pass takes any connection back, and none is added or dropped by a pass.
\<close>

theorem connections_move_forward:
  assumes "client_pass inet_addr callback oss cl = Inr (cl', go)"
  shows "list_all2 (\<lambda>c c'. progress (conn_state c) \<le> progress (conn_state c'))
    (connections cl) (connections cl')"
  using assms by (auto simp: client_pass_def bindR_eq_Inr dest: visit_all_effect)

lemma connections_move_forward_witness:
  "\<exists>cl'. client_pass (\<lambda>_. 0) (\<lambda>_ _. 1) [sample_visit] (add (named_connection ''host'' 80) (new_client 0))
      = Inr (cl', True)
    \<and> list_all2 (\<lambda>c c'. progress (conn_state c) \<le> progress (conn_state c'))
      (connections (add (named_connection ''host'' 80) (new_client 0))) (connections cl')"
proof -
  obtain cl' where cl': "client_pass (\<lambda>_. 0) (\<lambda>_ _. 1) [sample_visit]
      (add (named_connection ''host'' 80) (new_client 0)) = Inr (cl', True)"
    by (simp add: add_def new_client_def named_connection_def client_pass_def
        visit_def resolve_def sample_visit_def Let_def)
  from connections_move_forward [OF this] cl' show ?thesis by blast
qed

text \<open>
  A peer that sends a full packet makes the client write one byte past its buffer: the buffer
  has exactly the size that is asked for, and the terminator goes behind what was read.
\<close>

theorem full_packet_overruns_client:
  assumes "int (length d) = PACKET_LIMIT" "conn_state c = CONNECTED" "read_data os = Read_data d"
  shows "visit inet_addr callback c os cl = Inl OutOfBounds"
  using assms by (simp add: visit_def client_recv_def)

lemma full_packet_overruns_client_witness:
  "visit (\<lambda>_. 0) (\<lambda>_ _. 1) ((named_connection ''h'' 80)\<lparr>conn_state := CONNECTED\<rparr>)
     (sample_visit\<lparr>read_data := Read_data (replicate 16384 (CHR ''x''))\<rparr>) (new_client 0) = Inl OutOfBounds"
  by (rule full_packet_overruns_client [of "replicate 16384 (CHR ''x'')"])
    (simp_all add: PACKET_LIMIT_def)

lemma await_connection_stuck: "await_connection False attempts i = None"
proof (rule ccontr)
  assume "await_connection False attempts i \<noteq> None"
  then obtain r where r: "await_connection False attempts i = Some r" by blast
  let ?P = "\<lambda>(linked::bool) (attempts::nat \<Rightarrow> bool) (i::nat) (r::unit res). linked"
  have "?P False attempts i r"
    by (rule await_connection.raw_induct [where P = ?P, OF _ r])
      (auto simp: Let_def split: if_splits)
  then show False by simp
qed

text \<open>
  A simple client whose first attempt to connect failed never communicates: the wait calls
  \<open>reconnect\<close> over and over and drops its result, so even a successful call does not end it.
\<close>

theorem failed_client_never_communicates:
  "communicate False attempts written r requests = None"
  by (simp add: communicate_def await_connection_stuck)

end
