(* ===== verification/Comd.thy ===== *)
theory Comd
  imports Prelude
begin

text \<open>
  The remote shell: \<open>cpp-source/shell.hpp\<close>, \<open>comd-util.hpp\<close>, \<open>comd-util.cpp\<close>, the server
  \<open>examples/comd.cpp\<close> and its client \<open>examples/com.cpp\<close>.  Both ends are state machines over what
  the encrypted channel delivers; whether a write succeeds is an argument of a step.
\<close>

section \<open>The shell process\<close>

record shell =
  pid :: int
  opened :: bool
  shell_in :: int
  shell_out :: int

definition new_shell :: shell where
  "new_shell = \<lparr>pid = 0, opened = False, shell_in = 0, shell_out = 0\<rparr>"

text \<open>
  What the constructor does not set has no value before \<open>sopen\<close>, and nothing reads it; the model
  gives it 0.  \<open>sopen\<close> in the parent: \<open>None\<close> when a pipe cannot be made, otherwise what \<open>fork\<close> returned and
  the two ends that are kept.  \<open>True\<close> on error.
\<close>

definition sopen :: "(int \<times> int \<times> int) option \<Rightarrow> shell \<Rightarrow> bool \<times> shell" where
  "sopen forked sh =
     (if opened sh then (False, sh)
      else (case forked of
        None \<Rightarrow> (True, sh)
      | Some (child, inp, outp) \<Rightarrow>
          if child < 0 then (True, sh\<lparr>pid := child\<rparr>)
          else (False, sh\<lparr>pid := child, shell_out := outp, shell_in := inp, opened := True\<rparr>)))"

definition sclose :: "shell \<Rightarrow> shell" where
  "sclose sh = (if \<not> opened sh then sh else sh\<lparr>opened := False\<rparr>)"

section \<open>The protocol\<close>

datatype ComdRoutine = SHELL | SEND_FILE | RECV_FILE

datatype ComdState = VERIFY_IDENTITY | SELECT_ROUTINE | EXCHANGE_PACKETS

definition IDENTITY :: string where
  "IDENTITY = ''This is my example identification string.''"

definition VERIFIED :: string where "VERIFIED = ''Your identity has been verified.''"

definition START_ROUTINE :: string where
  "START_ROUTINE = ''You are welcome to start the requested routine.''"

definition BAD_ROUTINE :: string where "BAD_ROUTINE = ''You have requested an invalid routine!''"

fun ROUTINES :: "ComdRoutine \<Rightarrow> string" where
  "ROUTINES SHELL = ''I would like to use the shell please.''"
| "ROUTINES SEND_FILE = ''I would like to send a file please.''"
| "ROUTINES RECV_FILE = ''I would like to receive a file please.''"

section \<open>The server\<close>

text \<open>\<open>shell_client_fd\<close> has no value before the first routine starts.\<close>

record comd =
  state :: ComdState
  routine :: ComdRoutine
  shell_client_fd :: "int option"
  the_shell :: shell
  sent :: "string list"
  shell_input :: "string list"

definition new_comd :: comd where
  "new_comd = \<lparr>state = VERIFY_IDENTITY, routine = SHELL, shell_client_fd = None,
     the_shell = new_shell, sent = [], shell_input = []\<rparr>"

definition comd_on_connect :: "comd \<Rightarrow> comd" where
  "comd_on_connect s = s\<lparr>state := VERIFY_IDENTITY\<rparr>"

definition comd_on_disconnect :: "comd \<Rightarrow> comd" where
  "comd_on_disconnect s = s\<lparr>the_shell := sclose (the_shell s)\<rparr>"

definition comd_send :: "bool \<Rightarrow> string \<Rightarrow> comd \<Rightarrow> bool \<times> comd" where
  "comd_send ok d s = (if ok then (False, s\<lparr>sent := sent s @ [d]\<rparr>) else (True, s))"

text \<open>\<open>on_read\<close>: \<open>ok\<close> is the send, \<open>forked\<close> the shell's start, \<open>written\<close> the write to it.\<close>

definition comd_on_read ::
  "bool \<Rightarrow> (int \<times> int \<times> int) option \<Rightarrow> int \<Rightarrow> int \<Rightarrow> string \<Rightarrow> comd \<Rightarrow> int \<times> comd" where
  "comd_on_read ok forked written fd d s =
     (case state s of
        VERIFY_IDENTITY \<Rightarrow>
          if c_str d \<noteq> IDENTITY then (- 1, s)
          else (case comd_send ok VERIFIED s of
              (True, s) \<Rightarrow> (- 1, s)
            | (False, s) \<Rightarrow> (int (length d), s\<lparr>state := SELECT_ROUTINE\<rparr>))
      | SELECT_ROUTINE \<Rightarrow>
          if c_str d = ROUTINES SHELL then
            (case comd_send ok START_ROUTINE s of
               (True, s) \<Rightarrow> (- 1, s)
             | (False, s) \<Rightarrow> (int (length d),
                 s\<lparr>shell_client_fd := Some fd, routine := SHELL, state := EXCHANGE_PACKETS\<rparr>))
          else (- 1, snd (comd_send ok BAD_ROUTINE s))
      | EXCHANGE_PACKETS \<Rightarrow>
          (case routine s of
             SHELL \<Rightarrow>
               (case sopen forked (the_shell s) of
                  (True, sh) \<Rightarrow> (- 1, s\<lparr>the_shell := sh\<rparr>)
                | (False, sh) \<Rightarrow>
                    (let s = s\<lparr>the_shell := sh\<rparr> in
                     if written < 0 then (- 1, s)
                     else (int (length d), s\<lparr>shell_input := shell_input s @ [take (nat written) d]\<rparr>)))
           | _ \<Rightarrow> (- 1, s)))"

text \<open>
  The loop of \<open>main\<close>, one turn: what the shell has printed goes to the client.  The buffer has
  room for exactly the bytes that are asked for.
\<close>

definition comd_forward :: "string option \<Rightarrow> bool \<Rightarrow> comd \<Rightarrow> comd res" where
  "comd_forward printed ok s =
     (if \<not> opened (the_shell s) then Inr s
      else (case printed of
        None \<Rightarrow> Inr (s\<lparr>the_shell := sclose (the_shell s)\<rparr>)
      | Some d \<Rightarrow>
          if d = [] then Inr (s\<lparr>the_shell := sclose (the_shell s)\<rparr>)
          else if 16384 \<le> length d then Inl OutOfBounds
          else if shell_client_fd s = None then Inl Uninitialised
          else (case comd_send ok d s of
              (True, s) \<Rightarrow> Inr (s\<lparr>the_shell := sclose (the_shell s)\<rparr>)
            | (False, s) \<Rightarrow> Inr s)))"

section \<open>The client\<close>

record com =
  com_state :: ComdState
  com_routine :: ComdRoutine
  com_fd :: "int option"
  forwards_stdin :: bool
  com_sent :: "string list"
  com_printed :: "string list"

definition new_com :: "ComdRoutine \<Rightarrow> com" where
  "new_com r = \<lparr>com_state = VERIFY_IDENTITY, com_routine = r, com_fd = None,
     forwards_stdin = False, com_sent = [], com_printed = []\<rparr>"

definition com_send :: "bool \<Rightarrow> string \<Rightarrow> com \<Rightarrow> bool \<times> com" where
  "com_send ok d s = (if ok then (False, s\<lparr>com_sent := com_sent s @ [d]\<rparr>) else (True, s))"

definition com_on_connect :: "bool \<Rightarrow> com \<Rightarrow> bool \<times> com" where
  "com_on_connect ok s = com_send ok IDENTITY s"

definition com_on_read :: "bool \<Rightarrow> int \<Rightarrow> string \<Rightarrow> com \<Rightarrow> int \<times> com" where
  "com_on_read ok fd d s =
     (let s = s\<lparr>com_printed := com_printed s @ [c_str d]\<rparr> in
      case com_state s of
        VERIFY_IDENTITY \<Rightarrow>
          (case com_send ok (ROUTINES (com_routine s)) s of
             (True, s) \<Rightarrow> (- 1, s)
           | (False, s) \<Rightarrow> (int (length d), s\<lparr>com_state := SELECT_ROUTINE\<rparr>))
      | SELECT_ROUTINE \<Rightarrow>
          (int (length d),
           (if com_routine s = SHELL then s\<lparr>com_fd := Some fd, forwards_stdin := True\<rparr> else s)
             \<lparr>com_state := EXCHANGE_PACKETS\<rparr>)
      | EXCHANGE_PACKETS \<Rightarrow> (int (length d), s))"

text \<open>
  \<open>on_event_loop\<close> once the shell has started: \<open>None\<close> when nothing was typed, the result of the
  read otherwise; \<open>True\<close> ends the client.
\<close>

definition com_event_loop :: "string option \<Rightarrow> bool \<Rightarrow> com \<Rightarrow> (bool \<times> com) res" where
  "com_event_loop typed ok s =
     (if \<not> forwards_stdin s then Inr (False, s)
      else (case typed of
        None \<Rightarrow> Inr (False, s)
      | Some d \<Rightarrow>
          if d = [] then Inr (True, s)
          else if 16384 \<le> length d then Inl OutOfBounds
          else Inr (com_send ok d s)))"

section \<open>Who reaches the shell\<close>

text \<open>What happens to the server, with the results of the system calls.\<close>

datatype comd_event =
    Comd_connect
  | Comd_disconnect
  | Comd_read bool "(int \<times> int \<times> int) option" int int string
  | Comd_forward "string option" bool

definition comd_step :: "comd \<Rightarrow> comd_event \<Rightarrow> comd" where
  "comd_step s e =
     (case e of
        Comd_connect \<Rightarrow> comd_on_connect s
      | Comd_disconnect \<Rightarrow> comd_on_disconnect s
      | Comd_read ok forked written fd d \<Rightarrow> snd (comd_on_read ok forked written fd d s)
      | Comd_forward printed ok \<Rightarrow>
          (case comd_forward printed ok s of Inr s' \<Rightarrow> s' | Inl _ \<Rightarrow> s))"

text \<open>The messages since the last connection.\<close>

fun since_connect :: "comd_event list \<Rightarrow> string list \<Rightarrow> string list" where
  "since_connect [] acc = acc"
| "since_connect (Comd_connect # es) acc = since_connect es []"
| "since_connect (Comd_read ok forked written fd d # es) acc = since_connect es (acc @ [c_str d])"
| "since_connect (e # es) acc = since_connect es acc"

fun has_subseq :: "string list \<Rightarrow> string list \<Rightarrow> bool" where
  "has_subseq [] ms = True"
| "has_subseq (p # ps) [] = False"
| "has_subseq (p # ps) (m # ms) = (if m = p then has_subseq ps ms else has_subseq (p # ps) ms)"

lemma has_subseq_append: "has_subseq ps ms \<Longrightarrow> has_subseq ps (ms @ ms')"
  by (induction ps ms rule: has_subseq.induct) (auto split: if_splits)

lemma has_subseq_last: "has_subseq [m] (ms @ [m])"
  by (induction ms) auto

lemma has_subseq_snoc: "has_subseq [p] ms \<Longrightarrow> has_subseq [p, m] (ms @ [m])"
  by (induction ms) (auto simp: has_subseq_last)

text \<open>
  The state with the messages since the last connection: a routine is being selected only after
  the identity, and packets are exchanged only after the identity and then the shell's request.
\<close>

definition gated :: "comd \<times> string list \<Rightarrow> bool" where
  "gated p \<longleftrightarrow>
     (state (fst p) = SELECT_ROUTINE \<longrightarrow> has_subseq [IDENTITY] (snd p))
     \<and> (state (fst p) = EXCHANGE_PACKETS \<longrightarrow> has_subseq [IDENTITY, ROUTINES SHELL] (snd p))"

definition traced_step :: "comd \<times> string list \<Rightarrow> comd_event \<Rightarrow> comd \<times> string list" where
  "traced_step p e = (comd_step (fst p) e, since_connect [e] (snd p))"

lemma comd_on_read_state:
  "state (snd (comd_on_read ok forked written fd d s)) =
    (case state s of
       VERIFY_IDENTITY \<Rightarrow> if c_str d = IDENTITY \<and> ok then SELECT_ROUTINE else VERIFY_IDENTITY
     | SELECT_ROUTINE \<Rightarrow> if c_str d = ROUTINES SHELL \<and> ok then EXCHANGE_PACKETS else SELECT_ROUTINE
     | EXCHANGE_PACKETS \<Rightarrow> EXCHANGE_PACKETS)"
  by (auto simp: comd_on_read_def comd_send_def Let_def split: ComdState.split ComdRoutine.split
      prod.split bool.split)

lemma comd_forward_state: "comd_forward printed ok s = Inr s' \<Longrightarrow> state s' = state s"
  by (auto simp: comd_forward_def comd_send_def split: option.splits if_splits)

interpretation comd_gate: event_machine traced_step gated "\<lambda>_ _. True"
proof
  fix p e
  assume g: "gated p"
  show "gated (traced_step p e)"
  proof (cases e)
    case (Comd_read ok forked written fd d)
    with g show ?thesis
      by (auto simp: gated_def traced_step_def comd_step_def comd_on_read_state has_subseq_last
          intro: has_subseq_snoc has_subseq_append split: ComdState.splits if_splits)
  next
    case (Comd_forward printed ok)
    with g show ?thesis
      by (auto simp: gated_def traced_step_def comd_step_def dest: comd_forward_state
          split: sum.split)
  qed (use g in \<open>simp_all add: gated_def traced_step_def comd_step_def comd_on_connect_def
      comd_on_disconnect_def\<close>)
qed

lemma traced_run:
  "run_steps traced_step (s, acc) es = (run_steps comd_step s es, since_connect es acc)"
proof (induction es arbitrary: s acc)
  case (Cons e es)
  then show ?case by (cases e) (simp_all add: traced_step_def)
qed simp

section \<open>What the remote shell promises\<close>

text \<open>
  C7. Nothing reaches the shell of the server unless the client that is connected has sent the
  identity and, after it, the request for the shell, since it connected: for every sequence of
  connections, messages and failures, an accepted packet was preceded by both.
\<close>

theorem shell_only_after_identity:
  assumes "shell_input (comd_step s (Comd_read ok forked written fd d)) \<noteq> shell_input s"
    "s = run_steps comd_step new_comd events"
  shows "has_subseq [IDENTITY, ROUTINES SHELL] (since_connect events [])"
proof -
  have "state s = EXCHANGE_PACKETS"
    using assms(1) by (auto simp: comd_step_def comd_on_read_def comd_send_def
        split: ComdState.splits if_splits prod.splits)
  moreover have "gated (run_steps traced_step (new_comd, []) events)"
    by (rule comd_gate.run_inv_always) (simp_all add: gated_def new_comd_def)
  ultimately show ?thesis using assms(2) by (simp add: traced_run gated_def)
qed

definition sample_session :: "comd_event list" where
  "sample_session = [Comd_connect, Comd_read True None 0 9 IDENTITY,
     Comd_read True None 0 9 (ROUTINES SHELL)]"

lemma shell_only_after_identity_witness:
  "has_subseq [IDENTITY, ROUTINES SHELL] (since_connect sample_session [])"
proof (rule shell_only_after_identity [OF _ refl])
  show "shell_input (comd_step (run_steps comd_step new_comd sample_session)
      (Comd_read True (Some (100, 10, 11)) 2 9 ''ls'')) \<noteq>
      shell_input (run_steps comd_step new_comd sample_session)" by code_simp
qed

definition handshake :: "comd \<times> com" where
  "handshake =
     (let s = comd_on_connect new_comd;
          c = snd (com_on_connect True (new_com SHELL));
          s = snd (comd_on_read True None 0 4 (last (com_sent c)) s);
          c = snd (com_on_read True 3 (last (sent s)) c);
          s = snd (comd_on_read True None 0 4 (last (com_sent c)) s);
          c = snd (com_on_read True 3 (last (sent s)) c)
      in (s, c))"

definition session_ends :: "string \<Rightarrow> comd \<times> com" where
  "session_ends typed =
     (let (s, c) = handshake;
          c = (case com_event_loop (Some typed) True c of Inr (_, c) \<Rightarrow> c | Inl _ \<Rightarrow> c);
          s = snd (comd_on_read True (Some (100, 10, 11)) (int (length (last (com_sent c)))) 4
            (last (com_sent c)) s)
      in (s, c))"

lemma handshake_done:
  "handshake =
    (\<lparr>state = EXCHANGE_PACKETS, routine = SHELL, shell_client_fd = Some 4, the_shell = new_shell,
       sent = [VERIFIED, START_ROUTINE], shell_input = []\<rparr>,
     \<lparr>com_state = EXCHANGE_PACKETS, com_routine = SHELL, com_fd = Some 3, forwards_stdin = True,
       com_sent = [IDENTITY, ROUTINES SHELL], com_printed = [VERIFIED, START_ROUTINE]\<rparr>)"
  by code_simp

text \<open>
  The two ends fit: a client that wants the shell and a fresh server answer each other until
  both exchange packets, and what is typed then arrives at the shell.
\<close>

theorem session_reaches_shell:
  assumes "typed \<noteq> []" "length typed < 16384"
  shows "state (fst (session_ends typed)) = EXCHANGE_PACKETS
    \<and> com_state (snd (session_ends typed)) = EXCHANGE_PACKETS
    \<and> shell_input (fst (session_ends typed)) = [typed]
    \<and> shell_client_fd (fst (session_ends typed)) = Some 4"
  using assms
  by (simp add: session_ends_def handshake_done com_event_loop_def com_send_def comd_on_read_def
      sopen_def new_shell_def)

lemma session_reaches_shell_witness:
  "state (fst (session_ends ''ls'')) = EXCHANGE_PACKETS
    \<and> com_state (snd (session_ends ''ls'')) = EXCHANGE_PACKETS
    \<and> shell_input (fst (session_ends ''ls'')) = [''ls'']
    \<and> shell_client_fd (fst (session_ends ''ls'')) = Some 4"
  by (rule session_reaches_shell) simp_all

end
