(* ===== verification/Containers.thy ===== *)
theory Containers
  imports Prelude
begin

text \<open>
  The pointer structures \<open>cpp-source/queue.hpp\<close> and \<open>cpp-source/stack.hpp\<close>, on an explicit heap
  of nodes: an address that was deleted, or never allocated, has no node, so that a dangling or
  null pointer that is followed is a fault.  Both are refined to lists through one contract.
\<close>

section \<open>Nodes on the heap\<close>

type_synonym ptr = nat

record 'a node =
  value_of :: 'a
  prev :: ptr
  next_of :: ptr

text \<open>\<open>fresh\<close> is the address the next \<open>new\<close> returns; the null pointer is 0.\<close>

record 'a heap =
  node_at :: "ptr \<Rightarrow> 'a node option"
  fresh :: ptr

definition empty_heap :: "'a heap" where
  "empty_heap = \<lparr>node_at = (\<lambda>_. None), fresh = 1\<rparr>"

definition alloc :: "'a node \<Rightarrow> 'a heap \<Rightarrow> ptr \<times> 'a heap" where
  "alloc n h = (fresh h, \<lparr>node_at = (node_at h)(fresh h \<mapsto> n), fresh = fresh h + 1\<rparr>)"

definition free :: "ptr \<Rightarrow> 'a heap \<Rightarrow> 'a heap" where
  "free p h = h\<lparr>node_at := (node_at h)(p := None)\<rparr>"

definition load :: "'a heap \<Rightarrow> ptr \<Rightarrow> 'a node res" where
  "load h p = (if p = 0 then Inl NullDeref
     else case node_at h p of None \<Rightarrow> Inl OutOfBounds | Some n \<Rightarrow> Inr n)"

definition store :: "ptr \<Rightarrow> ('a node \<Rightarrow> 'a node) \<Rightarrow> 'a heap \<Rightarrow> 'a heap res" where
  "store p f h = bindR (load h p) (\<lambda>n. Inr (h\<lparr>node_at := (node_at h)(p \<mapsto> f n)\<rparr>))"

text \<open>The loop of both \<open>operator<<\<close>: the values from a node on.\<close>

partial_function (option) walk :: "'a heap \<Rightarrow> ptr \<Rightarrow> 'a list prog" where
  "walk h p =
     (if p = 0 then ret []
      else bindP (lift_res (load h p)) (\<lambda>n.
           bindP (walk h (next_of n)) (\<lambda>xs. ret (value_of n # xs))))"

declare walk.simps [code]

section \<open>The queue\<close>

record 'a queue =
  q_heap :: "'a heap"
  q_head :: ptr
  q_tail :: ptr
  q_size :: "32 word"

definition new_queue :: "'a queue" where
  "new_queue = \<lparr>q_heap = empty_heap, q_head = 0, q_tail = 0, q_size = 0\<rparr>"

definition enqueue :: "'a \<Rightarrow> 'a queue \<Rightarrow> 'a queue res" where
  "enqueue new_value q =
     (let (new_node, h) = alloc \<lparr>value_of = new_value, prev = 0, next_of = q_head q\<rparr> (q_heap q)
      in bindR (if q_head q \<noteq> 0 then store (q_head q) (\<lambda>n. n\<lparr>prev := new_node\<rparr>) h else Inr h)
           (\<lambda>h. Inr \<lparr>q_heap = h, q_head = new_node,
              q_tail = (if q_tail q = 0 then new_node else q_tail q), q_size = q_size q + 1\<rparr>))"

definition dequeue :: "'a queue \<Rightarrow> ('a \<times> 'a queue) res" where
  "dequeue q =
     (if q_tail q = 0 then Inl (RuntimeError ''Queue::dequeue'')
      else bindR (load (q_heap q) (q_tail q)) (\<lambda>result_node.
        bindR (if prev result_node = 0 then Inr (q_heap q, 0, 0)
               else bindR (store (prev result_node) (\<lambda>n. n\<lparr>next_of := 0\<rparr>) (q_heap q))
                      (\<lambda>h. Inr (h, q_head q, prev result_node)))
          (\<lambda>(h, hd, tl). Inr (value_of result_node,
             \<lparr>q_heap = free (q_tail q) h, q_head = hd, q_tail = tl, q_size = q_size q - 1\<rparr>))))"

section \<open>The stack\<close>

text \<open>A node of the stack has no \<open>prev\<close>; the model leaves it null.\<close>

record 'a stack =
  s_heap :: "'a heap"
  s_head :: ptr
  s_size :: "32 word"

definition new_stack :: "'a stack" where
  "new_stack = \<lparr>s_heap = empty_heap, s_head = 0, s_size = 0\<rparr>"

definition push :: "'a \<Rightarrow> 'a stack \<Rightarrow> 'a stack res" where
  "push new_value s =
     (let (new_node, h) = alloc \<lparr>value_of = new_value, prev = 0, next_of = s_head s\<rparr> (s_heap s)
      in Inr \<lparr>s_heap = h, s_head = new_node, s_size = s_size s + 1\<rparr>)"

definition pop :: "'a stack \<Rightarrow> ('a \<times> 'a stack) res" where
  "pop s =
     (if s_head s = 0 then Inl (RuntimeError ''Stack::pop'')
      else bindR (load (s_heap s) (s_head s)) (\<lambda>result_node.
        Inr (value_of result_node,
          \<lparr>s_heap = free (s_head s) (s_heap s), s_head = next_of result_node,
            s_size = s_size s - 1\<rparr>)))"

section \<open>Chains\<close>

text \<open>
  \<open>chain nat h q ps xs e\<close>: the nodes \<open>ps\<close> hold \<open>xs\<close>, each points to the next, the last to \<open>e\<close>;
  with \<open>both\<close> each also points back, the first to \<open>q\<close>.
\<close>

fun first :: "ptr list \<Rightarrow> ptr \<Rightarrow> ptr" where
  "first [] e = e"
| "first (p # ps) e = p"

fun chain :: "bool \<Rightarrow> (ptr \<Rightarrow> 'a node option) \<Rightarrow> ptr \<Rightarrow> ptr list \<Rightarrow> 'a list \<Rightarrow> ptr \<Rightarrow> bool" where
  "chain both m q [] xs e = (xs = [])"
| "chain both m q (p # ps) xs e =
     (case xs of [] \<Rightarrow> False
      | x # xs \<Rightarrow> (\<exists>b. m p = Some \<lparr>value_of = x, prev = b, next_of = first ps e\<rparr>
          \<and> (both \<longrightarrow> b = q)) \<and> chain both m p ps xs e)"

lemma chain_cong: "\<forall>p \<in> set ps. m' p = m p \<Longrightarrow> chain both m' q ps xs e = chain both m q ps xs e"
  by (induction ps arbitrary: q xs) (auto split: list.split)

lemma chain_upd [simp]: "p \<notin> set ps \<Longrightarrow> chain both (m(p := v)) q ps xs e = chain both m q ps xs e"
  by (rule chain_cong) auto

lemma first_append: "first (ps @ ps') e = first ps (first ps' e)"
  by (cases ps) simp_all

lemma chain_length: "chain both m q ps xs e \<Longrightarrow> length ps = length xs"
  by (induction ps arbitrary: q xs) (auto split: list.splits)

lemma chain_snoc:
  "length ps = length xs \<Longrightarrow> chain both m q (ps @ [p]) (xs @ [x]) e \<longleftrightarrow>
    chain both m q ps xs p \<and> (\<exists>b. m p = Some \<lparr>value_of = x, prev = b, next_of = e\<rparr>
      \<and> (both \<longrightarrow> b = (if ps = [] then q else last ps)))"
  by (induction ps xs arbitrary: q rule: list_induct2) (auto simp: first_append)

lemma chain_walk:
  assumes "chain both (node_at h) q ps xs 0" "0 \<notin> set ps"
  shows "walk h (first ps 0) = ret xs"
  using assms
proof (induction ps arbitrary: q xs)
  case Nil
  then show ?case by (simp add: walk.simps)
next
  case (Cons p ps)
  from Cons.prems obtain x ys b where xs: "xs = x # ys"
    and n: "node_at h p = Some \<lparr>value_of = x, prev = b, next_of = first ps 0\<rparr>"
    and c: "chain both (node_at h) p ps ys 0"
    by (auto split: list.splits)
  have "walk h (first ps 0) = ret ys" using Cons.IH [OF c] Cons.prems(2) by simp
  with n Cons.prems(2) show ?case by (subst walk.simps) (simp add: load_def xs)
qed

lemma chain_heap_bound:
  "chain both m q ps xs e \<Longrightarrow> m p = None \<Longrightarrow> p \<notin> set ps"
  by (induction ps arbitrary: q xs) (auto split: list.splits)

section \<open>The contract of a container\<close>

text \<open>
  \<open>elems\<close> lists what is inside, the next to come out first; \<open>add\<close> says where a new value goes.
  A sequence of operations then gives what the list gives.
\<close>

datatype 'a operation = Put 'a | Take

fun list_outputs :: "('a \<Rightarrow> 'a list \<Rightarrow> 'a list) \<Rightarrow> 'a list \<Rightarrow> 'a operation list \<Rightarrow> 'a option list" where
  "list_outputs add ys [] = []"
| "list_outputs add ys (Put x # ops) = list_outputs add (add x ys) ops"
| "list_outputs add [] (Take # ops) = None # list_outputs add [] ops"
| "list_outputs add (y # ys) (Take # ops) = Some y # list_outputs add ys ops"

text \<open>
  The outputs of the code's operations; an exception of \<open>take\<close> leaves the container as it was,
  any other fault ends the run with \<open>None\<close>.
\<close>

fun outputs ::
  "('a \<Rightarrow> 'c \<Rightarrow> 'c res) \<Rightarrow> ('c \<Rightarrow> ('a \<times> 'c) res) \<Rightarrow> 'c \<Rightarrow> 'a operation list \<Rightarrow> 'a option list option"
where
  "outputs put get c [] = Some []"
| "outputs put get c (Put x # ops) =
     (case put x c of Inl _ \<Rightarrow> None | Inr c' \<Rightarrow> outputs put get c' ops)"
| "outputs put get c (Take # ops) =
     (case get c of
        Inl (RuntimeError _) \<Rightarrow> map_option (Cons None) (outputs put get c ops)
      | Inl _ \<Rightarrow> None
      | Inr (y, c') \<Rightarrow> map_option (Cons (Some y)) (outputs put get c' ops))"

locale container =
  fixes put :: "'a \<Rightarrow> 'c \<Rightarrow> 'c res"
    and get :: "'c \<Rightarrow> ('a \<times> 'c) res"
    and elems :: "'c \<Rightarrow> 'a list"
    and count :: "'c \<Rightarrow> 32 word"
    and inv :: "'c \<Rightarrow> bool"
    and add :: "'a \<Rightarrow> 'a list \<Rightarrow> 'a list"
  assumes put_add: "inv c \<Longrightarrow> \<exists>c'. put x c = Inr c' \<and> inv c' \<and> elems c' = add x (elems c)"
    and get_empty: "inv c \<Longrightarrow> elems c = [] \<Longrightarrow> \<exists>msg. get c = Inl (RuntimeError msg)"
    and get_first: "inv c \<Longrightarrow> elems c = y # ys \<Longrightarrow>
      \<exists>c'. get c = Inr (y, c') \<and> inv c' \<and> elems c' = ys"
    and count_elems: "inv c \<Longrightarrow> count c = of_nat (length (elems c))"
begin

lemma outputs_list: "inv c \<Longrightarrow> outputs put get c ops = Some (list_outputs add (elems c) ops)"
proof (induction ops arbitrary: c)
  case (Cons oper ops)
  show ?case
  proof (cases oper)
    case (Put x)
    with Cons put_add [of c x] show ?thesis by auto
  next
    case Take
    show ?thesis
    proof (cases "elems c")
      case Nil
      with Take Cons get_empty [of c] show ?thesis by auto
    next
      case (Cons y ys)
      with Take Cons.IH Cons.prems get_first [of c y ys] show ?thesis by auto
    qed
  qed
qed simp

end

section \<open>The queue is a container\<close>

definition walked :: "'a heap \<Rightarrow> ptr \<Rightarrow> 'a list" where
  "walked h p = (case walk h p of Some (Inr xs) \<Rightarrow> xs | _ \<Rightarrow> [])"

definition q_elems :: "'a queue \<Rightarrow> 'a list" where
  "q_elems q = rev (walked (q_heap q) (q_head q))"

definition q_rep :: "'a queue \<Rightarrow> ptr list \<Rightarrow> 'a list \<Rightarrow> bool" where
  "q_rep q ps xs \<longleftrightarrow>
     chain True (node_at (q_heap q)) 0 ps xs 0 \<and> distinct ps \<and> 0 \<notin> set ps
     \<and> (\<forall>p. node_at (q_heap q) p \<noteq> None \<longrightarrow> p < fresh (q_heap q)) \<and> 0 < fresh (q_heap q)
     \<and> q_head q = first ps 0 \<and> q_tail q = (if ps = [] then 0 else last ps)
     \<and> q_size q = of_nat (length xs)"

lemma q_rep_elems: "q_rep q ps xs \<Longrightarrow> q_elems q = rev xs"
  using chain_walk [of True "q_heap q" 0 ps xs] by (simp add: q_rep_def q_elems_def walked_def ret_def)

lemma q_rep_new: "q_rep new_queue [] []"
  by (simp add: q_rep_def new_queue_def empty_heap_def)

lemma q_rep_fresh: "q_rep q ps xs \<Longrightarrow> fresh (q_heap q) \<notin> set ps"
  unfolding q_rep_def by (metis chain_heap_bound less_irrefl)

lemma enqueue_rep:
  assumes r: "q_rep q ps xs"
  shows "\<exists>q'. enqueue x q = Inr q' \<and> q_rep q' (fresh (q_heap q) # ps) (x # xs)"
proof (cases ps)
  case Nil
  with r show ?thesis
    by (auto simp: q_rep_def enqueue_def alloc_def)
next
  case (Cons p ps')
  with r obtain y ys where "xs = y # ys"
    "node_at (q_heap q) p = Some \<lparr>value_of = y, prev = 0, next_of = first ps' 0\<rparr>"
    by (auto simp: q_rep_def split: list.splits)
  moreover have "ps' = [] \<or> last ps' \<noteq> 0"
    using r Cons by (metis last_in_set list.set_intros(2) q_rep_def)
  ultimately show ?thesis using r Cons q_rep_fresh [OF r]
    by (auto simp: q_rep_def enqueue_def alloc_def store_def load_def less_Suc_eq)
qed

lemma dequeue_rep:
  assumes r: "q_rep q (ps @ [p]) (xs @ [x])" and l: "length ps = length xs"
  shows "\<exists>q'. dequeue q = Inr (x, q') \<and> q_rep q' ps xs"
proof (cases ps rule: rev_cases)
  case Nil
  with r l show ?thesis
    by (auto simp: q_rep_def dequeue_def load_def free_def)
next
  case (snoc ps' p')
  with l obtain xs' x' where xs: "xs = xs' @ [x']" "length ps' = length xs'"
    by (cases xs rule: rev_cases) auto
  have "chain True (node_at (q_heap q)) 0 (ps @ [p]) (xs @ [x]) 0" using r by (simp add: q_rep_def)
  with l have "chain True (node_at (q_heap q)) 0 ps xs p"
    "\<exists>b. node_at (q_heap q) p = Some \<lparr>value_of = x, prev = b, next_of = 0\<rparr>
      \<and> b = (if ps = [] then 0 else last ps)"
    by (simp_all only: chain_snoc) simp_all
  with snoc xs obtain b where
    c: "chain True (node_at (q_heap q)) 0 ps' xs' p'"
    and n': "node_at (q_heap q) p' = Some \<lparr>value_of = x', prev = b, next_of = p\<rparr>"
      "b = (if ps' = [] then 0 else last ps')"
    and n: "node_at (q_heap q) p = Some \<lparr>value_of = x, prev = p', next_of = 0\<rparr>"
    by (auto simp: chain_snoc)
  have d: "p \<notin> set ps'" "p' \<notin> set ps'" "p \<noteq> p'" "p \<noteq> 0" "p' \<noteq> 0" "0 \<notin> set ps'" "distinct ps'"
    using r snoc by (auto simp: q_rep_def)
  have m: "chain True ((node_at (q_heap q))(p' \<mapsto> \<lparr>value_of = x', prev = b, next_of = 0\<rparr>, p := None))
      0 (ps' @ [p']) (xs' @ [x']) 0"
    using c d n' xs by (simp add: chain_snoc)
  show ?thesis
    using r snoc xs n n' d m
    by (auto simp: q_rep_def dequeue_def load_def store_def free_def first_append)
qed

definition q_inv :: "'a queue \<Rightarrow> bool" where
  "q_inv q \<longleftrightarrow> (\<exists>ps xs. q_rep q ps xs)"

interpretation fifo: container enqueue dequeue q_elems q_size q_inv "\<lambda>x ys. ys @ [x]"
proof
  fix c :: "'a queue" and x
  assume "q_inv c"
  then obtain ps xs where r: "q_rep c ps xs" by (auto simp: q_inv_def)
  from enqueue_rep [OF this, of x] obtain c' where
    "enqueue x c = Inr c'" "q_rep c' (fresh (q_heap c) # ps) (x # xs)" by blast
  then show "\<exists>c'. enqueue x c = Inr c' \<and> q_inv c' \<and> q_elems c' = q_elems c @ [x]"
    using q_rep_elems [OF r] q_rep_elems by (fastforce simp: q_inv_def)
next
  fix c :: "'a queue"
  assume "q_inv c" "q_elems c = []"
  then obtain ps where c: "q_rep c ps []"
    using q_rep_elems unfolding q_inv_def by (metis Nil_is_rev_conv)
  then have "ps = []" using chain_length by (fastforce simp: q_rep_def)
  with c have "q_tail c = 0" by (simp add: q_rep_def)
  then show "\<exists>msg. dequeue c = Inl (RuntimeError msg)" by (simp add: dequeue_def)
next
  fix c :: "'a queue" and y ys
  assume "q_inv c" "q_elems c = y # ys"
  then obtain ps xs where r: "q_rep c ps xs" and xs: "rev xs = y # ys"
    using q_rep_elems unfolding q_inv_def by metis
  then have x: "xs = rev ys @ [y]" by (metis rev.simps(2) rev_rev_ident)
  have "length ps = length xs" using r by (auto simp: q_rep_def dest: chain_length)
  then obtain ps' p where "ps = ps' @ [p]" "length ps' = length (rev ys)"
    using x by (cases ps rule: rev_cases) auto
  with r x obtain q' where "dequeue c = Inr (y, q')" "q_rep q' ps' (rev ys)"
    using dequeue_rep [of c ps' p "rev ys" y] by auto
  then show "\<exists>c'. dequeue c = Inr (y, c') \<and> q_inv c' \<and> q_elems c' = ys"
    using q_rep_elems by (fastforce simp: q_inv_def)
next
  fix c :: "'a queue"
  assume "q_inv c"
  then obtain ps xs where r: "q_rep c ps xs" by (auto simp: q_inv_def)
  then show "q_size c = of_nat (length (q_elems c))"
    using q_rep_elems [OF r] by (simp add: q_rep_def)
qed

section \<open>The stack is a container\<close>

definition s_elems :: "'a stack \<Rightarrow> 'a list" where
  "s_elems s = walked (s_heap s) (s_head s)"

definition s_rep :: "'a stack \<Rightarrow> ptr list \<Rightarrow> 'a list \<Rightarrow> bool" where
  "s_rep s ps xs \<longleftrightarrow>
     chain False (node_at (s_heap s)) 0 ps xs 0 \<and> distinct ps \<and> 0 \<notin> set ps
     \<and> (\<forall>p. node_at (s_heap s) p \<noteq> None \<longrightarrow> p < fresh (s_heap s)) \<and> 0 < fresh (s_heap s)
     \<and> s_head s = first ps 0 \<and> s_size s = of_nat (length xs)"

lemma s_rep_elems: "s_rep s ps xs \<Longrightarrow> s_elems s = xs"
  using chain_walk [of False "s_heap s" 0 ps xs] by (simp add: s_rep_def s_elems_def walked_def ret_def)

lemma chain_any_prev: "chain False m q ps xs e = chain False m q' ps xs e"
  by (cases ps) (simp_all split: list.split)

lemma push_rep:
  assumes r: "s_rep s ps xs"
  shows "\<exists>s'. push x s = Inr s' \<and> s_rep s' (fresh (s_heap s) # ps) (x # xs)"
proof -
  have "fresh (s_heap s) \<notin> set ps"
    using r unfolding s_rep_def by (metis chain_heap_bound less_irrefl)
  with r show ?thesis
    by (auto simp: s_rep_def push_def alloc_def less_Suc_eq intro: chain_any_prev [THEN iffD1])
qed

lemma pop_rep:
  assumes r: "s_rep s (p # ps) (x # xs)"
  shows "\<exists>s'. pop s = Inr (x, s') \<and> s_rep s' ps xs"
  using r by (auto simp: s_rep_def pop_def load_def free_def intro: chain_any_prev [THEN iffD1])

definition s_inv :: "'a stack \<Rightarrow> bool" where
  "s_inv s \<longleftrightarrow> (\<exists>ps xs. s_rep s ps xs)"

interpretation lifo: container push pop s_elems s_size s_inv Cons
proof
  fix c :: "'a stack" and x
  assume "s_inv c"
  then obtain ps xs where r: "s_rep c ps xs" by (auto simp: s_inv_def)
  from push_rep [OF this, of x] obtain c' where
    "push x c = Inr c'" "s_rep c' (fresh (s_heap c) # ps) (x # xs)" by blast
  then show "\<exists>c'. push x c = Inr c' \<and> s_inv c' \<and> s_elems c' = x # s_elems c"
    using s_rep_elems [OF r] s_rep_elems by (fastforce simp: s_inv_def)
next
  fix c :: "'a stack"
  assume "s_inv c" "s_elems c = []"
  then obtain ps where c: "s_rep c ps []"
    using s_rep_elems unfolding s_inv_def by (metis )
  then have "ps = []" using chain_length by (fastforce simp: s_rep_def)
  with c have "s_head c = 0" by (simp add: s_rep_def)
  then show "\<exists>msg. pop c = Inl (RuntimeError msg)" by (simp add: pop_def)
next
  fix c :: "'a stack" and y ys
  assume "s_inv c" "s_elems c = y # ys"
  then obtain ps where r: "s_rep c ps (y # ys)"
    using s_rep_elems unfolding s_inv_def by metis
  then obtain p ps' where "ps = p # ps'" by (cases ps) (auto simp: s_rep_def)
  with r obtain c' where "pop c = Inr (y, c')" "s_rep c' ps' ys" using pop_rep [of c p ps' y ys] by auto
  then show "\<exists>c'. pop c = Inr (y, c') \<and> s_inv c' \<and> s_elems c' = ys"
    using s_rep_elems by (fastforce simp: s_inv_def)
next
  fix c :: "'a stack"
  assume "s_inv c"
  then obtain ps xs where r: "s_rep c ps xs" by (auto simp: s_inv_def)
  then show "s_size c = of_nat (length (s_elems c))"
    using s_rep_elems [OF r] by (simp add: s_rep_def)
qed

section \<open>What the containers promise\<close>

text \<open>
  C15. The queue hands out what was put into it in the order it was put in, whatever the sequence
  of operations on a new queue: no node is followed after it was deleted, no null pointer is
  followed, and a \<open>dequeue\<close> of an empty queue throws.
\<close>

theorem queue_is_first_in_first_out:
  "outputs enqueue dequeue new_queue ops = Some (list_outputs (\<lambda>x ys. ys @ [x]) [] ops)"
  for ops :: "'a operation list"
proof -
  have "q_inv (new_queue :: 'a queue)" using q_rep_new by (auto simp: q_inv_def)
  then have "outputs enqueue dequeue new_queue ops =
      Some (list_outputs (\<lambda>x ys. ys @ [x]) (q_elems new_queue) ops)"
    by (rule fifo.outputs_list)
  moreover have "q_elems (new_queue :: 'a queue) = []" using q_rep_elems [OF q_rep_new] by simp
  ultimately show ?thesis by simp
qed

text \<open>
  The stack hands out the latest value first, whatever the sequence of operations on a new
  stack, and a \<open>pop\<close> of an empty stack throws.
\<close>

theorem stack_is_last_in_first_out:
  "outputs push pop new_stack ops = Some (list_outputs Cons [] ops)"
  for ops :: "'a operation list"
proof -
  have r: "s_rep (new_stack :: 'a stack) [] []" by (simp add: s_rep_def new_stack_def empty_heap_def)
  then have "s_inv (new_stack :: 'a stack)" by (auto simp: s_inv_def)
  then have "outputs push pop new_stack ops = Some (list_outputs Cons (s_elems new_stack) ops)"
    by (rule lifo.outputs_list)
  moreover have "s_elems (new_stack :: 'a stack) = []" using s_rep_elems [OF r] by simp
  ultimately show ?thesis by simp
qed

end
