(* ===== verification/PgSql.thy ===== *)
theory PgSql
  imports Json Util
begin

text \<open>
  \<open>cpp-source/pgsql-model.hpp\<close> and \<open>pgsql-model.cpp\<close>: tables as lists of flagged columns, and the
  SQL text each operation sends.  The database client library is outside: \<open>quote\<close> is its
  \<open>txn.quote\<close>, \<open>exec\<close> runs one statement on the database and returns its rows or what the
  library throws.  Both are arguments of the operations.
\<close>

section \<open>Tables and rows\<close>

definition COL_REG :: "8 word" where "COL_REG = 0"
definition COL_AUTO :: "8 word" where "COL_AUTO = 1"
definition COL_HIDDEN :: "8 word" where "COL_HIDDEN = 2"

record Column =
  col_name :: string
  flags :: "8 word"

definition is_auto :: "Column \<Rightarrow> bool" where
  "is_auto c = (and (flags c) COL_AUTO \<noteq> 0)"

definition is_hidden :: "Column \<Rightarrow> bool" where
  "is_hidden c = (and (flags c) COL_HIDDEN \<noteq> 0)"

record PgSqlModel =
  num_insert_values :: nat
  table :: string
  cols :: "Column list"

text \<open>The constructor compares eight characters of every name with \<open>owner_id\<close>.\<close>

definition count_insert_value :: "Column \<Rightarrow> nat \<Rightarrow> nat res" where
  "count_insert_value c n =
     (if is_auto c then Inr n
      else bindR (strict_compare_inequal (col_name c) ''owner_id'' 8)
        (\<lambda>differs. Inr (if differs then n + 1 else n)))"

definition new_model :: "string \<Rightarrow> Column list \<Rightarrow> PgSqlModel res" where
  "new_model new_table new_cols =
     bindR (foldl (\<lambda>r c. bindR r (count_insert_value c)) (Inr 0) new_cols)
       (\<lambda>n. Inr \<lparr>num_insert_values = n, table = new_table, cols = new_cols\<rparr>)"

definition HasColumn :: "PgSqlModel \<Rightarrow> string \<Rightarrow> bool" where
  "HasColumn m n = list_ex (\<lambda>c. col_name c = n) (cols m)"

text \<open>A row lists its fields in order, with \<open>None\<close> for a null.\<close>

type_synonym row = "(string \<times> string option) list"

text \<open>What the library throws when a statement fails, or a field that a row lacks is read.\<close>

type_synonym pq_error = string

type_synonym 'db executor = "string \<Rightarrow> 'db \<Rightarrow> (pq_error + row list) \<times> 'db"

definition bad_field :: pq_error where "bad_field = ''no such field''"

definition Error :: "string \<Rightarrow> JsonObject" where
  "Error message = set_objectValue ''error'' (new_string message) (new_typed OBJECT)"

definition field_text :: "string option \<Rightarrow> string" where
  "field_text v = (case v of None \<Rightarrow> [] | Some t \<Rightarrow> c_str t)"

definition AnyResultToJson :: "row list \<Rightarrow> JsonObject" where
  "AnyResultToJson res =
     foldl (\<lambda>a row. push_arrayValue
         (foldl (\<lambda>j f. set_objectValue (fst f) (new_string (field_text (snd f))) j)
            (new_typed OBJECT) row) a)
       (new_typed ARRAY) res"

text \<open>\<open>row[name]\<close> of a hidden column is never evaluated.\<close>

fun row_members :: "row \<Rightarrow> Column list \<Rightarrow> JsonObject \<Rightarrow> pq_error + JsonObject" where
  "row_members r [] j = Inr j"
| "row_members r (c # cs) j =
     (if is_hidden c then row_members r cs j
      else (case map_of r (col_name c) of
          None \<Rightarrow> Inl bad_field
        | Some None \<Rightarrow> row_members r cs j
        | Some (Some v) \<Rightarrow> row_members r cs (set_objectValue (col_name c) (new_string v) j)))"

definition row_to_json :: "PgSqlModel \<Rightarrow> row \<Rightarrow> pq_error + JsonObject" where
  "row_to_json m r = row_members r (cols m) (new_typed OBJECT)"

fun rows_to_json :: "PgSqlModel \<Rightarrow> row list \<Rightarrow> JsonObject \<Rightarrow> pq_error + JsonObject" where
  "rows_to_json m [] a = Inr a"
| "rows_to_json m (r # rs) a =
     (case row_to_json m r of
        Inl e \<Rightarrow> Inl e
      | Inr j \<Rightarrow> rows_to_json m rs (push_arrayValue j a))"

definition ResultToJson :: "PgSqlModel \<Rightarrow> row list \<Rightarrow> pq_error + JsonObject" where
  "ResultToJson m res = rows_to_json m res (new_typed ARRAY)"

section \<open>Operations\<close>

text \<open>An exception that no handler takes leaves the operation as a \<open>RuntimeError\<close>.\<close>

definition uncaught :: "pq_error + 'a \<Rightarrow> 'a res" where
  "uncaught r = (case r of Inl e \<Rightarrow> Inl (RuntimeError e) | Inr j \<Rightarrow> Inr j)"

definition caught_as :: "string \<Rightarrow> pq_error + JsonObject \<Rightarrow> JsonObject res" where
  "caught_as msg r = Inr (case r of Inl e \<Rightarrow> Error msg | Inr j \<Rightarrow> j)"

definition bad_data :: string where
  "bad_data = ''You provided incomplete or bad data.''"

definition then_json :: "(pq_error + row list) \<times> 'db \<Rightarrow> (row list \<Rightarrow> pq_error + JsonObject) \<Rightarrow>
    (pq_error + JsonObject) \<times> 'db" where
  "then_json r f = (case r of (Inl e, db) \<Rightarrow> (Inl e, db) | (Inr rows, db) \<Rightarrow> (f rows, db))"

definition Execute :: "'db executor \<Rightarrow> string \<Rightarrow> 'db \<Rightarrow> JsonObject res \<times> 'db" where
  "Execute exec sql db = apfst uncaught (then_json (exec sql db) (\<lambda>rs. Inr (AnyResultToJson rs)))"

definition all_sql :: "PgSqlModel \<Rightarrow> string" where
  "all_sql m =
     ''SELECT * FROM '' @ table m
     @ (if HasColumn m ''deleted'' then '' WHERE deleted IS NULL'' else []) @ '';''"

definition All :: "'db executor \<Rightarrow> PgSqlModel \<Rightarrow> 'db \<Rightarrow> JsonObject res \<times> 'db" where
  "All exec m db =
     apfst uncaught (then_json (exec (all_sql m) db) (ResultToJson m))"

text \<open>The list of columns of a \<open>SELECT\<close>: a comma follows every shown column that is not the last.\<close>

definition select_expr :: "Column \<Rightarrow> string" where
  "select_expr c =
     (if col_name c = ''location'' then ''ST_AsGeoJSON(location) as location'' else col_name c)"

fun select_list :: "Column list \<Rightarrow> string" where
  "select_list [] = []"
| "select_list (c # cs) =
     (if is_hidden c then [] else select_expr c @ (if cs \<noteq> [] then '', '' else []))
     @ select_list cs"

definition where_check :: "PgSqlModel \<Rightarrow> string" where
  "where_check m =
     (if HasColumn m ''deleted'' then '' AND deleted IS NULL'' else [])
     @ (if HasColumn m ''created'' then '' ORDER BY created DESC;'' else [])"

definition where_sql :: "(string \<Rightarrow> string) \<Rightarrow> PgSqlModel \<Rightarrow> string \<Rightarrow> string \<Rightarrow> string" where
  "where_sql quote m key v =
     ''SELECT '' @ select_list (cols m) @ '' FROM '' @ table m @ '' WHERE '' @ key @ '' = ''
     @ quote v @ where_check m"

definition Where ::
  "(string \<Rightarrow> string) \<Rightarrow> 'db executor \<Rightarrow> PgSqlModel \<Rightarrow> string \<Rightarrow> string \<Rightarrow> 'db \<Rightarrow>
    JsonObject res \<times> 'db" where
  "Where quote exec m key v db =
     (if \<not> HasColumn m key then (Inr (Error ''Bad key.''), db)
      else apfst (caught_as bad_data)
        (then_json (exec (where_sql quote m key v) db) (ResultToJson m)))"

text \<open>\<open>res[0][0].as<const char*>()\<close>, in the object that the operations return.\<close>

definition returned_id :: "row list \<Rightarrow> pq_error + JsonObject" where
  "returned_id rs =
     (case rs of
        ((_, Some t) # _) # _ \<Rightarrow>
          Inr (set_objectValue ''id'' (new_string (c_str t)) (new_typed OBJECT))
      | _ \<Rightarrow> Inl bad_field)"

definition delete_sql :: "(string \<Rightarrow> string) \<Rightarrow> PgSqlModel \<Rightarrow> string \<Rightarrow> string" where
  "delete_sql quote m i =
     ''UPDATE '' @ table m @ '' SET deleted = now() WHERE id = '' @ quote i
     @ (if HasColumn m ''id'' then '' RETURNING id'' else []) @ '';''"

definition Delete ::
  "(string \<Rightarrow> string) \<Rightarrow> 'db executor \<Rightarrow> PgSqlModel \<Rightarrow> string \<Rightarrow> 'db \<Rightarrow> JsonObject res \<times> 'db" where
  "Delete quote exec m i db =
     apfst (caught_as bad_data) (then_json (exec (delete_sql quote m i) db) returned_id)"

type_synonym members = "(string, JsonObject) umap"

text \<open>The two loops over the values of \<open>Insert\<close>; \<open>None\<close> is a key that is no column.\<close>

definition comma :: "'a list \<Rightarrow> string" where
  "comma rest = (if rest \<noteq> [] then '', '' else [])"

fun key_list :: "PgSqlModel \<Rightarrow> members \<Rightarrow> string option" where
  "key_list m [] = Some []"
| "key_list m ((k, v) # vs) =
     (if \<not> HasColumn m k then None
      else map_option (\<lambda>s. k @ comma vs @ s) (key_list m vs))"

fun value_list :: "(string \<Rightarrow> string) \<Rightarrow> PgSqlModel \<Rightarrow> string \<Rightarrow> members \<Rightarrow> string option" where
  "value_list quote m location [] = Some []"
| "value_list quote m location ((k, v) # vs) =
     (if \<not> HasColumn m k then None
      else map_option
        (\<lambda>s. (if k = ''location'' then location else quote (stringValue v)) @ comma vs @ s)
        (value_list quote m location vs))"

text \<open>A point replaces the two coordinates; \<open>None\<close> when one is missing.\<close>

definition point_sql :: "(string \<Rightarrow> string) \<Rightarrow> string \<Rightarrow> string \<Rightarrow> string" where
  "point_sql quote lon lat =
     ''ST_GeographyFromText('' @ quote (''POINT('' @ lon @ '' '' @ lat @ '')'') @ '')''"

definition insert_location ::
  "(string \<Rightarrow> string) \<Rightarrow> PgSqlModel \<Rightarrow> members \<Rightarrow> (string \<times> members) option" where
  "insert_location quote m vs =
     (if \<not> HasColumn m ''location'' then Some ([], vs)
      else case (um_find vs ''longitude'', um_find vs ''latitude'') of
        (Some lon, Some lat) \<Rightarrow>
          Some (point_sql quote (stringValue lon) (stringValue lat),
            um_set ''location'' (new_string ''placeholder'')
              (um_erase ''latitude'' (um_erase ''longitude'' vs)))
      | _ \<Rightarrow> None)"

definition insert_sql :: "PgSqlModel \<Rightarrow> string \<Rightarrow> string \<Rightarrow> string" where
  "insert_sql m ks ws =
     ''INSERT INTO '' @ table m @ '' ('' @ ks @ '') VALUES ('' @ ws
     @ (if HasColumn m ''id'' then '') RETURNING id;'' else '');'')"

definition Insert ::
  "(string \<Rightarrow> string) \<Rightarrow> 'db executor \<Rightarrow> PgSqlModel \<Rightarrow> members \<Rightarrow> 'db \<Rightarrow>
    JsonObject option res \<times> 'db" where
  "Insert quote exec m vs db =
     (case insert_location quote m vs of
        None \<Rightarrow> (Inr (Some (Error ''Missing location information.'')), db)
      | Some (location, vs) \<Rightarrow>
          (case (key_list m vs, value_list quote m location vs) of
             (Some ks, Some ws) \<Rightarrow>
               (case exec (insert_sql m ks ws) db of
                     (Inl e, db) \<Rightarrow> (Inr (Some (Error bad_data)), db)
                   | (Inr rs, db) \<Rightarrow>
                       ((if HasColumn m ''id'' then
                           (case returned_id rs of Inl e \<Rightarrow> Inr (Some (Error bad_data))
                            | Inr j \<Rightarrow> Inr (Some j))
                         else Inr None), db))
           | _ \<Rightarrow> (Inr (Some (Error ''Bad key.'')), db)))"

definition owner_sql :: "(string \<Rightarrow> string) \<Rightarrow> PgSqlModel \<Rightarrow> string \<Rightarrow> string" where
  "owner_sql quote m i = ''SELECT * FROM '' @ table m @ '' WHERE id = '' @ quote i @ '';''"

definition IsOwner ::
  "(string \<Rightarrow> string) \<Rightarrow> 'db executor \<Rightarrow> PgSqlModel \<Rightarrow> string \<Rightarrow> string \<Rightarrow> 'db \<Rightarrow> bool res \<times> 'db" where
  "IsOwner quote exec m i owner_id db =
     (case exec (owner_sql quote m i) db of
        (Inl e, db) \<Rightarrow> (Inl (RuntimeError e), db)
      | (Inr rs, db) \<Rightarrow>
          (case rs of
             r # _ \<Rightarrow>
               (case map_of r ''owner_id'' of
                  Some (Some t) \<Rightarrow> (Inr (t = owner_id), db)
                | _ \<Rightarrow> (Inl (RuntimeError bad_field), db))
           | [] \<Rightarrow> (Inl (RuntimeError bad_field), db)))"

fun assignments :: "(string \<Rightarrow> string) \<Rightarrow> PgSqlModel \<Rightarrow> members \<Rightarrow> string option" where
  "assignments quote m [] = Some []"
| "assignments quote m ((k, v) # vs) =
     (if \<not> HasColumn m k then None
      else map_option (\<lambda>s. k @ '' = '' @ quote (stringValue v) @ comma vs @ s)
        (assignments quote m vs))"

definition update_sql :: "(string \<Rightarrow> string) \<Rightarrow> PgSqlModel \<Rightarrow> string \<Rightarrow> string \<Rightarrow> string" where
  "update_sql quote m i s =
     ''UPDATE '' @ table m @ '' SET ''
     @ (if HasColumn m ''modified'' then ''modified = now(), '' else []) @ s
     @ '' WHERE id = '' @ quote i @ '' RETURNING id;''"

definition Update ::
  "(string \<Rightarrow> string) \<Rightarrow> 'db executor \<Rightarrow> PgSqlModel \<Rightarrow> string \<Rightarrow> members \<Rightarrow> 'db \<Rightarrow>
    JsonObject res \<times> 'db" where
  "Update quote exec m i vs db =
     (case assignments quote m vs of
        None \<Rightarrow> (Inr (Error ''Bad key.''), db)
      | Some s \<Rightarrow>
          apfst (caught_as bad_data)
            (then_json (exec (update_sql quote m i s) db) returned_id))"

text \<open>The key of \<open>Access\<close> is put into the statement as it comes.\<close>

definition access_sql :: "(string \<Rightarrow> string) \<Rightarrow> PgSqlModel \<Rightarrow> string \<Rightarrow> string \<Rightarrow> string" where
  "access_sql quote m key v =
     ''SELECT * FROM '' @ table m @ '' WHERE '' @ key @ '' = '' @ quote v
     @ (if HasColumn m ''deleted'' then '' AND deleted IS NULL'' else []) @ '';''"

definition Access ::
  "(string \<Rightarrow> string) \<Rightarrow> 'db executor \<Rightarrow> PgSqlModel \<Rightarrow> string \<Rightarrow> string \<Rightarrow> string \<Rightarrow> 'db \<Rightarrow>
    JsonObject res \<times> 'db" where
  "Access quote exec m key v password db =
     apfst (caught_as ''Bad data.'')
        (then_json (exec (access_sql quote m key v) db)
          (\<lambda>rs. case rs of
              [] \<Rightarrow> Inr (Error ''Bad username.'')
            | r # _ \<Rightarrow>
                (case map_of r ''password'' of
                   Some (Some t) \<Rightarrow>
                     if t = password then row_to_json m r else Inr (Error ''Bad password.'')
                 | _ \<Rightarrow> Inl bad_field)))"

section \<open>Rows as JSON\<close>

text \<open>What a row shows: the fields of the visible columns that are not null.\<close>

definition visible :: "PgSqlModel \<Rightarrow> string \<Rightarrow> bool" where
  "visible m k = list_ex (\<lambda>c. col_name c = k \<and> \<not> is_hidden c) (cols m)"

definition shown :: "PgSqlModel \<Rightarrow> row \<Rightarrow> string \<Rightarrow> JsonObject option" where
  "shown m r k =
     (if visible m k then map_option new_string (Option.bind (map_of r k) id) else None)"

lemma set_objectValue_find [simp]:
  "um_find (objectValues (set_objectValue k v j)) k' =
    (if k' = k then Some v else um_find (objectValues j) k')"
  by (cases j) simp

lemma push_arrayValue_values [simp]:
  "arrayValues (push_arrayValue v j) = arrayValues j @ [v]"
  "objectValues (push_arrayValue v j) = objectValues j"
  by (cases j; simp)+

lemma row_members_find:
  "row_members r cs j = Inr j' \<Longrightarrow>
    um_find (objectValues j') k =
      (if list_ex (\<lambda>c. col_name c = k \<and> \<not> is_hidden c) cs \<and> Option.bind (map_of r k) id \<noteq> None
       then map_option new_string (Option.bind (map_of r k) id)
       else um_find (objectValues j) k)"
  by (induction cs arbitrary: j) (auto split: if_splits option.splits)

lemma row_to_json_find:
  "row_to_json m r = Inr j \<Longrightarrow> um_find (objectValues j) k = shown m r k"
  by (auto simp: row_to_json_def row_members_find shown_def visible_def new_typed_def)

lemma rows_to_json_rows:
  "rows_to_json m rs a = Inr j \<Longrightarrow>
    \<exists>js. arrayValues j = arrayValues a @ js \<and> map (row_to_json m) rs = map Inr js"
proof (induction rs arbitrary: a)
  case (Cons r rs)
  from Cons.prems obtain j1 where j1: "row_to_json m r = Inr j1"
    and rest: "rows_to_json m rs (push_arrayValue j1 a) = Inr j" by (auto split: sum.splits)
  from Cons.IH [OF rest] obtain js where
    "arrayValues j = (arrayValues a @ [j1]) @ js" "map (row_to_json m) rs = map Inr js"
    by auto
  with j1 show ?case by (intro exI [of _ "j1 # js"]) simp
qed simp

lemma ResultToJson_rows:
  "ResultToJson m rs = Inr j \<Longrightarrow> map (row_to_json m) rs = map Inr (arrayValues j)"
  using rows_to_json_rows [of m rs "new_typed ARRAY" j] by (auto simp: ResultToJson_def new_typed_def)

lemma Error_values [simp]:
  "arrayValues (Error msg) = []"
  "um_find (objectValues (Error msg)) ''error'' = Some (new_string msg)"
  by (simp_all add: Error_def new_typed_def um_defs)

lemma then_json_Inr:
  "then_json r f = (Inr j, db) \<longleftrightarrow> (\<exists>rs. r = (Inr rs, db) \<and> f rs = Inr j)"
  by (auto simp: then_json_def split: prod.splits sum.splits)

text \<open>The rows behind a result: they hide what is hidden.\<close>

definition rows_shown :: "PgSqlModel \<Rightarrow> JsonObject \<Rightarrow> bool" where
  "rows_shown m j \<longleftrightarrow>
     (\<forall>row \<in> set (arrayValues j). \<forall>k. um_find (objectValues row) k \<noteq> None \<longrightarrow> visible m k)"

lemma ResultToJson_shown:
  assumes "ResultToJson m rs = Inr j"
  shows "rows_shown m j"
proof -
  have "\<exists>r. row_to_json m r = Inr row" if "row \<in> set (arrayValues j)" for row
  proof -
    have "Inr row \<in> set (map (row_to_json m) rs)"
      using that ResultToJson_rows [OF assms] by simp
    then show ?thesis by auto
  qed
  then show ?thesis
    by (fastforce simp: rows_shown_def row_to_json_find shown_def split: if_splits)
qed

section \<open>Statements\<close>

text \<open>
  The abstract view of a statement: what the program wrote, and the values, which go through
  \<open>quote\<close>.  The vocabulary of a table are the SQL words, its name and the names of its columns.
\<close>

datatype piece = Fixed string | Value string

definition render :: "(string \<Rightarrow> string) \<Rightarrow> piece list \<Rightarrow> string" where
  "render quote ps = concat (map (\<lambda>p. case p of Fixed s \<Rightarrow> s | Value v \<Rightarrow> quote v) ps)"

definition sql_words :: "string list" where
  "sql_words = [''SELECT '', '' FROM '', '' WHERE '', '' = '', '' AND deleted IS NULL'',
     '' ORDER BY created DESC;'', '', '', ''ST_AsGeoJSON(location) as location'', ''UPDATE '',
     '' SET deleted = now() WHERE id = '', '' RETURNING id'', '';'', ''INSERT INTO '', '' ('',
     '') VALUES ('', '') RETURNING id;'', '');'', ''ST_GeographyFromText('', '')'', '' SET '',
     ''modified = now(), '', '' WHERE id = '', '' RETURNING id;'', ''SELECT * FROM '',
     '' WHERE deleted IS NULL'']"

definition vocabulary :: "PgSqlModel \<Rightarrow> string set" where
  "vocabulary m = set (sql_words @ table m # map col_name (cols m))"

text \<open>\<open>spelled\<close>: a text that the program wrote with the vocabulary and quoted values alone.\<close>

definition spelled :: "(string \<Rightarrow> string) \<Rightarrow> PgSqlModel \<Rightarrow> string \<Rightarrow> bool" where
  "spelled quote m s \<longleftrightarrow>
     (\<exists>ps. s = render quote ps \<and> (\<forall>w. Fixed w \<in> set ps \<longrightarrow> w \<in> vocabulary m))"

lemma spelled_Nil [simp]: "spelled quote m []"
  unfolding spelled_def by (intro exI [of _ "[]"]) (simp add: render_def)

lemma spelled_append [intro]:
  assumes "spelled quote m s" "spelled quote m t"
  shows "spelled quote m (s @ t)"
proof -
  from assms obtain ps qs where "s = render quote ps" "t = render quote qs"
    "\<forall>w. Fixed w \<in> set (ps @ qs) \<longrightarrow> w \<in> vocabulary m"
    unfolding spelled_def by auto
  then show ?thesis unfolding spelled_def by (intro exI [of _ "ps @ qs"]) (simp add: render_def)
qed

lemma spelled_quote [intro, simp]: "spelled quote m (quote v)"
  unfolding spelled_def by (intro exI [of _ "[Value v]"]) (simp add: render_def)

lemma spelled_fixed: "w \<in> vocabulary m \<Longrightarrow> spelled quote m w"
  unfolding spelled_def by (intro exI [of _ "[Fixed w]"]) (simp add: render_def)

lemma spelled_words: "list_all (spelled quote m) sql_words"
  unfolding list_all_iff by (auto simp: vocabulary_def intro: spelled_fixed)

lemmas spelled_word [simp] = spelled_words [unfolded sql_words_def list.pred_inject]

lemma spelled_table [simp]: "spelled quote m (table m)"
  by (rule spelled_fixed) (simp add: vocabulary_def)

lemma spelled_column [intro]: "HasColumn m k \<Longrightarrow> spelled quote m k"
  by (rule spelled_fixed) (auto simp: vocabulary_def HasColumn_def list_ex_iff)

lemma spelled_if:
  "(c \<Longrightarrow> spelled quote m s) \<Longrightarrow> (\<not> c \<Longrightarrow> spelled quote m t) \<Longrightarrow>
    spelled quote m (if c then s else t)"
  by simp

lemma spelled_comma [simp]: "spelled quote m (comma vs)"
  by (simp add: comma_def)

lemmas spell = spelled_append spelled_if

lemma spelled_select_list: "set cs \<subseteq> set (cols m) \<Longrightarrow> spelled quote m (select_list cs)"
proof (induction cs)
  case (Cons c cs)
  then have "spelled quote m (col_name c)"
    by (intro spelled_column) (auto simp: HasColumn_def list_ex_iff)
  then have "spelled quote m (select_expr c)"
    by (simp add: select_expr_def)
  with Cons show ?case unfolding select_list.simps by (intro spell; simp)
qed simp

lemma spelled_key_list: "key_list m vs = Some s \<Longrightarrow> spelled quote m s"
  by (induction vs arbitrary: s) (auto intro!: spelled_append split: if_splits)

lemma spelled_value_list:
  "value_list quote m location vs = Some s \<Longrightarrow> spelled quote m location \<Longrightarrow> spelled quote m s"
  by (induction vs arbitrary: s) (auto intro!: spelled_append split: if_splits)

lemma spelled_assignments: "assignments quote m vs = Some s \<Longrightarrow> spelled quote m s"
proof (induction vs arbitrary: s)
  case (Cons kv vs)
  obtain k v where kv: "kv = (k, v)" by (cases kv)
  with Cons.prems obtain t where t: "HasColumn m k" "assignments quote m vs = Some t"
    and s: "s = k @ '' = '' @ quote (stringValue v) @ comma vs @ t"
    by (auto split: if_splits)
  from t show ?case unfolding s by (intro spell; simp add: spelled_column Cons.IH)
qed simp

text \<open>The operations on the database, as requests.\<close>

datatype request =
    AllOf | WhereIs string string | DeleteOf string | InsertOf members | UpdateOf string members
  | OwnerOf string string | AccessOf string string string | ExecuteOf string

definition perform ::
  "(string \<Rightarrow> string) \<Rightarrow> 'db executor \<Rightarrow> PgSqlModel \<Rightarrow> request \<Rightarrow> 'db \<Rightarrow> 'db" where
  "perform quote exec m rq db =
     (case rq of
        AllOf \<Rightarrow> snd (All exec m db)
      | WhereIs k v \<Rightarrow> snd (Where quote exec m k v db)
      | DeleteOf i \<Rightarrow> snd (Delete quote exec m i db)
      | InsertOf vs \<Rightarrow> snd (Insert quote exec m vs db)
      | UpdateOf i vs \<Rightarrow> snd (Update quote exec m i vs db)
      | OwnerOf i u \<Rightarrow> snd (IsOwner quote exec m i u db)
      | AccessOf k v password \<Rightarrow> snd (Access quote exec m k v password db)
      | ExecuteOf sql \<Rightarrow> snd (Execute exec sql db))"

lemma snd_then_json [simp]: "snd (then_json r f) = snd r"
  by (auto simp: then_json_def split: prod.split sum.split)

lemma snd_apfst [simp]: "snd (apfst f p) = snd p"
  by (cases p) simp

lemma spelled_where_sql: "HasColumn m k \<Longrightarrow> spelled quote m (where_sql quote m k v)"
  unfolding where_sql_def where_check_def
  by (intro spell; simp add: spelled_column spelled_select_list)

lemma spelled_delete_sql: "spelled quote m (delete_sql quote m i)"
  unfolding delete_sql_def by (intro spell; simp)

lemma spelled_all_sql: "spelled quote m (all_sql m)"
  unfolding all_sql_def by (intro spell; simp)

lemma spelled_owner_sql: "spelled quote m (owner_sql quote m i)"
  unfolding owner_sql_def by (intro spell; simp)

lemma spelled_update_sql:
  "assignments quote m vs = Some s \<Longrightarrow> spelled quote m (update_sql quote m i s)"
  unfolding update_sql_def by (intro spell; simp add: spelled_assignments)

lemma spelled_point: "spelled quote m (point_sql quote lon lat)"
  unfolding point_sql_def by (intro spell; simp)

lemma spelled_location:
  assumes "insert_location quote m vs = Some (location, vs')"
  shows "spelled quote m location"
  using assms by (auto simp: insert_location_def spelled_point split: if_splits option.splits)

lemma spelled_insert_sql:
  assumes "insert_location quote m vs = Some (location, vs')" "key_list m vs' = Some ks"
    "value_list quote m location vs' = Some ws"
  shows "spelled quote m (insert_sql m ks ws)"
  unfolding insert_sql_def
  using spelled_key_list [OF assms(2)] spelled_value_list [OF assms(3) spelled_location [OF assms(1)]]
  by (intro spell; simp)

lemma snd_IsOwner [simp]: "snd (IsOwner quote exec m i u db) = snd (exec (owner_sql quote m i) db)"
  by (auto simp: IsOwner_def split: prod.split sum.split list.split option.split)

lemma snd_Insert:
  "insert_location quote m vs = Some (location, vs') \<Longrightarrow> key_list m vs' = Some ks \<Longrightarrow>
    value_list quote m location vs' = Some ws \<Longrightarrow>
    snd (Insert quote exec m vs db) = snd (exec (insert_sql m ks ws) db)"
  by (auto simp: Insert_def split: prod.split sum.split)

section \<open>What the database layer promises\<close>

lemma spelled_access_sql: "HasColumn m k \<Longrightarrow> spelled quote m (access_sql quote m k v)"
  unfolding access_sql_def by (intro spell; simp add: spelled_column)

text \<open>The text that a request hands over as a part of its statement, or as all of it.\<close>

definition raw_statement :: "(string \<Rightarrow> string) \<Rightarrow> PgSqlModel \<Rightarrow> request \<Rightarrow> string \<Rightarrow> bool" where
  "raw_statement quote m rq s =
     (case rq of
        AccessOf k v password \<Rightarrow> \<not> HasColumn m k \<and> s = access_sql quote m k v
      | ExecuteOf sql \<Rightarrow> s = sql
      | _ \<Rightarrow> False)"

text \<open>
  C6. Whatever a request asks for, the database is left alone or runs one statement, and that
  statement consists of the program's own SQL words, the table's name, the names of its columns,
  and values that went through the library's \<open>quote\<close>, with two exceptions: \<open>Execute\<close> runs the text
  that it is given, and \<open>Access\<close> puts a key that is no column into the statement as it is.
\<close>

theorem statements_are_spelled:
  "perform quote exec m rq db = db
    \<or> (\<exists>s. perform quote exec m rq db = snd (exec s db)
      \<and> (spelled quote m s \<or> raw_statement quote m rq s))"
proof (cases rq)
  case (AccessOf k v password)
  have "perform quote exec m rq db = snd (exec (access_sql quote m k v) db)"
    using AccessOf by (simp add: perform_def Access_def)
  with AccessOf spelled_access_sql [of m k quote v] show ?thesis
    by (cases "HasColumn m k") (auto simp: raw_statement_def)
next
  case (ExecuteOf sql)
  then show ?thesis by (auto simp: perform_def Execute_def raw_statement_def)
next
  case AllOf
  then show ?thesis using spelled_all_sql by (auto simp: perform_def All_def)
next
  case (WhereIs k v)
  then show ?thesis using spelled_where_sql [of m k quote v] by (auto simp: perform_def Where_def)
next
  case (DeleteOf i)
  then show ?thesis using spelled_delete_sql by (auto simp: perform_def Delete_def)
next
  case (UpdateOf i vs)
  then show ?thesis
    using spelled_update_sql [of quote m vs _ i] by (auto simp: perform_def Update_def split: option.split)
next
  case (OwnerOf i u)
  then show ?thesis
    using spelled_owner_sql [of quote m i] by (auto simp: perform_def)
next
  case (InsertOf vs)
  show ?thesis
  proof (cases "insert_location quote m vs")
    case None
    with InsertOf show ?thesis by (simp add: perform_def Insert_def)
  next
    case (Some lv)
    obtain location vs' where lv: "lv = (location, vs')" by (cases lv)
    show ?thesis
    proof (cases "\<exists>ks ws. key_list m vs' = Some ks \<and> value_list quote m location vs' = Some ws")
      case True
      then obtain ks ws where "key_list m vs' = Some ks" "value_list quote m location vs' = Some ws"
        by blast
      with InsertOf Some lv spelled_insert_sql [of quote m vs location vs' ks ws] show ?thesis
        by (auto simp: perform_def snd_Insert)
    next
      case False
      with InsertOf Some lv show ?thesis
        by (auto simp: perform_def Insert_def split: option.split)
    qed
  qed
qed

text \<open>
  C14. Every row of a result becomes an object that has exactly the fields of that row whose column
  is not hidden and whose value is not null: a password column that is flagged hidden is
  never among them.
\<close>

theorem rows_show_their_visible_fields:
  assumes "ResultToJson m rs = Inr j" "i < length rs"
  shows "length (arrayValues j) = length rs
    \<and> um_find (objectValues (arrayValues j ! i)) k = shown m (rs ! i) k"
proof -
  have e: "map (row_to_json m) rs = map Inr (arrayValues j)" by (rule ResultToJson_rows [OF assms(1)])
  then have l: "length (arrayValues j) = length rs" by (metis length_map)
  then have "row_to_json m (rs ! i) = Inr (arrayValues j ! i)"
    using assms(2) e by (metis nth_map)
  with l show ?thesis by (simp add: row_to_json_find)
qed

definition users :: PgSqlModel where
  "users = \<lparr>num_insert_values = 2, table = ''users'',
     cols = [\<lparr>col_name = ''id'', flags = COL_AUTO\<rparr>, \<lparr>col_name = ''username'', flags = COL_REG\<rparr>,
       \<lparr>col_name = ''password'', flags = COL_HIDDEN\<rparr>]\<rparr>"

definition user_row :: row where
  "user_row = [(''id'', Some ''7''), (''username'', Some ''ann''), (''password'', Some ''hash'')]"

definition user_json :: JsonObject where
  "user_json = JsonObject OBJECT []
     [(''id'', new_string ''7''), (''username'', new_string ''ann'')] []"

lemma user_row_json: "row_to_json users user_row = Inr user_json"
  by code_simp

lemma rows_show_their_visible_fields_witness:
  "length (arrayValues (JsonObject ARRAY [] [] [user_json])) = 1
    \<and> um_find (objectValues (arrayValues (JsonObject ARRAY [] [] [user_json]) ! 0)) ''password'' =
      shown users user_row ''password''"
proof -
  have "ResultToJson users [user_row] = Inr (JsonObject ARRAY [] [] [user_json])"
    by (simp add: ResultToJson_def user_row_json new_typed_def)
  from rows_show_their_visible_fields [OF this, of 0 "''password''"] show ?thesis by simp
qed

lemma Access_password:
  assumes "fst (Access quote exec m key v password db) = Inr j"
    "um_find (objectValues j) ''error'' = None"
  shows "\<exists>r rs. fst (exec (access_sql quote m key v) db) = Inr (r # rs)
    \<and> map_of r ''password'' = Some (Some password)
    \<and> um_find (objectValues j) = shown m r"
  using assms
  by (cases "exec (access_sql quote m key v) db")
    (auto simp: Access_def then_json_def caught_as_def row_to_json_find fun_eq_iff
      split: sum.splits list.splits option.splits if_splits)

text \<open>
  \<open>Access\<close> answers with an object that is no error only when the first row that the statement
  found has exactly the given password, and then the object shows that row's visible fields.
\<close>

theorem access_needs_the_password:
  assumes "fst (Access quote exec m key v password db) = Inr j"
    "um_find (objectValues j) ''error'' = None"
  shows "\<exists>r rs. fst (exec (access_sql quote m key v) db) = Inr (r # rs)
    \<and> map_of r ''password'' = Some (Some password)
    \<and> um_find (objectValues j) = shown m r"
  using assms by (rule Access_password)

definition answers :: "row list \<Rightarrow> nat executor" where
  "answers rows sql db = (Inr rows, db + 1)"

lemma access_needs_the_password_witness:
  "\<exists>r rs. fst (answers [user_row] (access_sql id users ''username'' ''ann'') 0) = Inr (r # rs)
    \<and> map_of r ''password'' = Some (Some ''hash'')
    \<and> um_find (objectValues user_json) = shown users r"
proof (rule access_needs_the_password)
  have "map_of user_row ''password'' = Some (Some ''hash'')" by code_simp
  then show "fst (Access id (answers [user_row]) users ''username'' ''ann'' ''hash'' 0) =
      Inr user_json"
    by (simp add: Access_def answers_def then_json_def caught_as_def user_row_json)
  show "um_find (objectValues user_json) ''error'' = None" by code_simp
qed

lemma key_list_None: "key_list m vs = None \<longleftrightarrow> (\<exists>k \<in> fst ` set vs. \<not> HasColumn m k)"
  by (induction vs) auto

lemma assignments_None: "assignments quote m vs = None \<longleftrightarrow> (\<exists>k \<in> fst ` set vs. \<not> HasColumn m k)"
  by (induction vs) auto

lemma um_count_keys: "um_count vs k \<longleftrightarrow> k \<in> fst ` set vs"
  by (simp add: um_count_def map_of_eq_None_iff)

lemma insert_location_keys:
  assumes "insert_location quote m vs = Some (location, vs')" "um_count vs k"
    "k \<noteq> ''longitude''" "k \<noteq> ''latitude''"
  shows "um_count vs' k"
  using assms by (auto simp: insert_location_def split: if_splits option.splits)

text \<open>
  A request with a key that is no column of the table is refused before the database is
  asked: \<open>Where\<close>, \<open>Update\<close> and \<open>Insert\<close> return an error object and run nothing.  (The two
  coordinates stand for the column of the location.)
\<close>

theorem bad_key_runs_nothing:
  assumes "um_count vs k" "\<not> HasColumn m k" "k \<noteq> ''longitude''" "k \<noteq> ''latitude''"
  shows "Where quote exec m k v db = (Inr (Error ''Bad key.''), db)
    \<and> Update quote exec m i vs db = (Inr (Error ''Bad key.''), db)
    \<and> Insert quote exec m vs db \<in> {(Inr (Some (Error ''Bad key.'')), db),
        (Inr (Some (Error ''Missing location information.'')), db)}"
proof (intro conjI)
  show "Where quote exec m k v db = (Inr (Error ''Bad key.''), db)"
    using assms by (simp add: Where_def)
  have "assignments quote m vs = None" using assms by (auto simp: assignments_None um_count_keys)
  then show "Update quote exec m i vs db = (Inr (Error ''Bad key.''), db)"
    by (simp add: Update_def)
  show "Insert quote exec m vs db \<in> {(Inr (Some (Error ''Bad key.'')), db),
      (Inr (Some (Error ''Missing location information.'')), db)}"
  proof (cases "insert_location quote m vs")
    case (Some lv)
    obtain location vs' where lv: "lv = (location, vs')" by (cases lv)
    have "um_count vs' k" using insert_location_keys assms Some lv by blast
    then have "key_list m vs' = None" using assms(2) by (auto simp: key_list_None um_count_keys)
    with Some lv show ?thesis by (simp add: Insert_def)
  qed (simp add: Insert_def)
qed

lemma bad_key_runs_nothing_witness:
  "Where id (\<lambda>s (log :: string list). (Inr [], log @ [s])) users ''1=1;--'' ''x'' [] =
      (Inr (Error ''Bad key.''), [])
    \<and> Update id (\<lambda>s log. (Inr [], log @ [s])) users ''7'' [(''1=1;--'', new_string ''x'')] [] =
      (Inr (Error ''Bad key.''), [])
    \<and> Insert id (\<lambda>s log. (Inr [], log @ [s])) users [(''1=1;--'', new_string ''x'')] [] \<in>
      {(Inr (Some (Error ''Bad key.'')), []),
       (Inr (Some (Error ''Missing location information.'')), [])}"
  by (rule bad_key_runs_nothing) (simp_all add: um_count_def users_def HasColumn_def)

text \<open>
  The columns of a \<open>SELECT\<close> are the visible ones with commas between them, except that a
  hidden last column leaves a comma behind the last visible one, which is no SQL.
\<close>

theorem select_list_trails_a_comma:
  "select_list cs =
    join '', '' (map select_expr (filter (\<lambda>c. \<not> is_hidden c) cs))
    @ (if list_ex (\<lambda>c. \<not> is_hidden c) cs \<and> is_hidden (last cs) then '', '' else [])"
proof (induction cs)
  case (Cons c cs)
  show ?case
  proof (cases "is_hidden c \<or> cs = []")
    case True
    with Cons show ?thesis by auto
  next
    case False
    show ?thesis
    proof (cases "list_ex (\<lambda>c. \<not> is_hidden c) cs")
      case True
      then have "filter (\<lambda>c. \<not> is_hidden c) cs \<noteq> []" by (auto simp: list_ex_iff filter_empty_conv)
      with True False Cons show ?thesis by (simp add: join_Cons)
    next
      case none: False
      then have "filter (\<lambda>c. \<not> is_hidden c) cs = []" "is_hidden (last cs)"
        using False by (auto simp: list_ex_iff filter_empty_conv)
      with none False Cons show ?thesis by simp
    qed
  qed
qed simp

text \<open>
  The constructor counts the columns a client has to give: those that the database does not
  fill in by itself and whose name does not begin with \<open>owner_id\<close>.
\<close>

theorem constructor_counts_given_columns:
  "new_model t cs = Inr \<lparr>
     num_insert_values =
       length (filter (\<lambda>c. \<not> is_auto c \<and> \<not> starts_with (col_name c) ''owner_id'') cs),
     table = t, cols = cs\<rparr>"
proof -
  have one: "count_insert_value c n =
      Inr (if is_auto c \<or> starts_with (col_name c) ''owner_id'' then n else n + 1)" for c n
    using compare_literal [of "''owner_id''" "col_name c"] by (simp add: count_insert_value_def)
  have "foldl (\<lambda>r c. bindR r (count_insert_value c)) (Inr n) cs =
      Inr (n + length (filter (\<lambda>c. \<not> is_auto c \<and> \<not> starts_with (col_name c) ''owner_id'') cs))" for n
    by (induction cs arbitrary: n) (simp_all add: one)
  then show ?thesis by (simp add: new_model_def)
qed

end
