(* ===== verification/Rearm.thy ===== *)
theory Rearm
  imports EpollServer
begin

text \<open>
  A connection is registered with \<open>EPOLLONESHOT\<close>: after an event it is heard again only if the
  handler arms it, which \<open>run_thread\<close> of \<open>cpp-source/tcp-server.cpp\<close> does when \<open>recv\<close> returned
  more than zero and less than \<open>PACKET_LIMIT\<close>.  What becomes of a connection whose \<open>on_read\<close>
  answered with another value; the applications rest on this.
\<close>

section \<open>Connections that are not armed\<close>

definition unarmed :: "int \<Rightarrow> thread \<Rightarrow> thread \<Rightarrow> bool" where
  "unarmed c t u \<longleftrightarrow>
     (um_find (epoll t) c \<noteq> Some True \<longrightarrow> um_find (epoll u) c \<noteq> Some True)"

lemma unarmed_trans: "unarmed c t u \<Longrightarrow> unarmed c u v \<Longrightarrow> unarmed c t v"
  by (simp add: unarmed_def)

lemma um_find_epoll_add_other: "fd \<noteq> c \<Longrightarrow> um_find (epoll_add fd m) c = um_find m c"
  by (simp add: epoll_add_def)

lemma drop_client_unarmed: "c \<noteq> server_fd cfg \<Longrightarrow> unarmed c t (drop_client cfg d tm t)"
  by (auto simp: unarmed_def drop_client_def close_client_callback_def close_fd_def Let_def
      um_find_epoll_add_other)

lemma handle_event_unarmed:
  assumes "thread_inv cfg t" "\<not> is_stale t ev" "outcome_ok cfg t ev os"
    "ev_fd ev \<noteq> server_fd cfg" "handle_event cfg ev os t = Inr t'"
    "c \<noteq> server_fd cfg" "ev_fd ev \<noteq> c" "um_find (epoll t) c \<noteq> Some True"
  shows "um_find (epoll t') c \<noteq> Some True"
proof -
  have "unarmed c t t'"
  proof (rule handle_event_rel [where R = "unarmed c", OF _ _ _ _ _ assms(1-5)])
    show "unarmed c t v" if "unarmed c t u" "unarmed c u v" for t u v
      using that by (rule unarmed_trans)
  qed (use assms(6,7) in \<open>simp_all add: drop_client_unarmed [unfolded unarmed_def] unarmed_def send_raw_def Let_def
      um_find_epoll_mod\<close>)
  with assms(8) show ?thesis by (simp add: unarmed_def)
qed

lemma accept_loop_unarmed:
  "accepts_ok fds results \<Longrightarrow> c \<in> set fds \<Longrightarrow>
    um_find (epoll (accept_loop cfg results t)) c = um_find (epoll t) c"
proof (induction cfg results t arbitrary: fds rule: accept_loop.induct)
  case (2 cfg a as t)
  show ?case
  proof (cases "num_connections t < max_connections cfg")
    case room: True
    show ?thesis
    proof (cases a)
      case (Accepted fd details cont added timer)
      have fd: "fd \<noteq> c" using Accepted "2.prems" by auto
      show ?thesis
      proof (cases "cont \<or> \<not> added")
        case True
        with room Accepted fd show ?thesis
          by (auto simp: close_client_def close_only_def close_fd_def Let_def)
      next
        case False
        with "2.prems" Accepted obtain tm where timer: "timer = Timer_set tm True"
            and rest: "accepts_ok (tm # fd # fds) as" by (cases timer) auto
        let ?t = "t\<lparr>open_fds := fd # open_fds t, fd_to_details_map :=
          um_set fd (case details of Some d \<Rightarrow> d | None \<Rightarrow> ''NULL'') (fd_to_details_map t)\<rparr>"
        have "um_find (epoll (accept_loop cfg as (connected cfg fd timer ?t))) c =
            um_find (epoll (connected cfg fd timer ?t)) c"
          using "2.IH" [OF room Accepted refl _ rest] False "2.prems"(2) by simp
        also have "\<dots> = um_find (epoll t) c"
          using fd by (simp add: connected_def start_timer_def timer Let_def um_find_epoll_add_other)
        finally show ?thesis using room Accepted False by simp
      qed
    qed (use room in auto)
  qed auto
qed simp

section \<open>Mute clients\<close>

text \<open>A client of the thread that the kernel reports nothing about, with no event left for it.\<close>

definition mute :: "config \<Rightarrow> int \<Rightarrow> loop res \<Rightarrow> bool" where
  "mute cfg c s \<longleftrightarrow> (case s of Inl _ \<Rightarrow> False
     | Inr (t, pending) \<Rightarrow> thread_inv cfg t \<and> is_client t c \<and> um_find (epoll t) c = Some False
         \<and> c \<notin> ev_fd ` set pending)"

definition still_client :: "int \<Rightarrow> loop res \<Rightarrow> bool" where
  "still_client c s \<longleftrightarrow> (case s of Inl _ \<Rightarrow> False | Inr (t, pending) \<Rightarrow> is_client t c)"

definition stays :: "config \<Rightarrow> int \<Rightarrow> loop res \<Rightarrow> loop_event \<Rightarrow> bool" where
  "stays cfg c s e \<longleftrightarrow> server_admissible cfg s e \<and> still_client c (server_step cfg s e)"

lemma client_registered:
  assumes "thread_inv cfg t" "is_client t c" "um_find (epoll t) c \<noteq> Some True"
  shows "um_find (epoll t) c = Some False"
proof -
  have "um_count (epoll t) c" using assms by (simp add: thread_inv_def core_def registered_ok_def)
  then show ?thesis using assms(3) by (cases "um_find (epoll t) c") (auto simp: um_count_find)
qed

lemma handle_event_mute:
  assumes inv: "thread_inv cfg t" and c: "is_client t c" and m: "um_find (epoll t) c = Some False"
    and fresh: "\<not> is_stale t ev" and ok: "outcome_ok cfg t ev os" and ne: "ev_fd ev \<noteq> c"
    and t': "handle_event cfg ev os t = Inr t'"
  shows "um_find (epoll t') c \<noteq> Some True"
proof (cases "ev_fd ev = server_fd cfg")
  have special: "c \<notin> set (special_fds cfg)" "c \<in> set (open_fds t)"
    using inv c by (auto simp: thread_inv_def core_def fds_ok_def)
  {
    case False
    have "c \<noteq> server_fd cfg" "um_find (epoll t) c \<noteq> Some True"
      using special m by (auto simp: special_fds_def)
    from handle_event_unarmed [OF inv fresh ok False t' this(1) ne this(2)] show ?thesis .
  next
    case True
    have no_err: "\<not> (ev_err ev \<or> ev_hup ev \<or> \<not> ev_in ev)"
      and acc: "accepts_ok (open_fds t) (accepts os)"
      using ok True server_special [of cfg] by (auto simp: outcome_ok_def)
    have sp: "server_fd cfg \<noteq> timeout_epoll_fd cfg" "server_fd cfg \<noteq> broadcast_pipe0 cfg"
        "server_fd cfg \<noteq> c"
      using inv special by (auto simp: thread_inv_def core_def fds_ok_def special_fds_def)
    have "t' = handle_server cfg (try_lock os) (accepts os) t"
      using t' True no_err sp by (simp add: handle_event_def)
    then show ?thesis
      using accept_loop_unarmed [OF acc special(2), of cfg t] m sp
      by (auto simp: handle_server_def Let_def um_find_epoll_mod)
  }
qed

interpretation mute_client: event_machine "server_step cfg" "mute cfg c" "stays cfg c"
  for cfg c
proof
  fix s e
  assume mute: "mute cfg c s" and stays: "stays cfg c s e"
  then obtain t pending where s: "s = Inr (t, pending)" and inv: "thread_inv cfg t"
    and c: "is_client t c" and m: "um_find (epoll t) c = Some False" "c \<notin> ev_fd ` set pending"
    by (cases s) (auto simp: mute_def)
  show "mute cfg c (server_step cfg s e)"
  proof (cases e)
    case (Wait evs)
    with stays s have "armed_round t evs" by (simp add: stays_def server_admissible_def)
    with armed_round_not [OF this m(1)] inv c m(1) s Wait show ?thesis
      by (simp add: mute_def deliver_all_inv deliver_all_clients deliver_all_epoll)
  next
    case (Handle os)
    with stays s obtain ev rest where p: "pending = ev # rest"
      and ok: "\<not> is_stale t ev" "outcome_ok cfg t ev os"
      by (cases pending) (auto simp: stays_def server_admissible_def)
    have still: "still_client c (server_step cfg s e)" using stays by (simp add: stays_def)
    then obtain t' where t': "handle_event cfg ev os t = Inr t'"
      by (cases "handle_event cfg ev os t") (auto simp: still_client_def s p Handle)
    have inv': "thread_inv cfg t'" using handle_event_inv [OF inv ok] t' by simp
    have c': "is_client t' c" using still t' by (simp add: still_client_def s p Handle)
    have "um_find (epoll t') c \<noteq> Some True"
      using handle_event_mute [OF inv c m(1) ok _ t'] m(2) p by auto
    with client_registered [OF inv' c'] inv' c' m(2) t' show ?thesis
      by (simp add: mute_def s p Handle)
  qed
qed

text \<open>An answer of zero, or of a packet's length and more, makes the client mute.\<close>

definition silences :: "int \<Rightarrow> bool" where
  "silences len \<longleftrightarrow> len = 0 \<or> PACKET_LIMIT \<le> len"

lemma silenced_client:
  assumes inv: "thread_inv cfg t" and c: "is_client t c" and unarmed: "um_find (epoll t) c = Some False"
    and len: "silences (recv (on_read cfg) c r)" and rest: "c \<notin> ev_fd ` set pending"
  shows "server_step cfg (Inr (t, input_on c # pending)) (Handle (os\<lparr>settime_ok := True, read_res := r\<rparr>))
      = Inr (t, pending)"
    and "mute cfg c (Inr (t, pending))"
proof -
  have special: "c \<notin> set (special_fds cfg)"
    using inv c by (auto simp: thread_inv_def core_def fds_ok_def)
  obtain tm where tm: "um_find (client_to_timer_map t) c = Some tm"
    using is_client_obtain [OF c] .
  have "handle_client cfg c True r t = t"
    using len tm by (auto simp: handle_client_def Let_def silences_def PACKET_LIMIT_def)
  then show "server_step cfg (Inr (t, input_on c # pending))
      (Handle (os\<lparr>settime_ok := True, read_res := r\<rparr>)) = Inr (t, pending)"
    using special by (simp add: handle_event_def input_on_def special_fds_def)
  show "mute cfg c (Inr (t, pending))"
    using inv c unarmed rest by (simp add: mute_def)
qed

lemma mute_unheard:
  assumes "mute cfg c s" "c \<in> ev_fd ` set evs"
  shows "\<not> server_admissible cfg s (Wait evs)"
  using assms armed_round_not
  by (fastforce simp: mute_def server_admissible_def split: sum.splits)

text \<open>
  A connection is answered once too often with zero, or with a packet's length or more: the
  server never hears of it again.  Whatever rounds of events follow while the connection lasts,
  \<open>epoll_wait\<close> reports none for it, until its timer drops it.
\<close>

theorem silenced_client_is_never_heard:
  assumes "thread_inv cfg t" "is_client t c" "um_find (epoll t) c = Some False"
    "silences (recv (on_read cfg) c r)" "c \<notin> ev_fd ` set pending"
    "admissible_run (server_step cfg) (stays cfg c) (Inr (t, pending)) steps"
    "c \<in> ev_fd ` set evs"
  shows "server_step cfg (Inr (t, input_on c # pending)) (Handle (os\<lparr>settime_ok := True, read_res := r\<rparr>))
      = Inr (t, pending)
    \<and> \<not> server_admissible cfg (run_steps (server_step cfg) (Inr (t, pending)) steps) (Wait evs)"
  using silenced_client(1) [OF assms(1-5)]
    mute_unheard [OF mute_client.run_inv [OF silenced_client(2) [OF assms(1-5)] assms(6)] assms(7)]
  by blast

text \<open>A server whose handler answers with nothing, and two clients.\<close>

definition quiet_cfg :: config where
  "quiet_cfg = sample_cfg\<lparr>max_connections := 3, on_read := (\<lambda>fd data. if fd = 7 then 0 else 1)\<rparr>"

definition two_clients :: thread where
  "two_clients = handle_server quiet_cfg True
     [Accepted 7 None False True (Timer_set 8 True), Accepted 9 None False True (Timer_set 10 True)]
     (start_thread quiet_cfg)"

lemma two_clients_inv: "thread_inv quiet_cfg two_clients"
  unfolding two_clients_def by (rule handle_server_inv [OF start_thread_inv]) code_simp+

lemma two_clients_delivered:
  "thread_inv quiet_cfg (deliver 7 two_clients)" "is_client (deliver 7 two_clients) 7"
  "um_find (epoll (deliver 7 two_clients)) 7 = Some False"
  using two_clients_inv by (simp add: deliver_inv) code_simp+

lemma silenced_client_is_never_heard_witness:
  "server_step quiet_cfg (Inr (deliver 7 two_clients, [input_on 7])) (Handle (sample_outcome\<lparr>settime_ok := True,
      read_res := Read_data ''hi''\<rparr>)) = Inr (deliver 7 two_clients, [])
    \<and> \<not> server_admissible quiet_cfg (run_steps (server_step quiet_cfg) (Inr (deliver 7 two_clients, []))
        [Wait [input_on 9], Handle (sample_outcome\<lparr>read_res := Read_data ''you''\<rparr>)])
        (Wait [input_on 7])"
proof (rule silenced_client_is_never_heard [OF two_clients_delivered])
  show "silences (recv (on_read quiet_cfg) 7 (Read_data ''hi''))" by code_simp
  show "(7::int) \<notin> ev_fd ` set []" by simp
  show "admissible_run (server_step quiet_cfg) (stays quiet_cfg 7) (Inr (deliver 7 two_clients, []))
      [Wait [input_on 9], Handle (sample_outcome\<lparr>read_res := Read_data ''you''\<rparr>)]" by code_simp
  show "7 \<in> ev_fd ` set [input_on 7]" by code_simp
qed

end
