(* ===== verification/Ponal.thy ===== *)
theory Ponal
  imports Util Rearm
begin

text \<open>
  The key-value server and its client (\<open>examples/ponal-server.cpp\<close>, \<open>examples/ponal-client.cpp\<close>):
  the commands, refined to a map, and what the server loop makes of the handler's answers.
\<close>

section \<open>The server\<close>

record ponal =
  pl_values :: "(string, string) umap"
  pl_response :: string
  pl_transaction :: "(int, int) umap"
  pl_written :: "(int \<times> string) list"       \<comment> \<open>what \<open>write\<close> was called with\<close>

definition new_ponal :: ponal where
  "new_ponal = \<lparr>pl_values = [], pl_response = [], pl_transaction = [], pl_written = []\<rparr>"

text \<open>The loop of \<open>set_value\<close> over the characters up to the terminator.\<close>

fun split_key :: "string \<Rightarrow> bool \<Rightarrow> string \<Rightarrow> string \<Rightarrow> string \<times> string" where
  "split_key [] get_key key val = (key, val)"
| "split_key (c # it) get_key key val =
     (if c = CHR '' '' \<and> get_key then split_key it False key val
      else if get_key then split_key it get_key (key @ [c]) val
      else split_key it get_key key (val @ [c]))"

definition ponal_set_value ::
  "string \<Rightarrow> (string, string) umap \<Rightarrow> int \<times> (string, string) umap" where
  "ponal_set_value key_and_value values =
     (let (key, val) = split_key (c_str key_and_value) True [] [] in
      if length key = 0 \<or> length val = 0 then (1, values) else (0, um_set key val values))"

fun command_loop :: "string \<Rightarrow> string \<Rightarrow> string" where
  "command_loop [] command = command"
| "command_loop (c # it) command = (if c = CHR '' '' then command else command_loop it (command @ [c]))"

definition get_command_from_request :: "string \<Rightarrow> string" where
  "get_command_from_request request = command_loop (c_str request) []"

definition ponal_on_connect :: "int \<Rightarrow> ponal \<Rightarrow> ponal" where
  "ponal_on_connect fd s = s\<lparr>pl_transaction := um_set fd 0 (pl_transaction s)\<rparr>"

text \<open>
  The end of \<open>on_read\<close>, where \<open>write\<close> returns \<open>w\<close>.  The handler returns a \<open>bool\<close>, which becomes
  the 0 or the 1 that the server loop sees.
\<close>

definition ponal_respond :: "int \<Rightarrow> string \<Rightarrow> int \<Rightarrow> ponal \<Rightarrow> int \<times> ponal" where
  "ponal_respond fd response w s =
     (let s = s\<lparr>pl_response := response,
        pl_transaction := um_set fd (fst (um_index fd (pl_transaction s)) + 1) (pl_transaction s),
        pl_written := pl_written s @ [(fd, response)]\<rparr>
      in if w < 0 then (1, s) else (0, s))"

definition ponal_on_read :: "int \<Rightarrow> string \<Rightarrow> int \<Rightarrow> ponal \<Rightarrow> (int \<times> ponal) res" where
  "ponal_on_read fd packet w s =
     bindR (strict_compare_inequal packet ''get '' 4) (\<lambda>not_get.
       if \<not> not_get then
         (let k = c_str (drop 4 packet) in
          if um_count (pl_values s) k then
            Inr (ponal_respond fd (the (um_find (pl_values s) k)) w s)
          else Inr (ponal_respond fd ''failure'' w s))
       else bindR (strict_compare_inequal packet ''set '' 4) (\<lambda>not_set.
         if \<not> not_set then
           (let (r, values) = ponal_set_value (drop 4 packet) (pl_values s) in
            Inr (ponal_respond fd (if r \<noteq> 0 then ''failure'' else ''success'') w
              (s\<lparr>pl_values := values\<rparr>)))
         else bindR (strict_compare_inequal packet ''exit'' 4) (\<lambda>not_exit.
           if \<not> not_exit then Inr (1, s\<lparr>pl_response := ''success''\<rparr>)
           else Inr (ponal_respond fd ''failure'' w s))))"

section \<open>The client\<close>

text \<open>
  \<open>get_line\<close>: the count it returns, the line, the rest of the input, and whether the end of the
  input was noted.
\<close>

fun get_line :: "string \<Rightarrow> int \<Rightarrow> string \<Rightarrow> int \<times> string \<times> string \<times> bool" where
  "get_line [] i result = (i, result, [], result = [])"
| "get_line (c # sb) i result =
     (if c = LF then (i, result, sb, False)
      else if c = CR then (i, result, (if sb \<noteq> [] \<and> hd sb = LF then tl sb else sb), False)
      else get_line sb (i + 1) (result @ [c]))"

text \<open>
  \<open>main\<close>: reads lines and hands each that is not empty to \<open>communicate\<close>, which returns; the
  requests in order.  From a terminal there is no end.
\<close>

partial_function (option) client_main :: "bool \<Rightarrow> string \<Rightarrow> string list prog" where
  "client_main terminal input =
     (let (n, request, rest, ended) = get_line input 0 [] in
      if n = 0 then client_main terminal rest
      else if \<not> terminal then ret [request]
      else bindP (client_main terminal rest) (\<lambda>requests. ret (request # requests)))"

section \<open>What the commands do\<close>

lemma split_key_value: "split_key it False key val = (key, val @ it)"
  by (induction it arbitrary: val) auto

lemma split_key_key:
  "CHR '' '' \<notin> set k \<Longrightarrow> split_key (k @ it) True key val = split_key it True (key @ k) val"
  by (induction k arbitrary: key) auto

lemma split_key_pair:
  "CHR '' '' \<notin> set k \<Longrightarrow> split_key (k @ CHR '' '' # v) True [] [] = (k, v)"
  by (simp add: split_key_key split_key_value)

lemma split_key_alone: "CHR '' '' \<notin> set k \<Longrightarrow> split_key k True [] [] = (k, [])"
  using split_key_key [of k "[]" "[]" "[]"] by simp

lemma get_command_first_word:
  "get_command_from_request request = takeWhile (\<lambda>c. c \<noteq> CHR '' '') (c_str request)"
proof -
  have "command_loop it com = com @ takeWhile (\<lambda>c. c \<noteq> CHR '' '') it" for it com
    by (induction it arbitrary: com) auto
  then show ?thesis by (simp add: get_command_from_request_def)
qed

text \<open>The commands of the protocol, as a client writes them, and what a map makes of them.\<close>

datatype command = Get string | Set string string

fun command_text :: "command \<Rightarrow> string" where
  "command_text (Get k) = ''get '' @ k"
| "command_text (Set k v) = ''set '' @ k @ '' '' @ v"

definition plain :: "string \<Rightarrow> bool" where
  "plain s \<longleftrightarrow> s \<noteq> [] \<and> NUL \<notin> set s"

fun command_ok :: "command \<Rightarrow> bool" where
  "command_ok (Get k) = (NUL \<notin> set k)"
| "command_ok (Set k v) = (plain k \<and> CHR '' '' \<notin> set k \<and> plain v)"

fun map_step :: "command \<Rightarrow> (string \<rightharpoonup> string) \<Rightarrow> string \<times> (string \<rightharpoonup> string)" where
  "map_step (Get k) m = ((case m k of Some v \<Rightarrow> v | None \<Rightarrow> ''failure''), m)"
| "map_step (Set k v) m = (''success'', m(k \<mapsto> v))"

fun map_answers :: "(int \<times> command) list \<Rightarrow> (string \<rightharpoonup> string) \<Rightarrow> (int \<times> string) list" where
  "map_answers [] m = []"
| "map_answers ((fd, c) # cs) m = (fd, fst (map_step c m)) # map_answers cs (snd (map_step c m))"

fun map_run :: "(int \<times> command) list \<Rightarrow> (string \<rightharpoonup> string) \<Rightarrow> (string \<rightharpoonup> string)" where
  "map_run [] m = m"
| "map_run ((fd, c) # cs) m = map_run cs (snd (map_step c m))"

text \<open>The server over a sequence of packets, all answers written.\<close>

fun ponal_run :: "(int \<times> command) list \<Rightarrow> ponal \<Rightarrow> ponal res" where
  "ponal_run [] s = Inr s"
| "ponal_run ((fd, c) # cs) s =
     bindR (ponal_on_read fd (command_text c) 0 s) (\<lambda>(r, s). ponal_run cs s)"

lemma compare_commands:
  "strict_compare_inequal p ''get '' 4 = Inr (\<not> starts_with p ''get '')"
  "strict_compare_inequal p ''set '' 4 = Inr (\<not> starts_with p ''set '')"
  "strict_compare_inequal p ''exit'' 4 = Inr (\<not> starts_with p ''exit'')"
  using compare_literal [of "''get ''" p] compare_literal [of "''set ''" p]
    compare_literal [of "''exit''" p] by simp_all

lemma ponal_respond_fields [simp]:
  "pl_values (snd (ponal_respond fd a w s)) = pl_values s"
  "pl_written (snd (ponal_respond fd a w s)) = pl_written s @ [(fd, a)]"
  "fst (ponal_respond fd a w s) = (if w < 0 then 1 else 0)"
  by (simp_all add: ponal_respond_def Let_def)

lemma ponal_command:
  assumes "command_ok c"
  shows "\<exists>s'. ponal_on_read fd (command_text c) 0 s = Inr (0, s')
    \<and> um_find (pl_values s') = snd (map_step c (um_find (pl_values s)))
    \<and> pl_written s' = pl_written s @ [(fd, fst (map_step c (um_find (pl_values s))))]"
proof (cases c)
  case (Get k)
  let ?answer = "case um_find (pl_values s) k of Some v \<Rightarrow> v | None \<Rightarrow> ''failure''"
  have "ponal_on_read fd (command_text c) 0 s = Inr (ponal_respond fd ?answer 0 s)"
    using assms Get
    by (auto simp: ponal_on_read_def compare_commands starts_with_def um_count_find c_str_id
        split: option.splits)
  then show ?thesis
    using Get by (intro exI [of _ "snd (ponal_respond fd ?answer 0 s)"])
      (simp add: prod_eq_iff)
next
  case (Set k v)
  let ?s = "s\<lparr>pl_values := um_set k v (pl_values s)\<rparr>"
  have "ponal_set_value (k @ '' '' @ v) (pl_values s) = (0, um_set k v (pl_values s))"
    using assms Set split_key_pair [of k v]
    by (simp add: ponal_set_value_def c_str_id plain_def)
  then have "ponal_on_read fd (command_text c) 0 s = Inr (ponal_respond fd ''success'' 0 ?s)"
    using Set by (simp add: ponal_on_read_def compare_commands starts_with_def)
  then show ?thesis
    using Set by (intro exI [of _ "snd (ponal_respond fd ''success'' 0 ?s)"])
      (auto simp: prod_eq_iff)
qed

section \<open>What server and client promise\<close>

text \<open>
  C39. The key-value server implements a map: over every sequence of well-formed commands, from
  whatever connections, it answers what the map answers and ends with the map's contents.
\<close>

theorem key_value_refinement:
  assumes "\<forall>(fd, c) \<in> set cs. command_ok c"
  shows "\<exists>s'. ponal_run cs s = Inr s'
    \<and> um_find (pl_values s') = map_run cs (um_find (pl_values s))
    \<and> pl_written s' = pl_written s @ map_answers cs (um_find (pl_values s))"
  using assms
proof (induction cs arbitrary: s)
  case (Cons a cs)
  obtain fd c where a: "a = (fd, c)" by (cases a)
  with Cons.prems ponal_command [of c fd s] obtain s1 where
    s1: "ponal_on_read fd (command_text c) 0 s = Inr (0, s1)"
      "um_find (pl_values s1) = snd (map_step c (um_find (pl_values s)))"
      "pl_written s1 = pl_written s @ [(fd, fst (map_step c (um_find (pl_values s))))]" by auto
  from Cons.IH [of s1] Cons.prems obtain s' where
    "ponal_run cs s1 = Inr s'" "um_find (pl_values s') = map_run cs (um_find (pl_values s1))"
    "pl_written s' = pl_written s1 @ map_answers cs (um_find (pl_values s1))" by auto
  then show ?case using s1 a by (intro exI [of _ s']) simp
qed simp

lemma key_value_refinement_witness:
  "\<exists>s'. ponal_run [(7, Set ''a'' ''b c''), (9, Get ''a''), (7, Get ''b'')] new_ponal = Inr s'
    \<and> pl_written s' = [(7, ''success''), (9, ''b c''), (7, ''failure'')]"
  using key_value_refinement [of "[(7, Set ''a'' ''b c''), (9, Get ''a''), (7, Get ''b'')]" new_ponal]
  by (simp add: plain_def new_ponal_def del: ponal_run.simps command_text.simps) blast

lemma ponal_responds:
  assumes "\<not> starts_with packet ''exit''"
  shows "\<exists>a m. ponal_on_read fd packet w s = Inr (ponal_respond fd a w (s\<lparr>pl_values := m\<rparr>))"
proof -
  have same: "\<exists>a' m. ponal_respond fd a w s = ponal_respond fd a' w (s\<lparr>pl_values := m\<rparr>)" for a
    by (intro exI [of _ a] exI [of _ "pl_values s"]) simp
  show ?thesis
    using assms unfolding ponal_on_read_def compare_commands
    by (cases "ponal_set_value (drop 4 packet) (pl_values s)") (auto simp: Let_def same)
qed

lemma ponal_ordinary_answer:
  assumes "ponal_on_read fd packet w s = Inr (r, s')" "0 \<le> w" "\<not> starts_with packet ''exit''"
  shows "r = 0 \<and> (\<exists>a. pl_written s' = pl_written s @ [(fd, a)])"
  using ponal_responds [OF assms(3), of fd w s] assms(1,2) by (auto simp: ponal_respond_def Let_def)

text \<open>
  A connection to the key-value server is good for one command: the handler answers, and
  returns false, which the server loop takes for nothing read, so that it never hears of the
  connection again, whatever happens until the timer drops it.  Only \<open>exit\<close>, which does not
  close the connection, and a failed write keep it alive.
\<close>

theorem one_command_per_connection:
  assumes "thread_inv cfg t" "is_client t c" "um_find (epoll t) c = Some False"
    "ponal_on_read c packet w s = Inr (on_read cfg c packet, s')" "0 \<le> w"
    "\<not> starts_with packet ''exit''" "c \<notin> ev_fd ` set pending"
    "admissible_run (server_step cfg) (stays cfg c) (Inr (t, pending)) steps"
    "c \<in> ev_fd ` set evs"
  shows "(\<exists>answer. pl_written s' = pl_written s @ [(c, answer)])
    \<and> server_step cfg (Inr (t, input_on c # pending))
        (Handle (os\<lparr>settime_ok := True, read_res := Read_data packet\<rparr>)) = Inr (t, pending)
    \<and> \<not> server_admissible cfg (run_steps (server_step cfg) (Inr (t, pending)) steps) (Wait evs)"
proof -
  have s: "silences (recv (on_read cfg) c (Read_data packet))"
    using ponal_ordinary_answer [OF assms(4-6)] by (simp add: recv_def silences_def)
  note m = silenced_client [OF assms(1-3) s assms(7)]
  show ?thesis
    using ponal_ordinary_answer [OF assms(4-6)] m(1)
      mute_unheard [OF mute_client.run_inv [OF m(2) assms(8)] assms(9)] by blast
qed

lemma one_command_per_connection_witness:
  "\<exists>s'. ponal_on_read 7 ''get a'' 7 new_ponal = Inr (0, s')
    \<and> \<not> server_admissible quiet_cfg (run_steps (server_step quiet_cfg) (Inr (deliver 7 two_clients, []))
        [Wait [input_on 9], Handle (sample_outcome\<lparr>read_res := Read_data ''exit''\<rparr>)])
        (Wait [input_on 7])"
proof -
  obtain s' where s': "ponal_on_read 7 ''get a'' 7 new_ponal = Inr (0, s')"
    by (simp add: ponal_on_read_def compare_commands starts_with_def new_ponal_def ponal_respond_def
        c_str_def Let_def)
  then have "ponal_on_read 7 ''get a'' 7 new_ponal = Inr (on_read quiet_cfg 7 ''get a'', s')"
    by (simp add: quiet_cfg_def sample_cfg_def)
  moreover have "admissible_run (server_step quiet_cfg) (stays quiet_cfg 7)
      (Inr (deliver 7 two_clients, []))
      [Wait [input_on 9], Handle (sample_outcome\<lparr>read_res := Read_data ''exit''\<rparr>)]"
    by code_simp
  moreover have "7 \<in> ev_fd ` set [input_on 7]" by code_simp
  ultimately show ?thesis
    using one_command_per_connection [OF two_clients_delivered, of "''get a''" 7 new_ponal s'
        "[]" "[Wait [input_on 9], Handle (sample_outcome\<lparr>read_res := Read_data ''exit''\<rparr>)]"
        "[input_on 7]" sample_outcome] s'
    by (simp add: starts_with_def del: server_step_simps)
qed

definition line_end :: "char \<Rightarrow> bool" where
  "line_end c \<longleftrightarrow> c = LF \<or> c = CR"

lemma get_line_reads:
  "get_line input i result = (n, line, rest, ended) \<Longrightarrow>
    n = i + int (length (takeWhile (\<lambda>c. \<not> line_end c) input))
    \<and> line = result @ takeWhile (\<lambda>c. \<not> line_end c) input"
  by (induction input i result rule: get_line.induct) (auto simp: line_end_def split: if_splits)

lemma get_line_skips:
  assumes "line_end c" "get_line (c # input) 0 [] = (n, line, rest, ended)"
  shows "n = 0 \<and> length rest \<le> length input
    \<and> dropWhile line_end rest = dropWhile line_end input
    \<and> list_all line_end rest = list_all line_end input"
  using assms by (cases input) (auto simp: line_end_def split: if_splits)

lemma client_main_Some:
  assumes "client_main terminal input = Some r"
  shows "\<not> terminal \<and> \<not> list_all line_end input"
proof (rule client_main.raw_induct [OF _ assms])
  fix main' terminal input r
  assume IH: "\<And>terminal input r. main' terminal input = Some r \<Longrightarrow>
      \<not> terminal \<and> \<not> list_all line_end input"
    and r: "(let (n, request, rest, ended) = get_line input 0 [] in
      if n = 0 then main' terminal rest
      else if \<not> terminal then ret [request]
      else bindP (main' terminal rest) (\<lambda>requests. ret (request # requests))) = Some r"
  obtain n line rest ended where g: "get_line input 0 [] = (n, line, rest, ended)"
    by (cases "get_line input 0 []") auto
  show "\<not> terminal \<and> \<not> list_all line_end input"
  proof (cases "input = [] \<or> line_end (hd input)")
    case True
    with g r have m: "main' terminal rest = Some r"
      using get_line_skips [of "hd input" "tl input"] by (cases input) (auto split: if_splits)
    have "list_all line_end input \<Longrightarrow> list_all line_end rest"
      using True g get_line_skips [of "hd input" "tl input"] by (cases input) auto
    with IH [OF m] show ?thesis by blast
  next
    case False
    then obtain c cs where input: "input = c # cs" "\<not> line_end c" by (cases input) auto
    with get_line_reads [OF g] have "n \<noteq> 0" by auto
    with g r IH input show ?thesis
      by (cases terminal; cases "main' terminal rest") (auto simp: bindP_def)
  qed
qed

lemma client_main_skips:
  assumes "\<not> list_all line_end input"
  shows "client_main False input =
    ret [takeWhile (\<lambda>c. \<not> line_end c) (dropWhile line_end input)]"
  using assms
proof (induction "length input" arbitrary: input rule: less_induct)
  case less
  then obtain c cs where input: "input = c # cs" by (cases input) auto
  obtain n line rest ended where g: "get_line input 0 [] = (n, line, rest, ended)"
    by (cases "get_line input 0 []") auto
  show ?case
  proof (cases "line_end c")
    case True
    with get_line_skips [of c cs] g input have s: "n = 0" "length rest \<le> length cs"
      "dropWhile line_end rest = dropWhile line_end cs" "list_all line_end rest = list_all line_end cs"
      by simp_all
    with less.hyps [of rest] less.prems input True
    show ?thesis by (subst client_main.simps) (simp add: g [unfolded input] del: get_line.simps)
  next
    case False
    with get_line_reads [OF g] input show ?thesis by (subst client_main.simps) (auto simp: g [unfolded input] simp del: get_line.simps)
  qed
qed

text \<open>
  The client of the key-value server ends only when its input is no terminal and has a line
  that is not empty: then it sends the first such line.  On an input that ends before, an empty
  file for instance, it reads the end of the input over and over.
\<close>

theorem client_ends_on_a_line:
  "client_main terminal input =
    (if terminal \<or> list_all line_end input then None
     else ret [takeWhile (\<lambda>c. \<not> line_end c) (dropWhile line_end input)])"
proof (cases "terminal \<or> list_all line_end input")
  case True
  with client_main_Some [of terminal input] show ?thesis by (cases "client_main terminal input") auto
qed (use client_main_skips in auto)

end
