(* ===== verification/Jph2.thy ===== *)
theory Jph2
  imports PgSql HttpApi
begin

text \<open>
  The accounts of the web application (\<open>examples/jph2/models.cpp\<close>, \<open>users.cpp\<close>, \<open>threads.cpp\<close>,
  \<open>messages.cpp\<close>, \<open>poi.cpp\<close>, and \<open>examples/jph2.cpp\<close>): the functions behind its routes.  They work
  on the database through the models of \<open>PgSql\<close>; \<open>quote\<close> and \<open>exec\<close> are the database library's,
  \<open>hash\<close> is the password hash and \<open>encrypt\<close> seals a token.
\<close>

section \<open>The models\<close>

definition column :: "string \<Rightarrow> Column" where
  "column n = \<lparr>col_name = n, flags = COL_REG\<rparr>"

definition auto_column :: "string \<Rightarrow> Column" where
  "auto_column n = \<lparr>col_name = n, flags = COL_AUTO\<rparr>"

definition times :: "Column list" where
  "times = [\<lparr>col_name = ''deleted'', flags = or COL_AUTO COL_HIDDEN\<rparr>, auto_column ''modified'',
     auto_column ''created'']"

definition users_model :: PgSqlModel where
  "users_model = \<lparr>num_insert_values = 8, table = ''users'',
     cols = [auto_column ''id'', column ''username'', \<lparr>col_name = ''password'', flags = COL_HIDDEN\<rparr>,
       column ''primary_token'', column ''secondary_token'', column ''email'', column ''first_name'',
       column ''last_name'', column ''color''] @ times\<rparr>"

definition poi_model :: PgSqlModel where
  "poi_model = \<lparr>num_insert_values = 3, table = ''poi'',
     cols = [auto_column ''id'', column ''owner_id'', column ''label'', column ''description'',
       column ''location''] @ times\<rparr>"

definition threads_model :: PgSqlModel where
  "threads_model = \<lparr>num_insert_values = 2, table = ''threads'',
     cols = [auto_column ''id'', column ''owner_id'', column ''name'', column ''description''] @ times\<rparr>"

definition messages_model :: PgSqlModel where
  "messages_model = \<lparr>num_insert_values = 3, table = ''messages'',
     cols = [auto_column ''id'', column ''owner_id'', column ''thread_id'', column ''title'',
       column ''content''] @ times\<rparr>"

definition access_model :: PgSqlModel where
  "access_model = \<lparr>num_insert_values = 1, table = ''access'',
     cols = [column ''owner_id'', column ''access_type_id'']\<rparr>"

lemma models_built:
  "new_model ''users'' (cols users_model) = Inr users_model"
  "new_model ''poi'' (cols poi_model) = Inr poi_model"
  "new_model ''threads'' (cols threads_model) = Inr threads_model"
  "new_model ''messages'' (cols messages_model) = Inr messages_model"
  "new_model ''access'' (cols access_model) = Inr access_model"
  by code_simp+

section \<open>Access to members and rows\<close>

definition INSUFFICIENT_ACCESS :: string where
  "INSUFFICIENT_ACCESS = json_error ''Insufficient access.''"

definition NO_SUCH_ITEM :: string where
  "NO_SUCH_ITEM = json_error (''That record doesn'' @ [CHR 0x27] @ ''t exist.'')"

text \<open>\<open>j->objectValues[k]->...\<close>: a missing member is a null pointer.\<close>

definition member_of :: "JsonObject \<Rightarrow> string \<Rightarrow> JsonObject res" where
  "member_of j k = (case um_find (objectValues j) k of None \<Rightarrow> Inl NullDeref | Some v \<Rightarrow> Inr v)"

definition first_item :: "JsonObject \<Rightarrow> JsonObject res" where
  "first_item j = (case arrayValues j of [] \<Rightarrow> Inl OutOfBounds | v # _ \<Rightarrow> Inr v)"

definition deref_json :: "JsonObject option \<Rightarrow> JsonObject res" where
  "deref_json j = (case j of None \<Rightarrow> Inl NullDeref | Some j \<Rightarrow> Inr j)"

abbreviation (input) print :: "JsonObject \<Rightarrow> string" where
  "print j \<equiv> stringify False 0 j"

text \<open>The loop over the accesses of a user: whether one of the given types is among them.\<close>

fun any_access :: "string list \<Rightarrow> JsonObject list \<Rightarrow> bool res" where
  "any_access types [] = Inr False"
| "any_access types (a # accesses) =
     bindR (GetStr a ''access_type_id'')
       (\<lambda>t. if t \<in> set types then Inr True else any_access types accesses)"

definition has_access ::
  "(string \<Rightarrow> string) \<Rightarrow> 'db executor \<Rightarrow> string list \<Rightarrow> JsonObject \<Rightarrow> ('db, bool) action" where
  "has_access quote exec types token =
     bindD (liftD (GetStr token ''id'')) (\<lambda>i.
     bindD (Where quote exec access_model ''owner_id'' i) (\<lambda>accesses.
       liftD (any_access types (arrayValues accesses))))"

text \<open>\<open>m->Where(key, json->GetStr(param))->stringify()\<close>.\<close>

definition read_where ::
  "(string \<Rightarrow> string) \<Rightarrow> 'db executor \<Rightarrow> PgSqlModel \<Rightarrow> string \<Rightarrow> JsonObject \<Rightarrow> string \<Rightarrow>
    ('db, string) action" where
  "read_where quote exec m key json param =
     bindD (liftD (GetStr json param)) (\<lambda>v.
     bindD (Where quote exec m key v) (\<lambda>j. retD (print j)))"

section \<open>Users\<close>

definition login ::
  "(string \<Rightarrow> string) \<Rightarrow> 'db executor \<Rightarrow> (string \<Rightarrow> string) \<Rightarrow> (string \<Rightarrow> string) \<Rightarrow> JsonObject \<Rightarrow>
    ('db, string) action" where
  "login quote exec hash encrypt json =
     bindD (liftD (GetStr json ''username'')) (\<lambda>username.
     bindD (liftD (GetStr json ''password'')) (\<lambda>password.
     bindD (Access quote exec users_model ''username'' username (hash password)) (\<lambda>token.
       if um_count (objectValues token) ''error'' then retD (print token)
       else retD (''{'' @ [DQ] @ ''token'' @ [DQ] @ '':'' @ escape (encrypt (print token)) @ ''}''))))"

definition check_token :: "JsonObject \<Rightarrow> JsonObject \<Rightarrow> string" where
  "check_token json token =
     ''{'' @ [DQ] @ ''result'' @ [DQ] @ '':'' @ [DQ] @ ''Token is good'' @ [DQ] @ ''}''"

definition short_password :: string where
  "short_password = json_error ''Password must have at least 16 characters.''"

text \<open>The password among the values is replaced by its hash.\<close>

definition hash_password :: "(string \<Rightarrow> string) \<Rightarrow> members \<Rightarrow> JsonObject \<Rightarrow> members" where
  "hash_password hash values p =
     um_set ''password'' (set_stringValue (hash (stringValue p)) p) values"

definition create_user ::
  "(string \<Rightarrow> string) \<Rightarrow> 'db executor \<Rightarrow> (string \<Rightarrow> string) \<Rightarrow> JsonObject \<Rightarrow> ('db, string) action" where
  "create_user quote exec hash json =
     bindD (All exec users_model) (\<lambda>temp_users.
     bindD (liftD (member_of json ''values'')) (\<lambda>values.
     let insert = (\<lambda>vs.
       bindD (Insert quote exec users_model vs) (\<lambda>new_user.
       bindD (liftD (deref_json new_user)) (\<lambda>new_user.
         if \<not> um_count (objectValues new_user) ''error'' \<and> arrayValues temp_users = [] then
           bindD (liftD (GetStr new_user ''id'')) (\<lambda>i.
           bindD (Insert quote exec access_model
             [(''owner_id'', new_string i), (''access_type_id'', new_string ''1'')]) (\<lambda>_.
             retD (print new_user)))
         else retD (print new_user))))
     in if HasObj values ''password'' STRING then
          (case um_find (objectValues values) ''password'' of
             None \<Rightarrow> liftD (Inl NullDeref)
           | Some p \<Rightarrow>
               if length (stringValue p) < 16 then retD short_password
               else insert (hash_password hash (objectValues values) p))
        else insert (objectValues values)))"

definition read_users ::
  "(string \<Rightarrow> string) \<Rightarrow> 'db executor \<Rightarrow> JsonObject \<Rightarrow> ('db, string) action" where
  "read_users quote exec token =
     bindD (has_access quote exec [''1''] token) (\<lambda>ok.
       if ok then bindD (All exec users_model) (\<lambda>j. retD (print j)) else retD INSUFFICIENT_ACCESS)"

text \<open>
  The guard against a change of \<open>id\<close> erases the member \<open>id\<close> of the request, not that of the values.
  What \<open>Update\<close> returns is dropped.
\<close>

definition update_user ::
  "(string \<Rightarrow> string) \<Rightarrow> 'db executor \<Rightarrow> (string \<Rightarrow> string) \<Rightarrow> (string \<Rightarrow> string) \<Rightarrow> JsonObject \<Rightarrow>
    JsonObject \<Rightarrow> ('db, string) action" where
  "update_user quote exec hash encrypt json token =
     bindD (liftD (member_of json ''values'')) (\<lambda>values0.
     let json = (if um_count (objectValues values0) ''id'' then erase_objectValue ''id'' json else json);
         update = (\<lambda>vs.
           bindD (liftD (GetStr token ''id'')) (\<lambda>i.
           bindD (Update quote exec users_model i vs) (\<lambda>_.
           bindD (Where quote exec users_model ''id'' i) (\<lambda>found.
           bindD (liftD (first_item found)) (\<lambda>user.
             retD (print (set_objectValue ''token''
               (new_string (escape (encrypt (print user)))) (new_typed OBJECT))))))))
     in bindD (liftD (member_of json ''values'')) (\<lambda>values.
          case um_find (objectValues values) ''password'' of
            Some p \<Rightarrow>
              if length (stringValue p) < 16 then retD short_password
              else update (hash_password hash (objectValues values) p)
          | None \<Rightarrow> update (objectValues values)))"

definition read_my_user ::
  "(string \<Rightarrow> string) \<Rightarrow> 'db executor \<Rightarrow> JsonObject \<Rightarrow> ('db, string) action" where
  "read_my_user quote exec token = read_where quote exec users_model ''id'' token ''id''"

definition my_access_sql :: "string \<Rightarrow> string" where
  "my_access_sql i =
     ''SELECT access_types.id, access_types.name, access_types.description FROM access_types, access WHERE access.access_type_id = access_types.id AND access.owner_id = ''
     @ i @ '';''"

definition read_my_access :: "'db executor \<Rightarrow> JsonObject \<Rightarrow> ('db, string) action" where
  "read_my_access exec token =
     bindD (liftD (GetStr token ''id'')) (\<lambda>i.
     bindD (Execute exec (my_access_sql i)) (\<lambda>j. retD (print j)))"

definition read_my_threads ::
  "(string \<Rightarrow> string) \<Rightarrow> 'db executor \<Rightarrow> JsonObject \<Rightarrow> ('db, string) action" where
  "read_my_threads quote exec token = read_where quote exec threads_model ''owner_id'' token ''id''"

definition read_my_poi ::
  "(string \<Rightarrow> string) \<Rightarrow> 'db executor \<Rightarrow> JsonObject \<Rightarrow> ('db, string) action" where
  "read_my_poi quote exec token = read_where quote exec poi_model ''owner_id'' token ''id''"

text \<open>\<open>/backup\<close>: the output of the database dump, for administrators.\<close>

definition backup ::
  "(string \<Rightarrow> string) \<Rightarrow> 'db executor \<Rightarrow> string \<Rightarrow> JsonObject \<Rightarrow> ('db, string) action" where
  "backup quote exec dump token =
     bindD (has_access quote exec [''1''] token)
       (\<lambda>ok. retD (if ok then dump else INSUFFICIENT_ACCESS))"

section \<open>Threads, messages and points of interest\<close>

text \<open>The three files have the same functions; what they share is written once.\<close>

definition set_owner :: "JsonObject \<Rightarrow> JsonObject \<Rightarrow> members" where
  "set_owner values owner = um_set ''owner_id'' owner (objectValues values)"

definition print_inserted :: "JsonObject option \<Rightarrow> string res" where
  "print_inserted j = bindR (deref_json j) (\<lambda>j. Inr (print j))"

definition create_as_blogger ::
  "(string \<Rightarrow> string) \<Rightarrow> 'db executor \<Rightarrow> PgSqlModel \<Rightarrow> JsonObject \<Rightarrow> JsonObject \<Rightarrow>
    ('db, string) action" where
  "create_as_blogger quote exec m json token =
     bindD (has_access quote exec [''1'', ''2''] token) (\<lambda>ok.
       if \<not> ok then retD (json_error ''This requires blogger access.'')
       else bindD (liftD (member_of json ''values'')) (\<lambda>values.
            bindD (liftD (member_of token ''id'')) (\<lambda>owner.
            bindD (Insert quote exec m (set_owner values owner))
              (\<lambda>j. liftD (print_inserted j)))))"

text \<open>What \<open>update\<close> and \<open>delete\<close> ask first: that the row exists and belongs to the user.\<close>

definition if_owner ::
  "(string \<Rightarrow> string) \<Rightarrow> 'db executor \<Rightarrow> PgSqlModel \<Rightarrow> JsonObject \<Rightarrow> JsonObject \<Rightarrow>
    (string \<Rightarrow> ('db, string) action) \<Rightarrow> ('db, string) action" where
  "if_owner quote exec m json token act =
     bindD (liftD (GetStr json ''id'')) (\<lambda>i.
     bindD (Where quote exec m ''id'' i) (\<lambda>found.
       if arrayValues found = [] then retD NO_SUCH_ITEM
       else bindD (liftD (bindR (first_item found) (\<lambda>r. GetStr r ''owner_id''))) (\<lambda>owner.
            bindD (liftD (GetStr token ''id'')) (\<lambda>user.
              if owner \<noteq> user then retD INSUFFICIENT_ACCESS else act i))))"

definition update_owned ::
  "(string \<Rightarrow> string) \<Rightarrow> 'db executor \<Rightarrow> PgSqlModel \<Rightarrow> JsonObject \<Rightarrow> JsonObject \<Rightarrow>
    ('db, string) action" where
  "update_owned quote exec m json token =
     if_owner quote exec m json token (\<lambda>i.
       bindD (liftD (member_of json ''values'')) (\<lambda>values.
       bindD (Update quote exec m i (objectValues values)) (\<lambda>j. retD (print j))))"

definition delete_owned ::
  "(string \<Rightarrow> string) \<Rightarrow> 'db executor \<Rightarrow> PgSqlModel \<Rightarrow> JsonObject \<Rightarrow> JsonObject \<Rightarrow>
    ('db, string) action" where
  "delete_owned quote exec m json token =
     if_owner quote exec m json token (\<lambda>i.
       bindD (Delete quote exec m i) (\<lambda>j. retD (print j)))"

definition create_thread ::
  "(string \<Rightarrow> string) \<Rightarrow> 'db executor \<Rightarrow> JsonObject \<Rightarrow> JsonObject \<Rightarrow> ('db, string) action" where
  "create_thread quote exec = create_as_blogger quote exec threads_model"

definition read_thread ::
  "(string \<Rightarrow> string) \<Rightarrow> 'db executor \<Rightarrow> JsonObject \<Rightarrow> ('db, string) action" where
  "read_thread quote exec json = read_where quote exec threads_model ''id'' json ''id''"

definition update_thread ::
  "(string \<Rightarrow> string) \<Rightarrow> 'db executor \<Rightarrow> JsonObject \<Rightarrow> JsonObject \<Rightarrow> ('db, string) action" where
  "update_thread quote exec = update_owned quote exec threads_model"

definition delete_thread ::
  "(string \<Rightarrow> string) \<Rightarrow> 'db executor \<Rightarrow> JsonObject \<Rightarrow> JsonObject \<Rightarrow> ('db, string) action" where
  "delete_thread quote exec = delete_owned quote exec threads_model"

definition create_message ::
  "(string \<Rightarrow> string) \<Rightarrow> 'db executor \<Rightarrow> JsonObject \<Rightarrow> JsonObject \<Rightarrow> ('db, string) action" where
  "create_message quote exec = create_as_blogger quote exec messages_model"

definition read_message ::
  "(string \<Rightarrow> string) \<Rightarrow> 'db executor \<Rightarrow> JsonObject \<Rightarrow> ('db, string) action" where
  "read_message quote exec json = read_where quote exec messages_model ''id'' json ''id''"

definition update_message ::
  "(string \<Rightarrow> string) \<Rightarrow> 'db executor \<Rightarrow> JsonObject \<Rightarrow> JsonObject \<Rightarrow> ('db, string) action" where
  "update_message quote exec = update_owned quote exec messages_model"

definition delete_message ::
  "(string \<Rightarrow> string) \<Rightarrow> 'db executor \<Rightarrow> JsonObject \<Rightarrow> JsonObject \<Rightarrow> ('db, string) action" where
  "delete_message quote exec = delete_owned quote exec messages_model"

definition read_thread_messages ::
  "(string \<Rightarrow> string) \<Rightarrow> 'db executor \<Rightarrow> JsonObject \<Rightarrow> ('db, string) action" where
  "read_thread_messages quote exec json = read_where quote exec messages_model ''thread_id'' json ''id''"

text \<open>By the name of another row: the first that is found, if any.\<close>

definition read_by ::
  "(string \<Rightarrow> string) \<Rightarrow> 'db executor \<Rightarrow> PgSqlModel \<Rightarrow> string \<Rightarrow> PgSqlModel \<Rightarrow> string \<Rightarrow> JsonObject \<Rightarrow>
    ('db, string) action" where
  "read_by quote exec m0 key0 m key json =
     bindD (liftD (GetStr json key0)) (\<lambda>v.
     bindD (Where quote exec m0 key0 v) (\<lambda>found.
       if arrayValues found = [] then retD NO_SUCH_ITEM
       else bindD (liftD (bindR (first_item found) (\<lambda>r. GetStr r ''id''))) (\<lambda>i.
            bindD (Where quote exec m key i) (\<lambda>j. retD (print j)))))"

definition read_thread_messages_by_name ::
  "(string \<Rightarrow> string) \<Rightarrow> 'db executor \<Rightarrow> JsonObject \<Rightarrow> ('db, string) action" where
  "read_thread_messages_by_name quote exec =
     read_by quote exec threads_model ''name'' messages_model ''thread_id''"

text \<open>
  A point of interest needs no access, and the owner is not looked at before the statement is
  built: a token without \<open>id\<close> puts a null pointer among the values.
\<close>

definition create_poi ::
  "(string \<Rightarrow> string) \<Rightarrow> 'db executor \<Rightarrow> JsonObject \<Rightarrow> JsonObject \<Rightarrow> ('db, string) action" where
  "create_poi quote exec json token =
     bindD (liftD (member_of json ''values'')) (\<lambda>values.
       case um_find (objectValues token) ''id'' of
         Some owner \<Rightarrow>
           bindD (Insert quote exec poi_model (set_owner values owner)) (\<lambda>j. liftD (print_inserted j))
       | None \<Rightarrow>
           (case insert_location quote poi_model (set_owner values (new_string [])) of
              None \<Rightarrow> retD (print (Error ''Missing location information.''))
            | Some (location, vs) \<Rightarrow>
                (case key_list poi_model vs of
                   None \<Rightarrow> retD (print (Error ''Bad key.''))
                 | Some ks \<Rightarrow> liftD (Inl NullDeref))))"

definition read_poi ::
  "(string \<Rightarrow> string) \<Rightarrow> 'db executor \<Rightarrow> JsonObject \<Rightarrow> ('db, string) action" where
  "read_poi quote exec json = read_where quote exec poi_model ''id'' json ''id''"

definition update_poi ::
  "(string \<Rightarrow> string) \<Rightarrow> 'db executor \<Rightarrow> JsonObject \<Rightarrow> JsonObject \<Rightarrow> ('db, string) action" where
  "update_poi quote exec = update_owned quote exec poi_model"

definition delete_poi ::
  "(string \<Rightarrow> string) \<Rightarrow> 'db executor \<Rightarrow> JsonObject \<Rightarrow> JsonObject \<Rightarrow> ('db, string) action" where
  "delete_poi quote exec = delete_owned quote exec poi_model"

definition read_poi_by_username ::
  "(string \<Rightarrow> string) \<Rightarrow> 'db executor \<Rightarrow> JsonObject \<Rightarrow> ('db, string) action" where
  "read_poi_by_username quote exec =
     read_by quote exec users_model ''username'' poi_model ''owner_id''"

section \<open>What a query finds\<close>

lemma Where_runs:
  assumes "HasColumn m key"
  obtains j where
    "Where quote exec m key v db = (Inr j, snd (exec (where_sql quote m key v) db))"
    "arrayValues j = [] \<or>
      (\<exists>rs. fst (exec (where_sql quote m key v) db) = Inr rs \<and> ResultToJson m rs = Inr j)"
proof (cases "exec (where_sql quote m key v) db")
  case (Pair r db')
  show thesis
  proof (cases r)
    case (Inl e)
    with that [of "Error bad_data"] assms Pair show thesis
      by (simp add: Where_def then_json_def caught_as_def)
  next
    case (Inr rs)
    with that [of "case ResultToJson m rs of Inl e \<Rightarrow> Error bad_data | Inr j \<Rightarrow> j"] assms Pair
    show thesis
      by (cases "ResultToJson m rs") (simp_all add: Where_def then_json_def caught_as_def)
  qed
qed

text \<open>A field of an item of the result is the field of a row.\<close>

lemma item_field:
  assumes "ResultToJson m rs = Inr j" "a \<in> set (arrayValues j)" "GetStr a k = Inr s"
  shows "\<exists>row \<in> set rs. map_of row k = Some (Some s)"
proof -
  have "Inr a \<in> set (map (row_to_json m) rs)"
    using assms(2) ResultToJson_rows [OF assms(1)] by simp
  then obtain row where "row \<in> set rs" "row_to_json m row = Inr a" by auto
  with assms(3) show ?thesis
    by (intro bexI [of _ row]) (auto simp: GetStr_def row_to_json_find shown_def bind_eq_Some_conv split: option.splits if_splits)
qed

lemma first_field:
  assumes "ResultToJson m rs = Inr j" "first_item j = Inr a" "GetStr a k = Inr s"
  shows "\<exists>row rows. rs = row # rows \<and> map_of row k = Some (Some s)"
proof (cases rs)
  case Nil
  with assms(1,2) show ?thesis
    by (auto simp: ResultToJson_def first_item_def new_typed_def)
next
  case (Cons row rows)
  with ResultToJson_rows [OF assms(1)] assms(2) have "row_to_json m row = Inr a"
    by (auto simp: first_item_def split: list.splits)
  with Cons assms(3) show ?thesis
    by (auto simp: GetStr_def row_to_json_find shown_def bind_eq_Some_conv split: option.splits if_splits)
qed

section \<open>Who may change a row\<close>

text \<open>The row with this \<open>id\<close> names the user of the token as its owner.\<close>

definition owns ::
  "(string \<Rightarrow> string) \<Rightarrow> 'db executor \<Rightarrow> PgSqlModel \<Rightarrow> string \<Rightarrow> JsonObject \<Rightarrow> 'db \<Rightarrow> bool" where
  "owns quote exec m i token db \<longleftrightarrow>
     (\<exists>row rows user. fst (exec (where_sql quote m ''id'' i) db) = Inr (row # rows)
       \<and> map_of row ''owner_id'' = Some (Some user) \<and> GetStr token ''id'' = Inr user)"

lemma if_owner_owns:
  assumes "HasColumn m ''id''" "GetStr json ''id'' = Inr i"
    and db1: "db1 = snd (exec (where_sql quote m ''id'' i) db)"
  shows "snd (if_owner quote exec m json token act db) = db1
    \<or> owns quote exec m i token db \<and> if_owner quote exec m json token act db = act i db1"
proof -
  from Where_runs [OF assms(1), where quote = quote and exec = exec and v = i and db = db]
  obtain j where w: "Where quote exec m ''id'' i db = (Inr j, db1)"
    and j: "arrayValues j = [] \<or>
      (\<exists>rs. fst (exec (where_sql quote m ''id'' i) db) = Inr rs \<and> ResultToJson m rs = Inr j)"
    unfolding db1 by blast
  let ?owner = "bindR (first_item j) (\<lambda>r. GetStr r ''owner_id'')"
  have run: "if_owner quote exec m json token act db =
      (if arrayValues j = [] then (Inr NO_SUCH_ITEM, db1)
       else bindD (liftD ?owner) (\<lambda>owner. bindD (liftD (GetStr token ''id'')) (\<lambda>user.
         if owner \<noteq> user then retD INSUFFICIENT_ACCESS else act i)) db1)"
    using w assms(2) by (simp add: if_owner_def bindD_eqs)
  show ?thesis
  proof (cases "arrayValues j \<noteq> [] \<and> (\<exists>user. ?owner = Inr user \<and> GetStr token ''id'' = Inr user)")
    case True
    then obtain user a where a: "arrayValues j \<noteq> []" "first_item j = Inr a"
        "GetStr a ''owner_id'' = Inr user" "GetStr token ''id'' = Inr user"
      by (auto simp: bindR_eq_Inr)
    from a(1) j obtain rs where "fst (exec (where_sql quote m ''id'' i) db) = Inr rs"
        "ResultToJson m rs = Inr j" by blast
    with first_field [OF _ a(2,3)] a(4) have "owns quote exec m i token db"
      by (fastforce simp: owns_def)
    with a run show ?thesis by simp
  next
    case False
    with run show ?thesis
      by (cases ?owner; cases "GetStr token ''id''") (auto simp: bindD_eqs)
  qed
qed

lemma snd_print: "snd (bindD act (\<lambda>j. retD (f j)) db) = snd (act db)"
  by (cases rule: bindD_cases [of act db "\<lambda>j. retD (f j)"]) simp_all

lemma snd_Update:
  "snd (Update quote exec m i vs db) = db
    \<or> (\<exists>s. assignments quote m vs = Some s \<and>
        snd (Update quote exec m i vs db) = snd (exec (update_sql quote m i s) db))"
  by (cases "assignments quote m vs") (auto simp: Update_def)

lemma snd_Delete: "snd (Delete quote exec m i db) = snd (exec (delete_sql quote m i) db)"
  by (simp add: Delete_def)

text \<open>
  Only the owner of a thread, a message or a point of interest changes it: when an update or a
  deletion does more to the database than to look the row up, then the row was found, its owner
  is the user of the token, and the one statement that ran is on that row.
\<close>

theorem only_the_owner_writes:
  assumes "m \<in> {threads_model, messages_model, poi_model}" "GetStr json ''id'' = Inr i"
    "db1 = snd (exec (where_sql quote m ''id'' i) db)"
  shows "(snd (update_owned quote exec m json token db) = db1
      \<or> owns quote exec m i token db \<and>
        (\<exists>s. snd (update_owned quote exec m json token db) = snd (exec (update_sql quote m i s) db1)))
    \<and> (snd (delete_owned quote exec m json token db) = db1
      \<or> owns quote exec m i token db \<and>
        snd (delete_owned quote exec m json token db) = snd (exec (delete_sql quote m i) db1))"
proof (intro conjI)
  have c: "HasColumn m ''id''"
    using assms(1) by (auto simp: threads_model_def messages_model_def poi_model_def HasColumn_def
        auto_column_def)
  let ?upd = "\<lambda>i. bindD (liftD (member_of json ''values'')) (\<lambda>values.
       bindD (Update quote exec m i (objectValues values)) (\<lambda>j. retD (print j)))"
  have "snd (?upd i db1) = db1 \<or> (\<exists>s. snd (?upd i db1) = snd (exec (update_sql quote m i s) db1))"
    using snd_Update [of quote exec m i _ db1]
    by (cases "member_of json ''values''") (auto simp: snd_print)
  with if_owner_owns [OF c assms(2), of db1 exec quote db token ?upd] assms(3)
  show "snd (update_owned quote exec m json token db) = db1
      \<or> owns quote exec m i token db \<and>
        (\<exists>s. snd (update_owned quote exec m json token db) = snd (exec (update_sql quote m i s) db1))"
    unfolding update_owned_def by auto
  from if_owner_owns [OF c assms(2), of db1 exec quote db token
      "\<lambda>i. bindD (Delete quote exec m i) (\<lambda>j. retD (print j))"] assms(3)
  show "snd (delete_owned quote exec m json token db) = db1
      \<or> owns quote exec m i token db \<and>
        snd (delete_owned quote exec m json token db) = snd (exec (delete_sql quote m i) db1)"
    unfolding delete_owned_def by (auto simp: snd_print snd_Delete)
qed


text \<open>A database that answers every query with the same rows and keeps the statements.\<close>

definition row_of :: "(string \<times> string) list \<Rightarrow> row" where
  "row_of = map (\<lambda>(k, v). (k, Some v))"

definition logs :: "row list \<Rightarrow> string list executor" where
  "logs rows s log = (Inr rows, log @ [s])"

definition a_message :: row where
  "a_message = row_of [(''id'', ''4''), (''owner_id'', ''7''), (''thread_id'', ''1''),
     (''title'', ''t''), (''content'', ''c''), (''modified'', ''m''), (''created'', ''c'')]"

definition token_of :: "string \<Rightarrow> JsonObject" where
  "token_of i = JsonObject OBJECT [] [(''id'', new_string i)] []"

lemma only_the_owner_writes_witness:
  "owns id (logs [a_message]) messages_model ''4'' (token_of ''7'') []"
proof -
  let ?w = "where_sql id messages_model ''id'' ''4''"
  have one: "length (snd (logs [a_message] ?w [])) = 1" by (simp add: logs_def)
  have "length (snd (delete_owned id (logs [a_message]) messages_model (token_of ''4'') (token_of ''7'') [])) = 2"
    by code_simp
  then have "snd (delete_owned id (logs [a_message]) messages_model (token_of ''4'') (token_of ''7'') [])
      \<noteq> snd (logs [a_message] ?w [])" using one by auto
  moreover have "GetStr (token_of ''4'') ''id'' = Inr ''4''" by (simp add: token_of_def GetStr_def um_defs)
  ultimately show ?thesis
    using only_the_owner_writes [of messages_model "token_of ''4''" "''4''" _ "logs [a_message]" id "[]"
        "token_of ''7''"] by blast
qed

section \<open>Who may read\<close>

text \<open>The database says that the user of the token is an administrator.\<close>

definition is_admin ::
  "(string \<Rightarrow> string) \<Rightarrow> 'db executor \<Rightarrow> JsonObject \<Rightarrow> 'db \<Rightarrow> bool" where
  "is_admin quote exec token db \<longleftrightarrow>
     (\<exists>user rows. GetStr token ''id'' = Inr user
       \<and> fst (exec (where_sql quote access_model ''owner_id'' user) db) = Inr rows
       \<and> (\<exists>row \<in> set rows. map_of row ''access_type_id'' = Some (Some ''1'')))"

lemma any_access_True:
  "any_access types as = Inr True \<Longrightarrow> \<exists>a \<in> set as. \<exists>t \<in> set types. GetStr a ''access_type_id'' = Inr t"
  by (induction as) (auto simp: bindR_eq_Inr split: if_splits)

lemma has_access_admin:
  assumes "has_access quote exec [''1''] token db = (Inr True, db')"
  shows "is_admin quote exec token db"
proof -
  from assms obtain i where i: "GetStr token ''id'' = Inr i"
    by (cases "GetStr token ''id''") (auto simp: has_access_def)
  have "HasColumn access_model ''owner_id''"
    by (simp add: access_model_def HasColumn_def column_def)
  from Where_runs [OF this, where quote = quote and exec = exec and v = i and db = db]
  obtain j db1 where w: "Where quote exec access_model ''owner_id'' i db = (Inr j, db1)"
    and j: "arrayValues j = [] \<or> (\<exists>rs. fst (exec (where_sql quote access_model ''owner_id'' i) db) = Inr rs
      \<and> ResultToJson access_model rs = Inr j)" by blast
  from assms i w have "any_access [''1''] (arrayValues j) = Inr True"
    by (simp add: has_access_def bindD_eqs)
  from any_access_True [OF this] obtain a where a: "a \<in> set (arrayValues j)"
    "GetStr a ''access_type_id'' = Inr ''1''" by auto
  with j obtain rs where rs: "fst (exec (where_sql quote access_model ''owner_id'' i) db) = Inr rs"
      "ResultToJson access_model rs = Inr j" by auto
  from item_field [OF rs(2) a] i rs(1) show ?thesis by (auto simp: is_admin_def)
qed

text \<open>
  C36. The list of all users and the dump of the database are for administrators: whoever gets
  another answer than a refusal has a token whose user the database lists with access type 1.
\<close>

theorem only_admins_read_everything:
  assumes "fst (read_users quote exec token db) = Inr answer
      \<or> fst (backup quote exec dump token db) = Inr answer"
    "answer \<noteq> INSUFFICIENT_ACCESS"
  shows "is_admin quote exec token db"
proof (cases "has_access quote exec [''1''] token db")
  case (Pair r db')
  show ?thesis
  proof (cases "r = Inr True")
    case True
    with Pair have "has_access quote exec [''1''] token db = (Inr True, db')" by simp
    then show ?thesis by (rule has_access_admin)
  next
    case False
    with Pair assms show ?thesis
      by (cases r) (auto simp: read_users_def backup_def bindD_eqs)
  qed
qed

definition an_access :: row where
  "an_access = row_of [(''owner_id'', ''7''), (''access_type_id'', ''1'')]"

lemma only_admins_read_everything_witness: "is_admin id (logs [an_access]) (token_of ''7'') []"
proof (rule only_admins_read_everything [where dump = "''dump''" and answer = "''dump''"])
  have "fst (backup id (logs [an_access]) ''dump'' (token_of ''7'') []) = Inr ''dump''" by code_simp
  then show "fst (read_users id (logs [an_access]) (token_of ''7'') []) = Inr ''dump''
      \<or> fst (backup id (logs [an_access]) ''dump'' (token_of ''7'') []) = Inr ''dump''" by blast
  show "''dump'' \<noteq> INSUFFICIENT_ACCESS" by code_simp
qed

section \<open>Accounts\<close>

text \<open>
  A user can change the key of the own account, which the guard of \<open>update_user\<close> means to
  prevent: an \<open>id\<close> among the values is written by the statement, and when the old one then finds
  no row, the function reads the first element of an empty vector.
\<close>

theorem own_id_can_be_changed:
  assumes "um_find (objectValues json) ''values'' = Some vals"
    "objectValues vals = [(''id'', new_string new_id)]" "GetStr token ''id'' = Inr i"
    "db1 = snd (exec (update_sql quote users_model i (''id = '' @ quote new_id)) db)"
    "exec (where_sql quote users_model ''id'' i) db1 = (Inr [], db2)"
  shows "update_user quote exec hash encrypt json token db = (Inl OutOfBounds, db2)"
proof -
  have c: "HasColumn users_model ''id''"
    by (simp add: users_model_def HasColumn_def auto_column_def)
  have u: "\<exists>j. Update quote exec users_model i [(''id'', new_string new_id)] db = (Inr j, db1)"
    using c assms(4)
    by (auto simp: Update_def comma_def then_json_def caught_as_def split: prod.split sum.split)
  have w: "Where quote exec users_model ''id'' i db1 = (Inr (new_typed ARRAY), db2)"
    using c assms(5) by (simp add: Where_def then_json_def caught_as_def ResultToJson_def)
  from u w assms(1-3) show ?thesis
    by (auto simp: update_user_def member_of_def um_count_find um_find_Cons bindD_eqs first_item_def
        new_typed_def Let_def)
qed

definition rename_request :: JsonObject where
  "rename_request = JsonObject OBJECT []
     [(''values'', JsonObject OBJECT [] [(''id'', new_string ''1'')] [])] []"

lemma own_id_can_be_changed_witness:
  "update_user id (logs []) id id rename_request (token_of ''7'') [] =
     (Inl OutOfBounds,
      [update_sql id users_model ''7'' (''id = '' @ ''1''), where_sql id users_model ''id'' ''7''])"
proof (rule own_id_can_be_changed [where vals =
      "JsonObject OBJECT [] [(''id'', new_string ''1'')] []" and new_id = "''1''" and i = "''7''" and exec = "logs []" and quote = id])
  show "GetStr (token_of ''7'') ''id'' = Inr ''7''" by (simp add: token_of_def GetStr_def um_defs)
  show "logs [] (where_sql id users_model ''id'' ''7'')
      [update_sql id users_model ''7'' (''id = '' @ ''1'')] =
    (Inr [], [update_sql id users_model ''7'' (''id = '' @ ''1''), where_sql id users_model ''id'' ''7''])"
    by (simp add: logs_def)
qed (simp_all add: rename_request_def um_find_def logs_def)

definition login_errors :: "string list" where
  "login_errors = map (\<lambda>m. print (Error m)) [''Bad username.'', ''Bad password.'', ''Bad data.'']"

lemma Access_error:
  assumes "fst (Access quote exec users_model key v password db) = Inr j"
    "um_count (objectValues j) ''error''"
  shows "print j \<in> set login_errors"
proof -
  have "\<not> visible users_model ''error''" by code_simp
  then have no: "um_find (objectValues j') ''error'' = None" if "row_to_json users_model r = Inr j'" for r j'
    using row_to_json_find [OF that] by (simp add: shown_def)
  show ?thesis
    using assms no
    by (cases "exec (access_sql quote users_model key v) db")
      (auto simp: Access_def then_json_def caught_as_def um_count_find login_errors_def
        split: sum.splits list.splits option.splits if_splits)
qed

text \<open>
  A login without an error is for the password: the first row of that name has exactly the hash of
  the password given, and the answer is a JSON text whose member \<open>token\<close> is read back, without the
  line breaks that the coding puts in, as the sealed text of an object that shows just the visible
  fields of that row.
\<close>

lemma login_answer:
  assumes "login quote exec hash encrypt json db = (Inr answer, db')"
    "GetStr json ''username'' = Inr u" "GetStr json ''password'' = Inr p"
    "\<And>s. NUL \<notin> set (encrypt s)" "answer \<notin> set login_errors"
  obtains row rows token j where
    "fst (exec (access_sql quote users_model ''username'' u) db) = Inr (row # rows)"
    "map_of row ''password'' = Some (Some (hash p))" "row_to_json users_model row = Inr token"
    "parse_into new_empty answer = ret j"
    "GetStr j ''token'' = Inr (strip_controls (encrypt (print token)))"
proof -
  obtain r db1 where a: "Access quote exec users_model ''username'' u (hash p) db = (r, db1)"
    by (cases "Access quote exec users_model ''username'' u (hash p) db")
  with assms(1-3) obtain token where r: "r = Inr token"
    by (cases r) (simp_all add: login_def bindD_eqs)
  have no_error: "\<not> um_count (objectValues token) ''error''"
  proof
    assume e: "um_count (objectValues token) ''error''"
    have "print token \<in> set login_errors"
      using Access_error [where quote = quote and exec = exec and key = "''username''" and v = u
          and password = "hash p" and db = db] e a r by simp
    with e a r assms show False by (simp add: login_def bindD_eqs)
  qed
  let ?j = "JsonObject OBJECT [] [(''token'', new_string (encrypt (print token)))] []"
  have "answer = print ?j"
    using a r assms(1-3) no_error
    by (simp add: login_def bindD_eqs newline_if_def indent_def new_string_def) (simp add: escape_def)
  moreover have "parse_into new_empty (print ?j) = ret (reread ?j)"
    by (rule parse_stringify) (simp add: new_string_def assms(4))
  moreover have "GetStr (reread ?j) ''token'' = Inr (strip_controls (encrypt (print token)))"
    by (simp add: GetStr_def um_find_Cons new_string_def strip_controls_def)
  moreover obtain row rows where "fst (exec (access_sql quote users_model ''username'' u) db) = Inr (row # rows)"
    "map_of row ''password'' = Some (Some (hash p))" "row_to_json users_model row = Inr token"
    using a r no_error
    by (cases "exec (access_sql quote users_model ''username'' u) db")
      (auto simp: Access_def then_json_def caught_as_def um_count_find
        split: sum.splits list.splits option.splits if_splits)
  ultimately show thesis using that by metis
qed

definition a_user :: row where
  "a_user = row_of [(''id'', ''7''), (''username'', ''ann''), (''password'', ''hash''),
     (''primary_token'', ''p''), (''secondary_token'', ''s''), (''email'', ''e''), (''first_name'', ''f''),
     (''last_name'', ''l''), (''color'', ''c''), (''modified'', ''m''), (''created'', ''c'')]"

definition login_request :: JsonObject where
  "login_request = JsonObject OBJECT []
     [(''username'', new_string ''ann''), (''password'', new_string ''secret'')] []"

end
