(* ===== verification/Jph2Chat.thy ===== *)
theory Jph2Chat
  imports Jph2 Rearm
begin

text \<open>
  The chat of the web application (\<open>examples/jph2/chat.cpp\<close>), and the server that redirects plain
  requests to the encrypted one (\<open>examples/jph2/http-redirecter.cpp\<close>,
  \<open>examples/http-redirecter.cpp\<close>).  The chat is refined to the log of all messages ever accepted.
\<close>

section \<open>The chat\<close>

record chat =
  chat_messages :: "JsonObject list"             \<comment> \<open>the deque, front first\<close>
  client_last_message :: "(string, string) umap"

definition new_chat :: chat where
  "new_chat = \<lparr>chat_messages = [], client_last_message = []\<rparr>"

text \<open>
  The loop that removes \<open>iframe\<close>: the search goes on where the last one was removed.  Beyond the
  end of the message nothing is found.
\<close>

function strip_iframe :: "nat \<Rightarrow> string \<Rightarrow> string" where
  "strip_iframe index s =
     (case find_sub ''iframe'' (drop index s) of
        None \<Rightarrow> s
      | Some i \<Rightarrow> strip_iframe (index + i) (take (index + i) s @ drop (index + i + 6) s))"
  by pat_completeness auto
termination
  by (relation "measure (\<lambda>(index, s). length s)")
    (auto dest: find_sub_Some simp: min_def)

declare strip_iframe.simps [simp del]

definition set_message :: "string \<Rightarrow> JsonObject \<Rightarrow> JsonObject" where
  "set_message s msg =
     (case um_find (objectValues msg) ''message'' of
        None \<Rightarrow> msg | Some v \<Rightarrow> set_objectValue ''message'' (set_stringValue s v) msg)"

definition push_message :: "JsonObject \<Rightarrow> JsonObject list \<Rightarrow> JsonObject list" where
  "push_message msg ms =
     (let ms = msg # ms in if 100 < length ms then butlast ms else ms)"

definition chat_msg :: "JsonObject \<Rightarrow> chat \<Rightarrow> string res \<times> chat" where
  "chat_msg msg =
     bindD (liftD (GetStr msg ''message'')) (\<lambda>s0.
     let s = strip_iframe 0 s0; msg = set_message s msg in
     if length s < 2 then retD (json_error ''Message too short.'')
     else if 256 < length s then retD (json_error ''Message too long.'')
     else bindD (liftD (GetStr msg ''handle'')) (\<lambda>handle. \<lambda>c.
       if um_find (client_last_message c) handle = Some s
       then (Inr (json_error ''Do not send the same message.''), c)
       else (Inr (''{'' @ [DQ] @ ''status'' @ [DQ] @ '':'' @ [DQ] @ ''Sent.'' @ [DQ] @ ''}''),
         \<lparr>chat_messages = push_message msg (chat_messages c),
          client_last_message = um_set handle s (client_last_message c)\<rparr>)))"

definition copy_string :: "JsonObject \<Rightarrow> string \<Rightarrow> JsonObject \<Rightarrow> JsonObject res" where
  "copy_string from k to = bindR (GetStr from k) (\<lambda>s. Inr (set_objectValue k (new_string s) to))"

definition show_message :: "JsonObject \<Rightarrow> JsonObject res" where
  "show_message m =
     bindR (if HasObj m ''color'' STRING then copy_string m ''color'' (new_typed OBJECT)
            else Inr (new_typed OBJECT)) (\<lambda>j.
     bindR (copy_string m ''handle'' j) (copy_string m ''message''))"

fun show_messages :: "JsonObject list \<Rightarrow> JsonObject \<Rightarrow> JsonObject res" where
  "show_messages [] a = Inr a"
| "show_messages (m # ms) a =
     bindR (show_message m) (\<lambda>j. show_messages ms (push_arrayValue j a))"

definition read_chat :: "chat \<Rightarrow> string res" where
  "read_chat c =
     bindR (show_messages (chat_messages c) (new_typed ARRAY)) (\<lambda>ms.
       Inr (print (set_objectValue ''messages'' ms (new_typed OBJECT))))"

definition new_message :: "string \<Rightarrow> string \<Rightarrow> JsonObject \<Rightarrow> JsonObject" where
  "new_message handle s j =
     set_objectValue ''message'' (new_string s) (set_objectValue ''handle'' (new_string handle) j)"

definition create_authenticated_chat ::
  "JsonObject \<Rightarrow> JsonObject \<Rightarrow> chat \<Rightarrow> string res \<times> chat" where
  "create_authenticated_chat json token =
     bindD (liftD (GetStr token ''color'')) (\<lambda>color.
     bindD (liftD (GetStr token ''username'')) (\<lambda>username.
     bindD (liftD (GetStr json ''message'')) (\<lambda>s.
       chat_msg (new_message username s
         (set_objectValue ''color'' (new_string color) (new_typed OBJECT))))))"

text \<open>The database and the chat side by side.\<close>

definition on_db :: "('db, 'a) action \<Rightarrow> ('db \<times> chat, 'a) action" where
  "on_db act = (\<lambda>(db, c). case act db of (r, db) \<Rightarrow> (r, (db, c)))"

definition on_chat :: "(chat, 'a) action \<Rightarrow> ('db \<times> chat, 'a) action" where
  "on_chat act = (\<lambda>(db, c). case act c of (r, c) \<Rightarrow> (r, (db, c)))"

definition create_chat ::
  "(string \<Rightarrow> string) \<Rightarrow> 'db executor \<Rightarrow> JsonObject \<Rightarrow> ('db \<times> chat, string) action" where
  "create_chat quote exec json =
     bindD (liftD (GetStr json ''handle'')) (\<lambda>handle.
     bindD (on_db (Where quote exec users_model ''username'' handle)) (\<lambda>found.
       if arrayValues found \<noteq> [] then
         retD (json_error (''That'' @ [CHR 0x27] @ ''s an existing username. Please login as that user.''))
       else if length handle < 5 then retD (json_error ''Handle too short.'')
       else if 32 < length handle then retD (json_error ''Handle too long.'')
       else bindD (liftD (GetStr json ''message'')) (\<lambda>s.
         on_chat (chat_msg (new_message handle s (new_typed OBJECT))))))"

section \<open>The redirecter\<close>

text \<open>The address is taken from the request: what stands between its first two spaces.\<close>

fun request_url :: "string \<Rightarrow> bool \<Rightarrow> string \<Rightarrow> string" where
  "request_url [] in_url url = url"
| "request_url (c # it) in_url url =
     (if in_url then
        (if c = CR \<or> c = LF \<or> c = CHR '' '' then url else request_url it in_url (url @ [c]))
      else request_url it (c = CHR '' '') url)"

definition redirect :: "string \<Rightarrow> string \<Rightarrow> string" where
  "redirect hostname packet = get_redirection_html (request_url (c_str packet) False hostname)"

text \<open>The handler sends its answer and closes the connection; the other server has one answer.\<close>

definition redirecter_on_read :: "string \<Rightarrow> string \<Rightarrow> string \<times> int" where
  "redirecter_on_read hostname packet = (redirect hostname packet, - 1)"

definition plain_redirecter_on_read :: "string \<Rightarrow> string \<Rightarrow> string \<times> int" where
  "plain_redirecter_on_read hostname packet = (get_redirection_html hostname, - 1)"

section \<open>The filter of the chat\<close>

lemma strip_iframe_replace:
  "replace_loop ''iframe'' [] processed rest = ret (strip_iframe (length processed) (processed @ rest))"
proof (induction "length rest" arbitrary: processed rest rule: less_induct)
  case less
  show ?case
  proof (cases "find_sub ''iframe'' rest")
    case None
    then show ?thesis
      by (subst replace_loop.simps, subst strip_iframe.simps) simp
  next
    case (Some i)
    from find_sub_Some [OF Some] have i: "i + 6 \<le> length rest" by simp
    then have "length (drop (i + 6) rest) < length rest" by simp
    from less.hyps [OF this, of "processed @ take i rest"] i Some show ?thesis
      by (subst replace_loop.simps, subst strip_iframe.simps) (simp add: min_def numeral_eq_Suc)
  qed
qed

lemma strip_iframe_shorter: "length (strip_iframe index s) \<le> length s"
proof (induction index s rule: strip_iframe.induct)
  case (1 index s)
  show ?case
  proof (cases "find_sub ''iframe'' (drop index s)")
    case None
    then show ?thesis by (subst strip_iframe.simps) simp
  next
    case (Some i)
    with "1.IH" [OF Some] show ?thesis by (subst strip_iframe.simps) (auto dest: find_sub_Some)
  qed
qed

text \<open>
  C38. The loop that removes \<open>iframe\<close> from a message does what \<open>Util::replace_all\<close> does with an empty
  replacement; it always ends.
\<close>

theorem filter_is_replacement: "replace_all s ''iframe'' [] = ret (strip_iframe 0 s)"
  using strip_iframe_replace [of "[]" s] by (simp add: replace_all_def)

text \<open>What it removes can be put together from what is left.\<close>

lemma filter_leaks: "strip_iframe 0 ''<ifriframeame>'' = ''<iframe>''"
  by code_simp

section \<open>The chat as a log\<close>

text \<open>
  The specification: the log of all messages accepted so far, newest first, with who wrote them.
  A message is accepted when its length is between 2 and 256 and it is not the last one of its
  writer; what is shown is the first hundred entries.
\<close>

type_synonym entry = "string \<times> string \<times> JsonObject"

definition last_of :: "string \<Rightarrow> entry list \<Rightarrow> string option" where
  "last_of handle entries = map_of (map (\<lambda>(h, s, j). (h, s)) entries) handle"

definition accepts_entry :: "string \<Rightarrow> string \<Rightarrow> entry list \<Rightarrow> bool" where
  "accepts_entry handle s entries \<longleftrightarrow>
     2 \<le> length s \<and> length s \<le> 256 \<and> last_of handle entries \<noteq> Some s"

definition post :: "string \<Rightarrow> JsonObject \<Rightarrow> entry list \<Rightarrow> entry list" where
  "post handle msg entries =
     (case GetStr msg ''message'' of Inl e \<Rightarrow> entries
      | Inr s0 \<Rightarrow>
          (let s = strip_iframe 0 s0 in
           if accepts_entry handle s entries then (handle, s, set_message s msg) # entries else entries))"

definition shows_log :: "chat \<Rightarrow> entry list \<Rightarrow> bool" where
  "shows_log c entries \<longleftrightarrow>
     chat_messages c = take 100 (map (\<lambda>(h, s, j). j) entries)
     \<and> um_find (client_last_message c) = (\<lambda>h. last_of h entries)"

lemma push_message_take: "push_message m (take 100 ms) = take 100 (m # ms)"
  unfolding push_message_def Let_def by (rule newest_take) simp

lemma chat_msg_post:
  assumes "shows_log c entries" "GetStr (set_message s msg) ''handle'' = Inr handle"
    "GetStr msg ''message'' = Inr s0" "s = strip_iframe 0 s0"
  shows "shows_log (snd (chat_msg msg c)) (post handle msg entries)"
proof -
  have h: "um_find (client_last_message c) handle = last_of handle entries"
    and m: "chat_messages c = take 100 (map (\<lambda>(h, s, j). j) entries)"
    using assms(1) by (simp_all add: shows_log_def)
  show ?thesis
  proof (cases "accepts_entry handle s entries")
    case True
    then have "snd (chat_msg msg c) = \<lparr>chat_messages = push_message (set_message s msg) (chat_messages c),
        client_last_message = um_set handle s (client_last_message c)\<rparr>"
      using assms(2-4) h by (simp add: chat_msg_def accepts_entry_def Let_def)
    with True m assms show ?thesis
      by (auto simp: shows_log_def post_def push_message_take last_of_def fun_eq_iff Let_def)
  next
    case False
    then have "snd (chat_msg msg c) = c"
      using assms(2-4) h by (auto simp: chat_msg_def accepts_entry_def Let_def)
    with False assms show ?thesis by (simp add: post_def Let_def)
  qed
qed

definition chat_step :: "chat \<Rightarrow> string \<times> string \<times> JsonObject \<Rightarrow> chat" where
  "chat_step c p = (case p of (handle, s, j) \<Rightarrow> snd (chat_msg (new_message handle s j) c))"

definition log_step :: "entry list \<Rightarrow> string \<times> string \<times> JsonObject \<Rightarrow> entry list" where
  "log_step entries p = (case p of (handle, s, j) \<Rightarrow> post handle (new_message handle s j) entries)"

lemma new_message_fields:
  "GetStr (new_message handle s j) ''message'' = Inr s"
  "GetStr (set_message s' (new_message handle s j)) ''handle'' = Inr handle"
  by (simp_all add: GetStr_def new_message_def set_message_def)

definition said_by :: "string \<Rightarrow> entry list \<Rightarrow> string list" where
  "said_by handle entries = map (\<lambda>(h, s, j). s) (filter (\<lambda>(h, s, j). h = handle) entries)"

definition well_kept :: "entry list \<Rightarrow> bool" where
  "well_kept entries \<longleftrightarrow> list_all (\<lambda>(h, s, j). 2 \<le> length s \<and> length s \<le> 256) entries
     \<and> (\<forall>h. distinct_adj (said_by h entries))"

lemma said_by_Cons [simp]:
  "said_by h ((h', s, j) # entries) = (if h' = h then s # said_by h entries else said_by h entries)"
  by (simp add: said_by_def)

lemma last_of_said:
  "last_of h entries = (case said_by h entries of [] \<Rightarrow> None | s # _ \<Rightarrow> Some s)"
  by (induction entries) (auto simp: last_of_def said_by_def)

lemma post_well_kept:
  assumes "well_kept entries"
  shows "well_kept (post handle msg entries)"
proof -
  have "distinct_adj (s # said_by handle entries)" if "last_of handle entries \<noteq> Some s" for s
    using that assms
    by (cases "said_by handle entries") (auto simp: last_of_said well_kept_def distinct_adj_Cons dest: spec [of _ handle])
  with assms show ?thesis
    by (auto simp: post_def well_kept_def accepts_entry_def Let_def split: sum.split)
qed

interpretation chat_log: event_machine
  "\<lambda>(c, entries) p. (chat_step c p, log_step entries p)"
  "\<lambda>(c, entries). shows_log c entries \<and> well_kept entries" "\<lambda>_ _. True"
proof
  fix ce :: "chat \<times> entry list" and p :: "string \<times> string \<times> JsonObject"
  obtain c entries where ce: "ce = (c, entries)" by (cases ce)
  obtain handle s j where p: "p = (handle, s, j)" by (cases p)
  assume "case ce of (c, entries) \<Rightarrow> shows_log c entries \<and> well_kept entries"
  then show "case case ce of (c, entries) \<Rightarrow> \<lambda>p. (chat_step c p, log_step entries p) of
      f \<Rightarrow> case f p of (c, entries) \<Rightarrow> shows_log c entries \<and> well_kept entries"
    unfolding ce p
    using chat_msg_post [OF _ new_message_fields(2) new_message_fields(1) refl] post_well_kept
    by (simp add: chat_step_def log_step_def)
qed

lemma run_pair:
  "run_steps (\<lambda>(c, l) p. (f c p, g l p)) (c, l) ps = (run_steps f c ps, run_steps g l ps)"
  by (induction ps arbitrary: c l) simp_all

text \<open>
  C37. However many messages are posted, the chat shows the newest hundred of those that were
  accepted, newest first, and nothing else; what is accepted has from 2 to 256 characters after
  the filter, and nobody says the same twice in a row.
\<close>

theorem chat_shows_its_log:
  "chat_messages (run_steps chat_step new_chat posts) =
      take 100 (map (\<lambda>(h, s, j). j) (run_steps log_step [] posts))
    \<and> well_kept (run_steps log_step [] posts)"
proof -
  have "shows_log new_chat [] \<and> well_kept []"
    by (simp add: shows_log_def new_chat_def last_of_def fun_eq_iff well_kept_def said_by_def)
  with chat_log.run_inv_always [of "(new_chat, [])" posts] show ?thesis
    by (simp add: run_pair shows_log_def)
qed

section \<open>A user without a colour\<close>

text \<open>
  A user whose colour is null in the database stops the server with one message: the token of
  that user has no member \<open>color\<close>, and the exception about the missing member is a pointer, which
  the handler of token functions does not catch.
\<close>

theorem colourless_user_is_fatal:
  assumes "row_to_json users_model row = Inr token" "map_of row ''color'' = Some None"
    "canonical token" "GetStr req ''token'' = Inr s" "decrypt env (deescape s) = Inr (print token)"
  shows "call_token_function env (\<lambda>req token. fst (create_authenticated_chat req token c)) req =
    fail (MissingKey ''color'')"
proof -
  have "GetStr token ''color'' = Inl (MissingKey ''color'')"
    using row_to_json_find [OF assms(1), of "''color''"] assms(2) by (simp add: GetStr_def shown_def)
  then have f: "fst (create_authenticated_chat req token c) = Inl (MissingKey ''color'')"
    by (simp add: create_authenticated_chat_def)
  have "c_str (print token) = print token"
    using canonical_reread(1) [OF assms(3)] by (intro c_str_id stringify_no_NUL) simp
  then have "parse_into new_empty (c_str (print token)) = ret token"
    using parse_stringify_canonical [OF assms(3)] by simp
  then show ?thesis
    using f assms(4,5) by (simp add: call_token_function_def caught_def fail_def Let_def)
qed

definition colourless :: row where
  "colourless = map (\<lambda>f. if fst f = ''color'' then (''color'', None) else f) a_user"

definition colourless_token :: JsonObject where
  "colourless_token = (case row_to_json users_model colourless of Inr j \<Rightarrow> j | Inl _ \<Rightarrow> new_empty)"

lemma colourless_user_is_fatal_witness:
  "call_token_function (sample_env\<lparr>decrypt := (\<lambda>_. Inr (print colourless_token))\<rparr>)
      (\<lambda>req token. fst (create_authenticated_chat req token new_chat))
      (JsonObject OBJECT [] [(''token'', new_string ''t'')] []) = fail (MissingKey ''color'')"
proof (rule colourless_user_is_fatal)
  show "row_to_json users_model colourless = Inr colourless_token" by code_simp
  show "map_of colourless ''color'' = Some None" by code_simp
  show "canonical colourless_token" by code_simp
  show "GetStr (JsonObject OBJECT [] [(''token'', new_string ''t'')] []) ''token'' = Inr ''t''" by code_simp
qed simp

section \<open>What the redirecter answers\<close>

definition url_end :: "char \<Rightarrow> bool" where
  "url_end c \<longleftrightarrow> c = CR \<or> c = LF \<or> c = CHR '' ''"

lemma request_url_inside: "request_url it True url = url @ takeWhile (\<lambda>c. \<not> url_end c) it"
  by (induction it arbitrary: url) (auto simp: url_end_def)

lemma request_url_reads:
  "request_url it False url =
    url @ takeWhile (\<lambda>c. \<not> url_end c) (drop 1 (dropWhile (\<lambda>c. c \<noteq> CHR '' '') it))"
  by (induction it arbitrary: url) (auto simp: request_url_inside)

text \<open>
  A plain request is sent on to the same path under the configured name, and its connection is
  closed: whatever is sent, the new address is the name followed by what stands between the first
  space and the next space or line end, so that nothing sent can add a header.
\<close>

theorem redirect_keeps_the_path:
  "\<exists>path. redirecter_on_read hostname packet = (get_redirection_html (hostname @ path), - 1)
    \<and> list_all (\<lambda>c. c \<noteq> CR \<and> c \<noteq> LF \<and> c \<noteq> CHR '' '' \<and> c \<noteq> NUL) path
    \<and> (\<exists>before after. c_str packet = before @ path @ after
        \<and> (before = [] \<and> path = [] \<or> (\<exists>m. before = m @ '' '' \<and> CHR '' '' \<notin> set m)))"
proof -
  let ?s = "c_str packet"
  let ?p = "takeWhile (\<lambda>c. \<not> url_end c) (drop 1 (dropWhile (\<lambda>c. c \<noteq> CHR '' '') ?s))"
  have "set ?p \<subseteq> set ?s" by (auto dest!: set_takeWhileD in_set_dropD set_dropWhileD)
  then have no_nul: "NUL \<notin> set ?p" using c_str_no_NUL [of packet] by blast
  have ends: "\<not> url_end c" if "c \<in> set ?p" for c using that by (auto dest: set_takeWhileD)
  have p: "list_all (\<lambda>c. c \<noteq> CR \<and> c \<noteq> LF \<and> c \<noteq> CHR '' '' \<and> c \<noteq> NUL) ?p"
    unfolding list_all_iff
  proof
    fix c assume c: "c \<in> set ?p"
    show "c \<noteq> CR \<and> c \<noteq> LF \<and> c \<noteq> CHR '' '' \<and> c \<noteq> NUL"
      using ends [OF c] c no_nul unfolding url_end_def by blast
  qed
  have split: "\<exists>before after. ?s = before @ ?p @ after
      \<and> (before = [] \<and> ?p = [] \<or> (\<exists>m. before = m @ '' '' \<and> CHR '' '' \<notin> set m))"
  proof (cases "dropWhile (\<lambda>c. c \<noteq> CHR '' '') ?s")
    case Nil
    then have "?p = []" by (simp only: drop_Nil takeWhile.simps)
    then show ?thesis by (intro exI [of _ "[]"] exI [of _ ?s] conjI disjI1) (simp_all only: append_Nil)
  next
    case (Cons d r)
    then have d: "d = CHR '' ''" using hd_dropWhile [of "\<lambda>c. c \<noteq> CHR '' ''" ?s] by simp
    let ?m = "takeWhile (\<lambda>c. c \<noteq> CHR '' '') ?s"
    have "?s = ?m @ d # r" using Cons takeWhile_dropWhile_id [of "\<lambda>c. c \<noteq> CHR '' ''" ?s] by simp
    moreover have "r = takeWhile (\<lambda>c. \<not> url_end c) r @ dropWhile (\<lambda>c. \<not> url_end c) r" by simp
    moreover have "CHR '' '' \<notin> set ?m" by (auto dest: set_takeWhileD)
    ultimately show ?thesis using Cons d
      by (intro exI [of _ "?m @ '' ''"] exI [of _ "dropWhile (\<lambda>c. \<not> url_end c) r"]) auto
  qed
  from p split show ?thesis
    unfolding redirecter_on_read_def redirect_def request_url_reads by blast
qed

end
