(* ===== verification/Tls.thy ===== *)
theory Tls
  imports Rearm Websocket
begin

text \<open>
  The servers over TLS (\<open>cpp-source/tls-epoll-server.cpp\<close>, \<open>tls-websocket-server.cpp\<close>): what they
  put in place of \<open>send\<close>, \<open>recv\<close>, \<open>accept_continuation\<close> and \<open>close_client\<close> of the epoll server.
  The TLS library is outside: what each of its calls returns, and the clock after it, is given.
  Its sessions are numbers; the library keeps the list of those that are allocated.
\<close>

section \<open>Waiting for the library\<close>

datatype ssl_error =
  SSL_NONE | SSL_WANT_READ | SSL_WANT_WRITE | SSL_ZERO_RETURN | SSL_SYSCALL | SSL_OTHER

text \<open>The result, the error and the clock (in milliseconds) of call number \<open>i\<close>.\<close>

type_synonym 'a calls = "nat \<Rightarrow> 'a \<times> ssl_error \<times> int"

datatype 'a waited = Timed_out | Finished 'a ssl_error

definition ssl_timeout :: int where "ssl_timeout = 10000"

text \<open>
  The loop that \<open>send\<close>, \<open>recv\<close> and \<open>accept_continuation\<close> share: it calls the library as long as the
  error is one of those to wait for, and gives up when the clock was too late after a call.
\<close>

partial_function (option) retry ::
  "(ssl_error \<Rightarrow> bool) \<Rightarrow> 'a calls \<Rightarrow> int \<Rightarrow> nat \<Rightarrow> 'a \<Rightarrow> ssl_error \<Rightarrow> int \<Rightarrow> 'a waited option" where
  "retry waits results start_ms i len err diff =
     (if \<not> waits err then Some (Finished len err)
      else if ssl_timeout < diff then Some Timed_out
      else case results i of (len, err, now) \<Rightarrow>
        retry waits results start_ms (i + 1) len err (now - start_ms))"

declare retry.simps [code]

definition wants_read :: "ssl_error \<Rightarrow> bool" where
  "wants_read err = (err = SSL_WANT_READ)"

definition wants_write :: "ssl_error \<Rightarrow> bool" where
  "wants_write err = (err = SSL_WANT_WRITE)"

definition wants_any :: "ssl_error \<Rightarrow> bool" where
  "wants_any err = (err = SSL_WANT_READ \<or> err = SSL_WANT_WRITE)"

section \<open>The server\<close>

record tls =
  client_ssl :: "(int, nat option) umap"      \<comment> \<open>\<open>None\<close> is the null pointer\<close>
  live_ssl :: "nat list"
  tls_fds :: "int list"
  tls_wrote :: "(int \<times> string) list"

definition new_tls :: tls where
  "new_tls = \<lparr>client_ssl = [], live_ssl = [], tls_fds = [], tls_wrote = []\<rparr>"

definition ssl_of :: "int \<Rightarrow> tls \<Rightarrow> nat option" where
  "ssl_of fd t = (case um_find (client_ssl t) fd of Some s \<Rightarrow> s | None \<Rightarrow> None)"

text \<open>Freeing the null pointer does nothing; freeing a session twice is a fault.\<close>

definition SSL_free :: "nat option \<Rightarrow> tls \<Rightarrow> tls res" where
  "SSL_free s t =
     (case s of None \<Rightarrow> Inr t
      | Some a \<Rightarrow>
          if a \<in> set (live_ssl t) then Inr (t\<lparr>live_ssl := removeAll a (live_ssl t)\<rparr>)
          else Inl OutOfBounds)"

definition tls_close_client :: "int \<Rightarrow> (int \<Rightarrow> tls \<Rightarrow> tls) \<Rightarrow> tls \<Rightarrow> tls res" where
  "tls_close_client fd callback t =
     bindR (SSL_free (ssl_of fd t) t) (\<lambda>t.
       Inr (callback fd (t\<lparr>client_ssl := um_erase fd (client_ssl t)\<rparr>)))"

definition close_socket :: "int \<Rightarrow> tls \<Rightarrow> tls" where
  "close_socket fd t = t\<lparr>tls_fds := removeAll fd (tls_fds t)\<rparr>"

definition tls_send :: "int \<Rightarrow> string \<Rightarrow> int calls \<Rightarrow> int \<Rightarrow> tls \<Rightarrow> (bool \<times> tls) prog" where
  "tls_send fd d results start_ms t =
     (case ssl_of fd t of None \<Rightarrow> fail NullDeref
      | Some s \<Rightarrow>
          (case retry wants_write results start_ms 0 0 SSL_WANT_WRITE 0 of
             None \<Rightarrow> None
           | Some Timed_out \<Rightarrow> ret (True, t)
           | Some (Finished len err) \<Rightarrow>
               if err = SSL_NONE then
                 ret (False, t\<lparr>tls_wrote := tls_wrote t @ [(fd, take (nat len) d)]\<rparr>)
               else ret (True, t)))"

definition tls_send_string :: "int \<Rightarrow> string \<Rightarrow> int calls \<Rightarrow> int \<Rightarrow> tls \<Rightarrow> (int \<times> tls) prog" where
  "tls_send_string fd d results start_ms t =
     bindP (tls_send fd d results start_ms t)
       (\<lambda>(e, t). ret (if e then - 1 else int (length d), t))"

text \<open>
  \<open>recv\<close> into an array of \<open>room\<close> bytes: \<open>reads n i\<close> is what the call number \<open>i\<close> of the library
  returns when it is asked for at most \<open>n\<close> bytes.  The terminator goes behind what was read.  A
  timeout returns the number 1 that \<open>true\<close> is, and what the handler answers is only looked at for
  its sign.
\<close>

definition tls_recv ::
  "(int \<Rightarrow> string \<Rightarrow> int) \<Rightarrow> int \<Rightarrow> nat \<Rightarrow> nat \<Rightarrow> (nat \<Rightarrow> string calls) \<Rightarrow> int \<Rightarrow> tls \<Rightarrow> int prog" where
  "tls_recv callback fd room data_length reads start_ms t =
     (case ssl_of fd t of None \<Rightarrow> fail NullDeref
      | Some s \<Rightarrow>
          (case retry wants_read (reads data_length) start_ms 0 [] SSL_WANT_READ 0 of
             None \<Rightarrow> None
           | Some Timed_out \<Rightarrow> ret 1
           | Some (Finished d err) \<Rightarrow>
               (case err of
                  SSL_NONE \<Rightarrow>
                    if room \<le> length d then fail OutOfBounds
                    else if callback fd d < 0 then ret (- 1) else ret (int (length d))
                | SSL_ZERO_RETURN \<Rightarrow> ret (- 2)
                | SSL_SYSCALL \<Rightarrow> ret (- 3)
                | _ \<Rightarrow> ret (- 1))))"

text \<open>How \<open>run_thread\<close> calls it: its array has 32 bytes more than it asks for.\<close>

definition packet_room :: nat where
  "packet_room = nat PACKET_LIMIT + 32"

definition tls_read_packet ::
  "(int \<Rightarrow> string \<Rightarrow> int) \<Rightarrow> int \<Rightarrow> (nat \<Rightarrow> string calls) \<Rightarrow> int \<Rightarrow> tls \<Rightarrow> int prog" where
  "tls_read_packet callback fd = tls_recv callback fd packet_room (nat PACKET_LIMIT)"

text \<open>\<open>True\<close> means that the connection is to be dropped.\<close>

definition tls_accept_continuation ::
  "int \<Rightarrow> nat option \<Rightarrow> bool \<Rightarrow> int calls \<Rightarrow> int \<Rightarrow> tls \<Rightarrow> (bool \<times> tls) option" where
  "tls_accept_continuation fd new_ssl set_fd_ok results start_ms t =
     (let t = t\<lparr>client_ssl := um_set fd new_ssl (client_ssl t),
            live_ssl := (case new_ssl of None \<Rightarrow> live_ssl t | Some a \<Rightarrow> a # live_ssl t)\<rparr>
      in if new_ssl = None \<or> \<not> set_fd_ok then Some (True, t)
         else (case retry wants_any results start_ms 0 0 SSL_WANT_READ 0 of
                 None \<Rightarrow> None
               | Some Timed_out \<Rightarrow> Some (True, t)
               | Some (Finished r err) \<Rightarrow> Some (err \<noteq> SSL_NONE, t)))"

text \<open>What the accept loop does with a new connection: it drops one whose continuation fails.\<close>

definition tls_accept ::
  "int \<Rightarrow> nat option \<Rightarrow> bool \<Rightarrow> int calls \<Rightarrow> int \<Rightarrow> tls \<Rightarrow> tls prog" where
  "tls_accept fd new_ssl set_fd_ok results start_ms t =
     (case tls_accept_continuation fd new_ssl set_fd_ok results start_ms
         (t\<lparr>tls_fds := fd # tls_fds t\<rparr>) of
        None \<Rightarrow> None
      | Some (True, t) \<Rightarrow> Some (tls_close_client fd close_socket t)
      | Some (False, t) \<Rightarrow> ret t)"

section \<open>Websockets over TLS\<close>

definition tls_ws_send ::
  "int \<Rightarrow> string \<Rightarrow> int calls \<Rightarrow> int \<Rightarrow> websocket \<times> tls \<Rightarrow> (bool \<times> websocket \<times> tls) prog" where
  "tls_ws_send fd d results start_ms s =
     (case s of (w, t) \<Rightarrow>
        (case handshake_complete fd w of (complete, w) \<Rightarrow>
           bindP (tls_send fd (if complete then create_frame d else d) results start_ms t)
             (\<lambda>(e, t). ret (e, w, t))))"

definition tls_ws_accept_continuation ::
  "int \<Rightarrow> nat option \<Rightarrow> bool \<Rightarrow> int calls \<Rightarrow> int \<Rightarrow> websocket \<times> tls \<Rightarrow>
    (bool \<times> websocket \<times> tls) option" where
  "tls_ws_accept_continuation fd new_ssl set_fd_ok results start_ms s =
     (case s of (w, t) \<Rightarrow>
        map_option (\<lambda>(e, t). (e, ws_accept fd w, t))
          (tls_accept_continuation fd new_ssl set_fd_ok results start_ms t))"

section \<open>The loop ends\<close>

lemma retry_ends:
  assumes "ssl_timeout < snd (snd (results n)) - start_ms" "i \<le> n"
  shows "\<exists>r. retry waits results start_ms i len err diff = Some r"
  using assms(2)
proof (induction "n - i" arbitrary: i len err diff)
  case 0
  then have n: "i = n" by simp
  obtain len' err' now where r: "results n = (len', err', now)" by (cases "results n")
  with assms(1) have late: "ssl_timeout < now - start_ms" by simp
  have "\<exists>r. retry waits results start_ms (n + 1) len' err' (now - start_ms) = Some r"
    by (subst retry.simps) (simp add: late)
  then show ?case unfolding n by (subst retry.simps) (simp add: r)
next
  case (Suc m)
  obtain len' err' now where r: "results i = (len', err', now)" by (cases "results i")
  have "\<exists>r. retry waits results start_ms (i + 1) len' err' (now - start_ms) = Some r"
    by (rule Suc.hyps) (use Suc.hyps(2) Suc.prems in auto)
  then show ?case by (subst retry.simps) (simp add: r)
qed

text \<open>An answer that comes in time, after calls that had to wait, is the result.\<close>

lemma retry_answers:
  assumes "\<And>j. i \<le> j \<Longrightarrow> j < n \<Longrightarrow> waits (fst (snd (results j)))
      \<and> snd (snd (results j)) - start_ms \<le> ssl_timeout"
    "\<not> waits (fst (snd (results n)))" "waits err" "diff \<le> ssl_timeout" "i \<le> n"
  shows "retry waits results start_ms i len err diff =
    Some (Finished (fst (results n)) (fst (snd (results n))))"
  using assms
proof (induction "n - i" arbitrary: i len err diff)
  case 0
  then have n: "i = n" by simp
  obtain len' err' now where r: "results n = (len', err', now)" by (cases "results n")
  with 0 show ?case unfolding n by (subst retry.simps, simp add: r) (subst retry.simps, simp)
next
  case (Suc m)
  obtain len' err' now where r: "results i = (len', err', now)" by (cases "results i")
  have in_time: "waits err'" "now - start_ms \<le> ssl_timeout"
    using Suc.prems(1) [of i] Suc.hyps(2) r by auto
  have "retry waits results start_ms (i + 1) len' err' (now - start_ms) =
      Some (Finished (fst (results n)) (fst (snd (results n))))"
    by (rule Suc.hyps(1)) (use Suc in_time in auto)
  with Suc.prems show ?case by (subst retry.simps) (simp add: r)
qed

lemma tls_send_returns:
  "retry wants_write results start_ms 0 0 SSL_WANT_WRITE 0 = Some w \<Longrightarrow>
    \<exists>e u. tls_send fd d results start_ms t = (if ssl_of fd t = None then fail NullDeref
      else ret (e, t\<lparr>tls_wrote := u\<rparr>))"
  by (cases w; cases "ssl_of fd t") (auto simp: tls_send_def intro: exI [of _ "tls_wrote t"])

definition one_session :: tls where
  "one_session = \<lparr>client_ssl = [(7, Some 3)], live_ssl = [3], tls_fds = [7], tls_wrote = []\<rparr>"

definition slow_peer :: "'a \<Rightarrow> 'a calls" where
  "slow_peer r i = (r, SSL_WANT_READ, 6000 * int i)"

section \<open>Sessions are neither lost nor freed twice\<close>

text \<open>Exactly the open connections have a session, each its own, and no other session is allocated.\<close>

definition sessions_ok :: "(int \<Rightarrow> nat option option) \<Rightarrow> nat list \<Rightarrow> int list \<Rightarrow> bool" where
  "sessions_ok f live fds \<longleftrightarrow> distinct live \<and> distinct fds
     \<and> (\<forall>fd. fd \<in> set fds \<longleftrightarrow> (\<exists>a. f fd = Some (Some a)))
     \<and> (\<forall>fd. f fd \<noteq> Some None)
     \<and> (\<forall>a. a \<in> set live \<longleftrightarrow> (\<exists>fd. f fd = Some (Some a)))
     \<and> (\<forall>fd fd' a. f fd = Some (Some a) \<longrightarrow> f fd' = Some (Some a) \<longrightarrow> fd' = fd)"

definition tls_inv :: "tls \<Rightarrow> bool" where
  "tls_inv t \<longleftrightarrow> sessions_ok (um_find (client_ssl t)) (live_ssl t) (tls_fds t)"

lemma um_find_upd: "um_find (um_erase k m) = (um_find m)(k := None)"
  "um_find (um_set k v m) = (um_find m)(k \<mapsto> v)"
  by (auto simp: fun_eq_iff)

lemma sessions_drop:
  assumes "sessions_ok f live fds" "f fd = Some (Some a)"
  shows "sessions_ok (f(fd := None)) (removeAll a live) (removeAll fd fds)"
proof -
  from assms(1) have d: "distinct live" "distinct fds"
    and fds: "\<And>x. x \<in> set fds \<longleftrightarrow> (\<exists>b. f x = Some (Some b))" and nn: "\<And>x. f x \<noteq> Some None"
    and live: "\<And>b. b \<in> set live \<longleftrightarrow> (\<exists>x. f x = Some (Some b))"
    and inj: "\<And>x y b. f x = Some (Some b) \<Longrightarrow> f y = Some (Some b) \<Longrightarrow> y = x"
    by (simp_all add: sessions_ok_def)
  have "b \<in> set (removeAll a live) \<longleftrightarrow> (\<exists>x. (f(fd := None)) x = Some (Some b))" for b
  proof (cases "b = a")
    case True
    with inj [OF assms(2)] show ?thesis by auto
  next
    case False
    with assms(2) have "f x = Some (Some b) \<Longrightarrow> x \<noteq> fd" for x by auto
    with False live [of b] show ?thesis by auto
  qed
  then show ?thesis
    unfolding sessions_ok_def using d fds nn inj by (auto simp: distinct_removeAll)
qed

lemma sessions_add:
  assumes "sessions_ok f live fds" "fd \<notin> set fds" "a \<notin> set live"
  shows "sessions_ok (f(fd \<mapsto> Some a)) (a # live) (fd # fds)"
  using assms by (auto simp: sessions_ok_def)

lemma sessions_absent: "sessions_ok f live fds \<Longrightarrow> fd \<notin> set fds \<Longrightarrow> f fd = None"
  unfolding sessions_ok_def by (metis not_Some_eq)

lemma tls_close_inv:
  assumes "tls_inv t" "fd \<in> set (tls_fds t)"
  shows "\<exists>t'. tls_close_client fd close_socket t = Inr t' \<and> tls_inv t'"
proof -
  from assms obtain a where a: "um_find (client_ssl t) fd = Some (Some a)" "a \<in> set (live_ssl t)"
    unfolding tls_inv_def sessions_ok_def by metis
  with sessions_drop [of "um_find (client_ssl t)" "live_ssl t" "tls_fds t" fd a] assms(1)
  show ?thesis
    by (auto simp: tls_close_client_def SSL_free_def ssl_of_def close_socket_def tls_inv_def
        um_find_upd)
qed

text \<open>A new connection has a new descriptor, and the library allocates new sessions.\<close>

datatype tls_event =
    TlsAccept int "nat option" bool "int calls" int
  | TlsClose int
  | TlsSend int string "int calls" int

fun tls_step :: "tls prog \<Rightarrow> tls_event \<Rightarrow> tls prog" where
  "tls_step s (TlsAccept fd new_ssl ok results start_ms) =
     bindP s (tls_accept fd new_ssl ok results start_ms)"
| "tls_step s (TlsClose fd) = bindP s (\<lambda>t. lift_res (tls_close_client fd close_socket t))"
| "tls_step s (TlsSend fd d results start_ms) =
     bindP s (\<lambda>t. bindP (tls_send fd d results start_ms t) (\<lambda>(e, t). ret t))"

definition in_time :: "'a calls \<Rightarrow> int \<Rightarrow> bool" where
  "in_time results start_ms \<longleftrightarrow> (\<exists>n. 10000 < snd (snd (results n)) - start_ms)"

fun tls_event_ok :: "tls \<Rightarrow> tls_event \<Rightarrow> bool" where
  "tls_event_ok t (TlsAccept fd new_ssl ok results start_ms) =
     (fd \<notin> set (tls_fds t) \<and> (\<forall>a. new_ssl = Some a \<longrightarrow> a \<notin> set (live_ssl t))
       \<and> in_time results start_ms)"
| "tls_event_ok t (TlsClose fd) = (fd \<in> set (tls_fds t))"
| "tls_event_ok t (TlsSend fd d results start_ms) =
     (fd \<in> set (tls_fds t) \<and> in_time results start_ms)"

definition tls_ok :: "tls prog \<Rightarrow> bool" where
  "tls_ok s \<longleftrightarrow> (\<exists>t. s = ret t \<and> tls_inv t)"

definition tls_admissible :: "tls prog \<Rightarrow> tls_event \<Rightarrow> bool" where
  "tls_admissible s e \<longleftrightarrow> (\<exists>t. s = ret t \<and> tls_event_ok t e)"

lemma in_time_retry:
  "in_time results start_ms \<Longrightarrow> \<exists>r. retry waits results start_ms 0 len err diff = Some r"
  using retry_ends [where results = results and start_ms = start_ms and i = 0 and waits = waits
      and len = len and err = err and diff = diff]
  unfolding in_time_def ssl_timeout_def by blast

lemma tls_accept_inv:
  assumes "tls_inv t" "fd \<notin> set (tls_fds t)" "\<And>a. new_ssl = Some a \<Longrightarrow> a \<notin> set (live_ssl t)"
    "in_time results start_ms"
  shows "\<exists>t'. tls_accept fd new_ssl ok results start_ms t = ret t' \<and> tls_inv t'"
proof -
  let ?t = "t\<lparr>tls_fds := fd # tls_fds t, client_ssl := um_set fd new_ssl (client_ssl t),
    live_ssl := (case new_ssl of None \<Rightarrow> live_ssl t | Some a \<Rightarrow> a # live_ssl t)\<rparr>"
  note inv = assms(1) [unfolded tls_inv_def]
  obtain r where r: "retry wants_any results start_ms 0 0 SSL_WANT_READ 0 = Some r"
    using in_time_retry [OF assms(4)] by blast
  show ?thesis
  proof (cases new_ssl)
    case None
    have "(um_find (client_ssl t))(fd := None) = um_find (client_ssl t)"
      using sessions_absent [OF inv assms(2)] by auto
    moreover have "removeAll fd (tls_fds t) = tls_fds t" using assms(2) by simp
    ultimately show ?thesis
      using None inv
      by (simp add: tls_accept_def tls_accept_continuation_def Let_def tls_close_client_def ssl_of_def
          SSL_free_def close_socket_def ret_def tls_inv_def um_find_upd)
  next
    case (Some a)
    have new: "tls_inv ?t"
      using sessions_add [OF inv assms(2) assms(3) [OF Some]] Some by (simp add: tls_inv_def um_find_upd)
    have "tls_accept fd new_ssl ok results start_ms t \<in>
        {ret ?t, Some (tls_close_client fd close_socket ?t)}"
      using r Some
      by (cases r) (auto simp: tls_accept_def tls_accept_continuation_def Let_def split: bool.split)
    with new tls_close_inv [OF new, of fd] show ?thesis by (auto simp: ret_def)
  qed
qed

interpretation tls_server: event_machine tls_step tls_ok tls_admissible
proof
  fix s e
  assume "tls_ok s" "tls_admissible s e"
  then obtain t where s: "s = ret t" and inv: "tls_inv t" and ok: "tls_event_ok t e"
    by (auto simp: tls_ok_def tls_admissible_def)
  show "tls_ok (tls_step s e)"
  proof (cases e)
    case (TlsAccept fd new_ssl set_ok results start_ms)
    with ok s tls_accept_inv [OF inv, of fd new_ssl results start_ms set_ok] show ?thesis
      by (auto simp: tls_ok_def)
  next
    case (TlsClose fd)
    with ok tls_close_inv [OF inv] obtain t' where
      "tls_close_client fd close_socket t = Inr t'" "tls_inv t'" by auto
    with s TlsClose show ?thesis by (simp add: tls_ok_def)
  next
    case (TlsSend fd d results start_ms)
    with ok obtain w where "retry wants_write results start_ms 0 0 SSL_WANT_WRITE 0 = Some w"
      using in_time_retry by fastforce
    note tls_send_returns [OF this, of fd d t]
    moreover have "ssl_of fd t \<noteq> None"
      using ok TlsSend inv by (auto simp: ssl_of_def tls_inv_def sessions_ok_def)
    ultimately show ?thesis using s TlsSend inv by (auto simp: tls_ok_def tls_inv_def)
  qed
qed

text \<open>
  C20. Through every sequence of connections, dropped connections and messages, a TLS server has
  exactly one session for each open connection: none is lost when a handshake fails at any of its
  steps, none is freed twice, and no message goes through a null session.
\<close>

theorem tls_sessions_are_kept:
  assumes "admissible_run tls_step tls_admissible (ret new_tls) events"
  shows "\<exists>t. run_steps tls_step (ret new_tls) events = ret t
    \<and> sessions_ok (um_find (client_ssl t)) (live_ssl t) (tls_fds t)"
proof -
  have "tls_ok (ret new_tls)" by (simp add: tls_ok_def tls_inv_def sessions_ok_def new_tls_def)
  from tls_server.run_inv [OF this assms] show ?thesis by (auto simp: tls_ok_def tls_inv_def)
qed

definition fast_peer :: "int calls" where
  "fast_peer i = (2, SSL_NONE, 20000 * int i)"

lemma fast_peer_in_time: "in_time fast_peer 0"
  unfolding in_time_def by (intro exI [of _ 1]) (simp add: fast_peer_def)

lemma slow_peer_in_time: "in_time (slow_peer r) 0"
  unfolding in_time_def by (intro exI [of _ 2]) (simp add: slow_peer_def)

text \<open>A client that says nothing is dropped, another one is served and closed.\<close>

definition tls_events :: "tls_event list" where
  "tls_events = [TlsAccept 7 (Some 3) True (slow_peer (- 1)) 0, TlsAccept 7 (Some 4) True fast_peer 0,
     TlsSend 7 ''hi'' fast_peer 0, TlsAccept 8 None True fast_peer 0, TlsClose 7]"

lemma tls_sessions_are_kept_witness:
  "\<exists>t. run_steps tls_step (ret new_tls) tls_events = ret t
    \<and> sessions_ok (um_find (client_ssl t)) (live_ssl t) (tls_fds t)"
proof (rule tls_sessions_are_kept)
  let ?t2 = "\<lparr>client_ssl = [(7, Some 4)], live_ssl = [4], tls_fds = [7], tls_wrote = []\<rparr> :: tls"
  have 1: "tls_accept 7 (Some 3) True (slow_peer (- 1)) 0 new_tls = ret new_tls" by code_simp
  have 2: "tls_accept 7 (Some 4) True fast_peer 0 new_tls = ret ?t2" by code_simp
  let ?t3 = "\<lparr>client_ssl = [(7, Some 4)], live_ssl = [4], tls_fds = [7],
    tls_wrote = [(7, ''hi'')]\<rparr> :: tls"
  have 3: "tls_send 7 ''hi'' fast_peer 0 ?t2 = ret (False, ?t3)" by code_simp
  have 4: "tls_accept 8 None True fast_peer 0 ?t3 = ret ?t3" by code_simp
  show "admissible_run tls_step tls_admissible (ret new_tls) tls_events"
    by (simp add: tls_events_def 1 2 3 4 tls_admissible_def fast_peer_in_time slow_peer_in_time)
      (simp add: new_tls_def)
qed

section \<open>What reading returns\<close>

lemma retry_result:
  assumes "retry waits results start_ms i len err diff = Some r"
  shows "\<forall>d e. r = Finished d e \<longrightarrow> \<not> waits e \<and> (d = len \<and> e = err \<or> (\<exists>j now. results j = (d, e, now)))"
proof (rule retry.raw_induct [OF _ assms])
  fix retry' :: "(ssl_error \<Rightarrow> bool) \<Rightarrow> 'a calls \<Rightarrow> int \<Rightarrow> nat \<Rightarrow> 'a \<Rightarrow> ssl_error \<Rightarrow> int \<Rightarrow> 'a waited option"
    and waits results start_ms i len err diff r
  assume IH: "\<And>waits results start_ms i len err diff r.
      retry' waits results start_ms i len err diff = Some r \<Longrightarrow>
      \<forall>d e. r = Finished d e \<longrightarrow> \<not> waits e \<and> (d = len \<and> e = err \<or> (\<exists>j now. results j = (d, e, now)))"
    and r: "(if \<not> waits err then Some (Finished len err)
      else if ssl_timeout < diff then Some Timed_out
      else case results i of (len, err, now) \<Rightarrow>
        retry' waits results start_ms (i + 1) len err (now - start_ms)) = Some r"
  obtain len' err' now where i: "results i = (len', err', now)" by (cases "results i")
  show "\<forall>d e. r = Finished d e \<longrightarrow> \<not> waits e \<and> (d = len \<and> e = err \<or> (\<exists>j now. results j = (d, e, now)))"
  proof (cases "\<not> waits err \<or> ssl_timeout < diff")
    case True
    with r show ?thesis by (auto split: if_splits)
  next
    case False
    with r i have "retry' waits results start_ms (i + 1) len' err' (now - start_ms) = Some r" by simp
    from IH [OF this] i show ?thesis by blast
  qed
qed

text \<open>As many bytes as were asked for at most, as the library documents.\<close>

definition reads_at_most :: "(nat \<Rightarrow> string calls) \<Rightarrow> bool" where
  "reads_at_most reads \<longleftrightarrow> (\<forall>n i. length (fst (reads n i)) \<le> n)"

lemma tls_read_cases:
  assumes "ssl_of fd t \<noteq> None" "reads_at_most reads"
    and r: "retry wants_read (reads (nat PACKET_LIMIT)) start_ms 0 [] SSL_WANT_READ 0 = Some r"
  obtains (timeout) "r = Timed_out" "tls_read_packet callback fd reads start_ms t = ret 1"
    | (data) d where "r = Finished d SSL_NONE" "length d \<le> nat PACKET_LIMIT"
        "\<exists>j now. reads (nat PACKET_LIMIT) j = (d, SSL_NONE, now)"
        "tls_read_packet callback fd reads start_ms t =
          ret (if callback fd d < 0 then - 1 else int (length d))"
    | (error) n where "tls_read_packet callback fd reads start_ms t = ret n" "n < 0" "- 3 \<le> n"
proof (cases r)
  case Timed_out
  with assms show thesis by (auto intro!: timeout simp: tls_read_packet_def tls_recv_def)
next
  case (Finished d e)
  show thesis
  proof (cases "e = SSL_NONE")
    case True
    from retry_result [OF r] Finished True obtain j now where
      j: "reads (nat PACKET_LIMIT) j = (d, SSL_NONE, now)" by auto
    with assms(2) have len: "length d \<le> nat PACKET_LIMIT"
      unfolding reads_at_most_def by (metis fst_conv)
    with assms r Finished True j show thesis
      by (intro data [of d]) (auto simp: tls_read_packet_def tls_recv_def packet_room_def)
  next
    case False
    have "\<exists>n. tls_read_packet callback fd reads start_ms t = ret n \<and> n < 0 \<and> - 3 \<le> n"
      using assms r Finished False
      by (cases e) (auto simp: tls_read_packet_def tls_recv_def)
    with error show thesis by blast
  qed
qed

text \<open>
  C23. No peer holds a thread of a TLS server forever.  Suppose that every open connection has its
  session, that a new connection comes with a descriptor and a session that are not in use, that the
  library reads at most as many bytes as it is asked for, and that the clock is at some call of the
  library more than ten seconds past the start of the operation.  Then the handshake of the new
  connection, the sending of any text and the reading of a packet into the array of \<open>run_thread\<close> all
  return without a fault, whatever the library answered until then: the first two with the sessions
  in order, the reading with a number between -3 and the size of a packet.
\<close>

theorem tls_calls_return:
  assumes "tls_inv t" "fd \<in> set (tls_fds t)"
    "new_fd \<notin> set (tls_fds t)" "\<And>a. new_ssl = Some a \<Longrightarrow> a \<notin> set (live_ssl t)"
    "in_time handshakes start_ms" "in_time sends start_ms" "in_time (reads (nat PACKET_LIMIT)) start_ms"
    "reads_at_most reads"
  shows "(\<exists>t'. tls_accept new_fd new_ssl set_fd_ok handshakes start_ms t = ret t' \<and> tls_inv t')
    \<and> (\<exists>failed t'. tls_send fd d sends start_ms t = ret (failed, t') \<and> tls_inv t')
    \<and> (\<exists>n. tls_read_packet callback fd reads start_ms t = ret n \<and> - 3 \<le> n \<and> n \<le> PACKET_LIMIT)"
proof (intro conjI)
  show "\<exists>t'. tls_accept new_fd new_ssl set_fd_ok handshakes start_ms t = ret t' \<and> tls_inv t'"
    by (rule tls_accept_inv) (use assms in auto)
  have session: "ssl_of fd t \<noteq> None"
    using assms(1,2) by (auto simp: ssl_of_def tls_inv_def sessions_ok_def)
  obtain w where "retry wants_write sends start_ms 0 0 SSL_WANT_WRITE 0 = Some w"
    using in_time_retry [OF assms(6)] by blast
  from tls_send_returns [OF this, of fd d t] session assms(1)
  show "\<exists>failed t'. tls_send fd d sends start_ms t = ret (failed, t') \<and> tls_inv t'"
    by (auto simp: tls_inv_def)
  obtain r where "retry wants_read (reads (nat PACKET_LIMIT)) start_ms 0 [] SSL_WANT_READ 0 = Some r"
    using in_time_retry [OF assms(7)] by blast
  from session assms(8) this
  show "\<exists>n. tls_read_packet callback fd reads start_ms t = ret n \<and> - 3 \<le> n \<and> n \<le> PACKET_LIMIT"
    by (cases rule: tls_read_cases [where callback = callback]) (auto simp: PACKET_LIMIT_def)
qed

definition slow_reads :: "nat \<Rightarrow> string calls" where
  "slow_reads n i = (take n ''hello'', SSL_WANT_READ, 6000 * int i)"

lemma tls_calls_return_witness:
  "(\<exists>t'. tls_accept 8 (Some 4) True (slow_peer (- 1)) 0 one_session = ret t' \<and> tls_inv t')
    \<and> (\<exists>failed t'. tls_send 7 ''hi'' fast_peer 0 one_session = ret (failed, t') \<and> tls_inv t')
    \<and> (\<exists>n. tls_read_packet (\<lambda>_ _. 1) 7 slow_reads 0 one_session = ret n \<and> - 3 \<le> n
      \<and> n \<le> PACKET_LIMIT)"
proof (rule tls_calls_return)
  show "tls_inv one_session" 
    by (auto simp: tls_inv_def sessions_ok_def one_session_def um_find_Cons split: if_splits)
  show "in_time (slow_reads (nat PACKET_LIMIT)) 0"
    unfolding in_time_def by (intro exI [of _ 2]) (simp add: slow_reads_def)
  show "reads_at_most slow_reads" by (simp add: reads_at_most_def slow_reads_def)
qed (auto simp: one_session_def slow_peer_in_time fast_peer_in_time)

text \<open>
  A connection over TLS is left unarmed by what its peer sends, not by what the handler answers: when
  the reading ends with bytes that the handler does not refuse, exactly a whole packet silences the
  connection.  So a peer that sends 16384 bytes at once is never read again, although the handler
  accepted them.
\<close>

theorem whole_packet_silences:
  assumes "ssl_of fd t \<noteq> None" "reads_at_most reads"
    "retry wants_read (reads (nat PACKET_LIMIT)) start_ms 0 [] SSL_WANT_READ 0 =
      Some (Finished d SSL_NONE)" "d \<noteq> []"
    "0 \<le> callback fd d"
  shows "\<exists>n. tls_read_packet callback fd reads start_ms t = ret n
    \<and> (silences n \<longleftrightarrow> length d = nat PACKET_LIMIT)"
proof -
  have P: "0 < PACKET_LIMIT" by (simp add: PACKET_LIMIT_def)
  have "length d \<le> nat PACKET_LIMIT \<and> tls_read_packet callback fd reads start_ms t = ret (int (length d))"
    using assms(5) by (cases rule: tls_read_cases [OF assms(1-3), where callback = callback])
      (use assms(3) in \<open>auto simp: tls_read_packet_def tls_recv_def split: option.splits if_splits\<close>)
  with assms(4) P show ?thesis by (auto simp: silences_def)
qed

lemma whole_packet_silences_witness:
  "\<exists>n. tls_read_packet (\<lambda>_ _. 0) 7 (\<lambda>n i. (replicate n (CHR ''a''), SSL_NONE, 1)) 0 one_session = ret n
    \<and> (silences n \<longleftrightarrow> length (replicate (nat PACKET_LIMIT) (CHR ''a'')) = nat PACKET_LIMIT)"
proof (rule whole_packet_silences)
  let ?d = "replicate (nat PACKET_LIMIT) (CHR ''a'')"
  show "ssl_of 7 one_session \<noteq> None" by (simp add: ssl_of_def one_session_def um_find_Cons)
  show "reads_at_most (\<lambda>n i. (replicate n (CHR ''a''), SSL_NONE, 1))" by (simp add: reads_at_most_def)
  show "retry wants_read (\<lambda>i. (?d, SSL_NONE, 1)) 0 0 [] SSL_WANT_READ 0 = Some (Finished ?d SSL_NONE)"
    by (subst retry.simps, simp add: wants_read_def ssl_timeout_def)
      (subst retry.simps, simp add: wants_read_def)
  show "?d \<noteq> []" by (simp add: PACKET_LIMIT_def)
qed simp

end
