(* ===== verification/TlsClient.thy ===== *)
theory TlsClient
  imports Util Tls
begin

text \<open>
  \<open>cpp-source/tls-client-manager.cpp\<close>: one request over TLS, and the answer's body.  What the
  system and the TLS library return is given; the array for the answer has \<open>PACKET_LIMIT\<close> bytes,
  as it has in every caller.
\<close>

section \<open>Reading the answer\<close>

text \<open>A reading that succeeds returns at least one byte; the other number is not positive.\<close>

datatype ssl_got = Got string | Got_nothing int ssl_error

text \<open>
  \<open>r\<close> is what the array holds, \<open>None\<close> before anything was written into it.  With no further
  result the library does not return.  Every result that is no data ends the loop.
\<close>

fun read_loop :: "(ssl_got \<times> int) list \<Rightarrow> int \<Rightarrow> int \<Rightarrow> string option \<Rightarrow> string option prog" where
  "read_loop [] start_ms diff r = (if ssl_timeout < diff then ret r else None)"
| "read_loop ((got, now) # gs) start_ms diff r =
     (if ssl_timeout < diff then ret r
      else case got of
        Got d \<Rightarrow>
          (let c = (case r of None \<Rightarrow> d | Some s \<Rightarrow> s @ d) in
           if PACKET_LIMIT \<le> int (length d) \<or> PACKET_LIMIT \<le> int (length c) then fail OutOfBounds
           else read_loop gs start_ms (now - start_ms) (Some c))
      | Got_nothing len err \<Rightarrow> ret r)"

record https =
  sock :: "int option"
  host_found :: bool
  pton_ok :: bool
  connect_ok :: bool
  ssl_new_ok :: bool
  ssl_connect :: int
  ssl_write :: int
  started :: int
  ssl_reads :: "(ssl_got \<times> int) list"

text \<open>\<open>communicate\<close>: whether it failed, what is in the array, and the descriptors that are open.\<close>

definition tls_communicate ::
  "https \<Rightarrow> int list \<Rightarrow> (bool \<times> string option) prog \<times> int list" where
  "tls_communicate os fds =
     (case sock os of
        None \<Rightarrow> (ret (True, None), fds)
      | Some fd \<Rightarrow>
          ((if \<not> host_found os \<or> \<not> pton_ok os \<or> \<not> connect_ok os \<or> \<not> ssl_new_ok os
              \<or> ssl_connect os < 0 \<or> ssl_write os < 0 then ret (True, None)
            else bindP (read_loop (ssl_reads os) (started os) 0 None) (\<lambda>r. ret (False, r))),
           fd # fds))"

section \<open>Requests\<close>

definition CRLF :: string where "CRLF = [CR, LF]"

definition blank_line :: string where "blank_line = [CR, LF, CR, LF]"

definition get_request :: "string \<Rightarrow> string \<Rightarrow> string" where
  "get_request hostname path =
     ''GET '' @ path @ '' HTTP/1.1'' @ CRLF @ ''Host: '' @ hostname @ CRLF
     @ ''Connection: close'' @ CRLF @ ''User-Agent: libjaypea'' @ CRLF
     @ ''Accept: */*'' @ blank_line"

definition post_headers :: "(string, string) umap \<Rightarrow> string" where
  "post_headers headers = concat (map (\<lambda>(k, v). k @ '': '' @ v @ [LF]) headers)"

definition post_request ::
  "string \<Rightarrow> string \<Rightarrow> (string, string) umap \<Rightarrow> string \<Rightarrow> string prog" where
  "post_request hostname path headers body0 =
     bindP (replace_all body0 CRLF ''<br>'') (\<lambda>body1.
       ret (''POST '' @ path @ '' HTTP/1.1'' @ CRLF @ ''Host: '' @ hostname @ CRLF
         @ ''Connection: close'' @ CRLF @ ''User-Agent: libjaypea'' @ CRLF
         @ ''Accept: */*'' @ CRLF @ post_headers headers
         @ ''Content-Length: '' @ to_string (length body1) @ blank_line @ body1))"

text \<open>\<open>std::string(response)\<close> of an array that nothing was written into.\<close>

definition body_of :: "string option \<Rightarrow> string res" where
  "body_of r =
     (case r of None \<Rightarrow> Inl Uninitialised
      | Some d \<Rightarrow>
          (let s = c_str d in
           case find_sub blank_line s of None \<Rightarrow> Inr s | Some i \<Rightarrow> Inr (drop (i + 4) s)))"

definition get_body :: "https \<Rightarrow> string \<Rightarrow> string prog" where
  "get_body os hostname =
     bindP (fst (tls_communicate os [])) (\<lambda>(failed, r).
       if failed then ret (''{'' @ [DQ] @ ''error'' @ [DQ] @ '':'' @ [DQ]
         @ ''Failed to communicate to host '' @ hostname @ ''.'' @ [DQ] @ ''}'')
       else lift_res (body_of r))"

text \<open>\<open>get\<close>: the name, the path and the answer.  Without a slash \<open>substr\<close> starts past the end.\<close>

definition get_url :: "string \<Rightarrow> (string \<times> string) res" where
  "get_url url =
     (if startsWith url ''http://'' then Inl ThrownPointer
      else
        (let url = (if startsWith url ''https://'' then drop 8 url else url) in
         case find_sub ''/'' url of
           None \<Rightarrow> Inl OutOfRange
         | Some slash \<Rightarrow> Inr (take slash url, drop slash url)))"

definition https_get :: "https \<Rightarrow> string \<Rightarrow> string prog" where
  "https_get os url = bindP (lift_res (get_url url)) (\<lambda>(hostname, path). get_body os hostname)"

section \<open>What arrives\<close>

definition on_time :: "(ssl_got \<times> int) list \<Rightarrow> int \<Rightarrow> bool" where
  "on_time gs start_ms \<longleftrightarrow> list_all (\<lambda>(g, now). now - start_ms \<le> ssl_timeout) gs"

definition pieces_of :: "string list \<Rightarrow> int list \<Rightarrow> (ssl_got \<times> int) list" where
  "pieces_of ds nows = zip (map Got ds) nows"

definition reached :: "https \<Rightarrow> bool" where
  "reached os \<longleftrightarrow> sock os \<noteq> None \<and> host_found os \<and> pton_ok os \<and> connect_ok os \<and> ssl_new_ok os
     \<and> 0 \<le> ssl_connect os \<and> 0 \<le> ssl_write os"

lemma read_loop_data:
  assumes "length nows = length ds" "on_time (pieces_of ds nows) start_ms" "diff \<le> ssl_timeout"
    "int (length (s @ concat ds)) < PACKET_LIMIT"
  shows "\<exists>diff'. diff' \<le> ssl_timeout \<and>
    read_loop (pieces_of ds nows @ gs) start_ms diff (Some s) =
      read_loop gs start_ms diff' (Some (s @ concat ds))"
  using assms
proof (induction ds arbitrary: nows diff s)
  case Nil
  then show ?case by (intro exI [of _ diff]) (simp add: pieces_of_def)
next
  case (Cons d ds)
  then obtain now nows' where nows: "nows = now # nows'" by (cases nows) auto
  have p: "pieces_of (d # ds) nows = (Got d, now) # pieces_of ds nows'"
    by (simp add: pieces_of_def nows)
  have "now - start_ms \<le> ssl_timeout" "on_time (pieces_of ds nows') start_ms"
    using Cons.prems(2) by (simp_all add: p on_time_def)
  moreover have "int (length ((s @ d) @ concat ds)) < PACKET_LIMIT" using Cons.prems(4) by simp
  ultimately obtain diff' where "diff' \<le> ssl_timeout"
    "read_loop (pieces_of ds nows' @ gs) start_ms (now - start_ms) (Some (s @ d)) =
      read_loop gs start_ms diff' (Some ((s @ d) @ concat ds))"
    using Cons.IH [of nows' "now - start_ms" "s @ d"] Cons.prems(1) nows by auto
  with Cons.prems(3,4) show ?case
    by (intro exI [of _ diff']) (auto simp: p Let_def)
qed

lemma read_loop_overrun:
  assumes "length nows = length ds" "on_time (pieces_of ds nows) start_ms" "diff \<le> ssl_timeout"
    "PACKET_LIMIT \<le> int (length (s @ concat ds))" "int (length s) < PACKET_LIMIT"
  shows "read_loop (pieces_of ds nows @ gs) start_ms diff (Some s) = fail OutOfBounds"
  using assms
proof (induction ds arbitrary: nows diff s)
  case (Cons d ds)
  then obtain now nows' where nows: "nows = now # nows'" by (cases nows) auto
  have p: "pieces_of (d # ds) nows = (Got d, now) # pieces_of ds nows'"
    by (simp add: pieces_of_def nows)
  show ?case
  proof (cases "PACKET_LIMIT \<le> int (length (s @ d))")
    case True
    with Cons.prems(3) show ?thesis by (simp add: p Let_def)
  next
    case False
    have "now - start_ms \<le> ssl_timeout" "on_time (pieces_of ds nows') start_ms"
      using Cons.prems(2) by (simp_all add: p on_time_def)
    then have "read_loop (pieces_of ds nows' @ gs) start_ms (now - start_ms) (Some (s @ d)) = fail OutOfBounds"
      using Cons.IH [of nows' "now - start_ms" "s @ d"] Cons.prems nows False by simp
    with Cons.prems(3) False show ?thesis by (auto simp: p Let_def)
  qed
qed simp

text \<open>The first piece finds the array untouched.\<close>

lemma read_loop_first:
  assumes "on_time (pieces_of (d # ds) nows) start_ms" "length nows = Suc (length ds)"
  shows "read_loop (pieces_of (d # ds) nows @ gs) start_ms 0 None =
    read_loop (pieces_of (d # ds) nows @ gs) start_ms 0 (Some [])"
  using assms by (cases nows) (simp_all add: pieces_of_def ssl_timeout_def)

lemma pieces_read:
  assumes "ds \<noteq> []" "length nows = length ds" "on_time (pieces_of ds nows) start_ms"
  shows "int (length (concat ds)) < PACKET_LIMIT \<Longrightarrow> \<exists>diff'. diff' \<le> ssl_timeout \<and>
      read_loop (pieces_of ds nows @ gs) start_ms 0 None = read_loop gs start_ms diff' (Some (concat ds))"
    and "PACKET_LIMIT \<le> int (length (concat ds)) \<Longrightarrow>
      read_loop (pieces_of ds nows @ gs) start_ms 0 None = fail OutOfBounds"
proof -
  obtain d ds' where ds: "ds = d # ds'" using assms(1) by (cases ds) auto
  have t: "0 \<le> ssl_timeout" by (simp add: ssl_timeout_def)
  have f: "read_loop (pieces_of ds nows @ gs) start_ms 0 None =
      read_loop (pieces_of ds nows @ gs) start_ms 0 (Some [])"
    unfolding ds by (rule read_loop_first) (use assms ds in simp_all)
  show "\<exists>diff'. diff' \<le> ssl_timeout \<and>
      read_loop (pieces_of ds nows @ gs) start_ms 0 None = read_loop gs start_ms diff' (Some (concat ds))"
    if "int (length (concat ds)) < PACKET_LIMIT"
    using read_loop_data [OF assms(2,3) t, of "[]" gs] that f by simp
  show "read_loop (pieces_of ds nows @ gs) start_ms 0 None = fail OutOfBounds"
    if "PACKET_LIMIT \<le> int (length (concat ds))"
    using read_loop_overrun [OF assms(2,3) t, of "[]" gs] that f by (simp add: PACKET_LIMIT_def)
qed

text \<open>
  C22. The body of an answer is read whole: in whatever pieces it arrives within ten seconds, when
  it fits the array and has no null character, the result is what follows the first empty line.
\<close>

theorem body_is_read:
  assumes "reached os" "ds \<noteq> []" "length nows = length ds"
    "ssl_reads os = pieces_of ds nows @ (Got_nothing len err, late) # gs"
    "on_time (pieces_of ds nows) (started os)"
    "concat ds = head @ blank_line @ contents" "NUL \<notin> set (concat ds)"
    "find_sub blank_line (concat ds) = Some (length head)" "int (length (concat ds)) < PACKET_LIMIT"
  shows "get_body os hostname = ret contents"
proof -
  from pieces_read(1) [OF assms(2,3,5,9)] obtain diff where "diff \<le> ssl_timeout"
    "read_loop (ssl_reads os) (started os) 0 None =
      read_loop ((Got_nothing len err, late) # gs) (started os) diff (Some (concat ds))"
    unfolding assms(4) by blast
  then have "read_loop (ssl_reads os) (started os) 0 None = ret (Some (concat ds))" by simp
  moreover have "body_of (Some (concat ds)) = Inr contents"
    using assms(6-8) by (simp add: body_of_def c_str_id blank_line_def)
  ultimately show ?thesis
    using assms(1) by (auto simp: get_body_def tls_communicate_def reached_def)
qed

text \<open>
  A longer answer is written past the end of the array: when the pieces that arrive in time
  have \<open>PACKET_LIMIT\<close> bytes or more, the bytes or their terminator leave it, whoever asked.
\<close>

theorem long_answer_overruns:
  assumes "reached os" "ds \<noteq> []" "length nows = length ds" "ssl_reads os = pieces_of ds nows @ gs"
    "on_time (pieces_of ds nows) (started os)" "PACKET_LIMIT \<le> int (length (concat ds))"
  shows "fst (tls_communicate os fds) = fail OutOfBounds"
  using pieces_read(2) [OF assms(2,3,5,6), of gs] assms(1,4)
  by (auto simp: tls_communicate_def reached_def)

definition an_answer :: "(ssl_got \<times> int) list \<Rightarrow> https" where
  "an_answer gs = \<lparr>sock = Some 5, host_found = True, pton_ok = True, connect_ok = True,
     ssl_new_ok = True, ssl_connect = 1, ssl_write = 9, started = 100, ssl_reads = gs\<rparr>"

lemma body_is_read_witness:
  "get_body (an_answer (pieces_of [''HTTP/1.1 200 OK'' @ [CR, LF, CR], [LF] @ ''he'', ''llo''] [200, 300, 400]
     @ [(Got_nothing 0 SSL_ZERO_RETURN, 500)])) ''h'' = ret ''hello''"
  by (rule body_is_read [where head = "''HTTP/1.1 200 OK''" and gs = "[]" and nows = "[200, 300, 400]"
        and ds = "[''HTTP/1.1 200 OK'' @ [CR, LF, CR], [LF] @ ''he'', ''llo'']"])
    (simp_all add: reached_def an_answer_def on_time_def pieces_of_def ssl_timeout_def blank_line_def
      starts_with_def PACKET_LIMIT_def)

lemma long_answer_overruns_witness:
  "fst (tls_communicate (an_answer (pieces_of [replicate 10000 (CHR ''a''), replicate 6384 (CHR ''b'')]
     [200, 300] @ [])) []) = fail OutOfBounds"
  by (rule long_answer_overruns [where ds = "[replicate 10000 (CHR ''a''), replicate 6384 (CHR ''b'')]"
        and nows = "[200, 300]" and gs = "[]"])
    (simp_all add: reached_def an_answer_def on_time_def pieces_of_def ssl_timeout_def PACKET_LIMIT_def)

text \<open>Every call that gets a socket leaves it open, whether it fails or not.\<close>

lemma socket_is_leaked: "sock os = Some fd \<Longrightarrow> snd (tls_communicate os fds) = fd # fds"
  by (simp add: tls_communicate_def)

text \<open>A server that closes at once leaves the array unwritten, which is then read.\<close>

lemma silent_server_is_read:
  assumes "reached os" "ssl_reads os = (Got_nothing len err, now) # gs"
  shows "get_body os hostname = fail Uninitialised"
  using assms by (auto simp: get_body_def tls_communicate_def reached_def body_of_def ssl_timeout_def)

lemma url_without_path: "CHR ''/'' \<notin> set url \<Longrightarrow> get_url url = Inl OutOfRange"
proof -
  assume a: "CHR ''/'' \<notin> set url"
  have n: "find_sub ''/'' s = None" if "CHR ''/'' \<notin> set s" for s
    using that by (induction s) (auto simp: starts_with_def)
  have "\<not> startsWith url p" if "CHR ''/'' \<in> set p" for p
    using a that in_set_takeD [of "CHR ''/''" "length p" url] by (auto simp: startsWith_def)
  from this [of "''http://''"] this [of "''https://''"] n [OF a] show ?thesis
    by (simp add: get_url_def)
qed

end
