(* ===== verification/Distributed.thy ===== *)
theory Distributed
  imports JsonRoundtrip Symmetric Rearm
begin

text \<open>
  The request client over the sealed channel (\<open>cpp-source/symmetric-tcp-client.cpp\<close>) and the node
  that compares its data with others through it (\<open>cpp-source/distributed-node.cpp\<close>).
\<close>

section \<open>The client\<close>

record sym_client =
  sc_connected :: bool
  sc_writes :: nat
  sc_reads :: nat

definition new_sym_client :: "bool \<Rightarrow> sym_client" where
  "new_sym_client linked = \<lparr>sc_connected = linked, sc_writes = 0, sc_reads = 0\<rparr>"

definition sc_close :: "sym_client \<Rightarrow> sym_client" where
  "sc_close c = c\<lparr>sc_connected := False, sc_writes := 0, sc_reads := 0\<rparr>"

text \<open>What one attempt meets: \<open>reconnect\<close>, the two writes, and the results of the readings.\<close>

record attempt =
  reconnects :: bool
  written1 :: int
  written2 :: int
  answers_read :: "(enc_read \<times> enc_read list) list"

text \<open>
  The loop of readings: it goes on while a reading returns zero.  The callback keeps the message up
  to its first NUL and returns its length, so that an empty message does not end the loop.
\<close>

fun sc_receive ::
  "crypto \<Rightarrow> (enc_read \<times> enc_read list) list \<Rightarrow> nat \<Rightarrow> string \<Rightarrow> (int \<times> nat \<times> string) option" where
  "sc_receive cr [] n response = None"
| "sc_receive cr ((r, rs) # later) n response =
     (case enc_recv cr (nat 16384) (\<lambda>s. int (length s)) r rs n of
        None \<Rightarrow> None
      | Some (k, n, m) \<Rightarrow>
          (let response = (case m of None \<Rightarrow> response | Some s \<Rightarrow> c_str s) in
           if k = 0 then sc_receive cr later n response else Some (k, n, response)))"

partial_function (option) sc_communicate ::
  "crypto \<Rightarrow> (nat \<Rightarrow> attempt) \<Rightarrow> nat \<Rightarrow> string \<Rightarrow> sym_client \<Rightarrow> (string \<times> sym_client) prog" where
  "sc_communicate cr attempts i request c =
     (if \<not> sc_connected c \<and> \<not> reconnects (attempts i) then ret ([], c)
      else case enc_send cr request (written1 (attempts i)) (written2 (attempts i)) (sc_writes c) of
          Inl e \<Rightarrow> fail e
        | Inr (failed, n, blocks) \<Rightarrow>
            if failed then sc_communicate cr attempts (i + 1) request (sc_close c)
            else (case sc_receive cr (answers_read (attempts i)) (sc_reads c) [] of
                None \<Rightarrow> None
              | Some (k, m, response) \<Rightarrow>
                  if k < 0 then ret (response, sc_close c)
                  else ret (response, \<lparr>sc_connected = True, sc_writes = n, sc_reads = m\<rparr>)))"

section \<open>The node\<close>

record node =
  status :: JsonObject
  ddata :: JsonObject
  clients :: "(string, sym_client) umap"

definition new_node :: node where
  "new_node = \<lparr>status = new_typed OBJECT, ddata = new_typed OBJECT, clients = []\<rparr>"

text \<open>The constructor looks for a port from 30000 on: in use, another error, or bound.\<close>

datatype bound = Port_bound | Port_in_use | Port_error

partial_function (option) find_port :: "(nat \<Rightarrow> bound) \<Rightarrow> nat \<Rightarrow> 16 word \<Rightarrow> 16 word prog" where
  "find_port binds i port =
     (case binds i of
        Port_bound \<Rightarrow> ret port
      | Port_error \<Rightarrow> fail (RuntimeError ''SymmetricEpollServer bind'')
      | Port_in_use \<Rightarrow> find_port binds (i + 1) (port + 1))"

text \<open>\<open>send\<close> of a string returns its length, or -1; either counts as an error here.\<close>

definition node_answer :: "node \<Rightarrow> JsonObject \<Rightarrow> JsonObject res" where
  "node_answer s request =
     (if HasObj request ''hash'' STRING then
        bindR (GetStr request ''hash'') (\<lambda>given.
        bindR (GetStr (status s) ''hash'') (\<lambda>mine.
          Inr (set_objectValue ''status''
            (new_string (if given = mine then ''Up to date.'' else ''Out of date.'')) (new_typed OBJECT))))
      else bindR (GetStr (status s) ''hash'') (\<lambda>mine.
          Inr (set_objectValue ''hash'' (new_string mine) (new_typed OBJECT))))"

definition node_on_read :: "bool \<Rightarrow> string \<Rightarrow> node \<Rightarrow> (string \<times> int) prog" where
  "node_on_read send_ok packet s =
     bindP (parse_into new_empty (c_str packet)) (\<lambda>request.
     bindP (lift_res (node_answer s request)) (\<lambda>response.
       let answer = stringify False 0 response;
           sent_len = (if send_ok then int (length answer) else - 1)
       in ret (answer, if sent_len \<noteq> 0 then - 1 else int (length packet))))"

definition add_client :: "string \<Rightarrow> nat \<Rightarrow> bool \<Rightarrow> node \<Rightarrow> node" where
  "add_client ip_address port linked s =
     s\<lparr>clients := um_set (ip_address @ '':'' @ to_string port) (new_sym_client linked) (clients s)\<rparr>"

definition set_ddata :: "(string \<Rightarrow> string) \<Rightarrow> string \<Rightarrow> node \<Rightarrow> node prog" where
  "set_ddata sha packet s =
     bindP (parse_into (JsonObject (jtype (ddata s)) (stringValue (ddata s)) [] (arrayValues (ddata s)))
         (c_str packet)) (\<lambda>d.
       ret (s\<lparr>ddata := d,
         status := set_objectValue ''hash'' (new_string (sha (stringify False 0 d))) (status s)\<rparr>))"

text \<open>One pass of \<open>start\<close> over the clients: each is sent the status.\<close>

fun poll_clients ::
  "crypto \<Rightarrow> (string \<Rightarrow> nat \<Rightarrow> attempt) \<Rightarrow> string \<Rightarrow> (string, sym_client) umap \<Rightarrow>
    ((string \<times> string) list \<times> (string, sym_client) umap) prog" where
  "poll_clients cr attempts text_sent [] = ret ([], [])"
| "poll_clients cr attempts text_sent ((name, c) # cs) =
     bindP (sc_communicate cr (attempts name) 0 text_sent c) (\<lambda>(response, c).
     bindP (poll_clients cr attempts text_sent cs) (\<lambda>(responses, cs).
       ret ((name, response) # responses, (name, c) # cs)))"

definition node_pass ::
  "crypto \<Rightarrow> (string \<Rightarrow> nat \<Rightarrow> attempt) \<Rightarrow> node \<Rightarrow> ((string \<times> string) list \<times> node) prog" where
  "node_pass cr attempts s =
     bindP (poll_clients cr attempts (stringify False 0 (status s)) (clients s)) (\<lambda>(responses, cs).
       ret (responses, s\<lparr>clients := cs\<rparr>))"

declare find_port.simps [code] sc_communicate.simps [code]

section \<open>The states of a node\<close>

inductive node_reachable :: "crypto \<Rightarrow> (string \<Rightarrow> string) \<Rightarrow> node \<Rightarrow> bool" for cr sha where
  started: "node_reachable cr sha new_node"
| given: "node_reachable cr sha s \<Longrightarrow> set_ddata sha packet s = ret s' \<Longrightarrow> node_reachable cr sha s'"
| joined: "node_reachable cr sha s \<Longrightarrow> node_reachable cr sha (add_client ip_address port linked s)"
| polled: "node_reachable cr sha s \<Longrightarrow> node_pass cr attempts s = ret (rs, s') \<Longrightarrow>
    node_reachable cr sha s'"

definition hash_status :: "string \<Rightarrow> JsonObject" where
  "hash_status h = JsonObject OBJECT [] [(''hash'', new_string h)] []"

definition status_of_data :: "(string \<Rightarrow> string) \<Rightarrow> node \<Rightarrow> bool" where
  "status_of_data sha s \<longleftrightarrow>
     ddata s = new_typed OBJECT \<and> status s = new_typed OBJECT
     \<or> status s = hash_status (sha (stringify False 0 (ddata s)))"

definition has_data :: "node \<Rightarrow> bool" where
  "has_data s = um_count (objectValues (status s)) ''hash''"

lemma status_of_data_cases:
  "status_of_data sha s \<Longrightarrow>
    \<not> has_data s \<and> status s = new_typed OBJECT
    \<or> has_data s \<and> status s = hash_status (sha (stringify False 0 (ddata s)))"
  by (auto simp: status_of_data_def has_data_def hash_status_def new_typed_def um_count_find
      um_find_Cons split: if_splits)

lemma set_hash:
  "status_of_data sha s \<Longrightarrow> set_objectValue ''hash'' (new_string h) (status s) = hash_status h"
  by (drule status_of_data_cases) (auto simp: hash_status_def new_typed_def um_set_def)

lemma reachable_status: "node_reachable cr sha s \<Longrightarrow> status_of_data sha s"
proof (induction rule: node_reachable.induct)
  case started
  show ?case by (simp add: status_of_data_def new_node_def)
next
  case (given s packet s')
  then show ?case
    by (auto simp: set_ddata_def bindP_eq_ret set_hash) (simp add: status_of_data_def)
next
  case (joined s ip_address port linked)
  then show ?case by (simp add: status_of_data_def add_client_def)
next
  case (polled s attempts rs s')
  then show ?case by (auto simp: node_pass_def bindP_eq_ret status_of_data_def)
qed

section \<open>What a node answers\<close>

definition node_reply :: "string \<Rightarrow> JsonObject \<Rightarrow> JsonObject" where
  "node_reply mine theirs =
     (case um_find (objectValues theirs) ''hash'' of
        None \<Rightarrow> hash_status mine
      | Some h \<Rightarrow> JsonObject OBJECT []
          [(''status'', new_string (if stringValue h = mine then ''Up to date.'' else ''Out of date.''))] [])"

definition readable :: "JsonObject \<Rightarrow> bool" where
  "readable theirs \<longleftrightarrow> canonical theirs
     \<and> (um_count (objectValues theirs) ''hash'' \<longrightarrow> HasObj theirs ''hash'' STRING)"

lemma node_answer_reply:
  assumes "status s = hash_status mine" and "readable theirs"
  shows "node_answer s theirs = Inr (node_reply mine theirs)"
proof (cases "um_find (objectValues theirs) ''hash''")
  case None
  with assms(1) show ?thesis
    by (simp add: node_answer_def HasObj_def GetStr_def node_reply_def hash_status_def
        new_typed_def new_string_def um_find_Cons)
next
  case (Some h)
  with assms show ?thesis
    by (simp add: node_answer_def HasObj_def GetStr_def node_reply_def hash_status_def
        new_typed_def new_string_def um_find_Cons readable_def um_count_find)
qed

lemma object_text: "jtype v = OBJECT \<Longrightarrow> stringify False depth v \<noteq> []"
  by (cases v) simp

lemma node_answer_object: "node_answer s theirs = Inr r \<Longrightarrow> jtype r = OBJECT"
  by (auto simp: node_answer_def bindR_eq_Inr new_typed_def split: if_splits)

lemma node_on_read_reply:
  assumes "status s = hash_status mine" and "readable theirs"
  shows "node_on_read send_ok (stringify pretty 0 theirs) s =
    ret (stringify False 0 (node_reply mine theirs), - 1)"
proof -
  from assms(2) have c: "canonical theirs" by (simp add: readable_def)
  then have "NUL \<notin> set (stringify pretty 0 theirs)"
    using canonical_reread(1) stringify_no_NUL(1) by blast
  moreover have "stringify False 0 (node_reply mine theirs) \<noteq> []"
    by (rule object_text) (simp add: node_reply_def hash_status_def split: option.splits)
  ultimately show ?thesis
    using assms by (simp add: node_on_read_def c_str_id parse_stringify_canonical [OF c]
        node_answer_reply Let_def)
qed

lemma status_readable:
  assumes "status_of_data sha s" and "\<And>x. clean (sha x)"
  shows "readable (status s)"
  using status_of_data_cases [OF assms(1)] assms(2)
  by (elim disjE conjE)
    (simp_all add: readable_def HasObj_def hash_status_def new_typed_def new_string_def
      um_find_Cons clean_def um_count_find)

section \<open>What the client returns\<close>

lemma recv_block_silent: "recv_block cr callback n tr rs = Some (k, tr', None) \<Longrightarrow> tr' = tr"
  by (induction rs) (auto split: enc_read.splits if_splits sum.splits)

lemma sc_receive_authentic:
  "sc_receive cr gs n response = Some (k, m, a) \<Longrightarrow> a \<noteq> response \<Longrightarrow>
    \<exists>b j s. authentic cr b j s \<and> n \<le> j \<and> a = c_str s"
proof (induction gs arbitrary: n response)
  case (Cons g gs)
  obtain r rs where g: "g = (r, rs)" by (cases g)
  with Cons.prems(1) obtain k1 n1 m1 where e: "enc_recv cr (nat 16384) (\<lambda>s. int (length s)) r rs n = Some (k1, n1, m1)"
    by (auto split: option.splits)
  let ?resp = "case m1 of None \<Rightarrow> response | Some s \<Rightarrow> c_str s"
  have here: "\<exists>b. authentic cr b n s \<and> n1 = n + 1" if "m1 = Some s" for s
    using enc_recv_delivers [of cr _ _ r rs n k1 n1 s] recv_block_delivers e that by blast
  have n1: "n \<le> n1"
    using e here by (cases m1) (auto simp: enc_recv_def split: enc_read.splits if_splits sum.splits
        dest: recv_block_silent)
  show ?case
  proof (cases "k1 = 0")
    case True
    with Cons.prems(1) g e have rec: "sc_receive cr gs n1 ?resp = Some (k, m, a)" by simp
    show ?thesis
    proof (cases "a = ?resp")
      case True
      with Cons.prems(2) here show ?thesis by (cases m1) auto
    next
      case False
      from Cons.IH [OF rec False] obtain b j s where "authentic cr b j s" "n1 \<le> j" "a = c_str s"
        by blast
      with n1 show ?thesis by (blast intro: order_trans)
    qed
  next
    case False
    with Cons.prems g e have "a = ?resp" by simp
    with Cons.prems(2) here show ?thesis by (cases m1) auto
  qed
qed simp

definition genuine :: "crypto \<Rightarrow> string \<Rightarrow> bool" where
  "genuine cr response \<longleftrightarrow> response = [] \<or> (\<exists>b j s. authentic cr b j s \<and> response = c_str s)"

lemma sc_receive_genuine:
  "sc_receive cr gs n [] = Some (k, m, response) \<Longrightarrow> genuine cr response"
  using sc_receive_authentic [of cr gs n "[]"] by (force simp: genuine_def)

lemma sc_communicate_genuine:
  assumes "sc_communicate cr attempts i request c = Some r"
  shows "\<forall>response c'. r = Inr (response, c') \<longrightarrow> genuine cr response"
proof (rule sc_communicate.raw_induct [OF _ assms])
  fix again :: "crypto \<Rightarrow> (nat \<Rightarrow> attempt) \<Rightarrow> nat \<Rightarrow> string \<Rightarrow> sym_client \<Rightarrow> (string \<times> sym_client) prog"
    and cr attempts i request c r
  assume IH: "\<And>cr attempts i request c r. again cr attempts i request c = Some r \<Longrightarrow>
      \<forall>response c'. r = Inr (response, c') \<longrightarrow> genuine cr response"
    and r: "(if \<not> sc_connected c \<and> \<not> reconnects (attempts i) then ret ([], c)
      else case enc_send cr request (written1 (attempts i)) (written2 (attempts i)) (sc_writes c) of
          Inl e \<Rightarrow> fail e
        | Inr (failed, n, blocks) \<Rightarrow>
            if failed then again cr attempts (i + 1) request (sc_close c)
            else (case sc_receive cr (answers_read (attempts i)) (sc_reads c) [] of
                None \<Rightarrow> None
              | Some (k, m, response) \<Rightarrow>
                  if k < 0 then ret (response, sc_close c)
                  else ret (response, \<lparr>sc_connected = True, sc_writes = n, sc_reads = m\<rparr>))) = Some r"
  have nil: "genuine cr []" by (simp add: genuine_def)
  from r nil show "\<forall>response c'. r = Inr (response, c') \<longrightarrow> genuine cr response"
    by (auto simp: ret_def fail_def split: if_splits sum.splits prod.splits option.splits
        dest: IH sc_receive_genuine)
qed

definition link_flaps :: "(nat \<Rightarrow> attempt) \<Rightarrow> bool" where
  "link_flaps attempts = (\<forall>i. reconnects (attempts i) \<and> written1 (attempts i) \<noteq> int SIZE_BLOCK)"

definition fills_size_block :: "crypto \<Rightarrow> bool" where
  "fills_size_block cr =
     (\<forall>d n. length d = 4 \<longrightarrow> SIZE_BLOCK \<le> length (encrypt_transaction cr d n) + 1)"

lemma sc_communicate_flaps:
  assumes "sc_communicate cr attempts i request c = Some r"
  shows "\<not> (link_flaps attempts \<and> fills_size_block cr)"
proof (rule sc_communicate.raw_induct [OF _ assms])
  fix again :: "crypto \<Rightarrow> (nat \<Rightarrow> attempt) \<Rightarrow> nat \<Rightarrow> string \<Rightarrow> sym_client \<Rightarrow> (string \<times> sym_client) prog"
    and cr attempts i request c r
  assume IH: "\<And>cr attempts i request c r. again cr attempts i request c = Some r \<Longrightarrow>
      \<not> (link_flaps attempts \<and> fills_size_block cr)"
    and r: "(if \<not> sc_connected c \<and> \<not> reconnects (attempts i) then ret ([], c)
      else case enc_send cr request (written1 (attempts i)) (written2 (attempts i)) (sc_writes c) of
          Inl e \<Rightarrow> fail e
        | Inr (failed, n, blocks) \<Rightarrow>
            if failed then again cr attempts (i + 1) request (sc_close c)
            else (case sc_receive cr (answers_read (attempts i)) (sc_reads c) [] of
                None \<Rightarrow> None
              | Some (k, m, response) \<Rightarrow>
                  if k < 0 then ret (response, sc_close c)
                  else ret (response, \<lparr>sc_connected = True, sc_writes = n, sc_reads = m\<rparr>))) = Some r"
  show "\<not> (link_flaps attempts \<and> fills_size_block cr)"
  proof
    assume a: "link_flaps attempts \<and> fills_size_block cr"
    let ?size = "size_bytes (length (encrypt_transaction cr (c_str request) (sc_writes c)))"
    from a have "\<not> length (encrypt_transaction cr ?size (sc_writes c)) + 1 < SIZE_BLOCK"
      by (simp add: fills_size_block_def not_less)
    with a have "\<exists>w. enc_send cr request (written1 (attempts i)) (written2 (attempts i)) (sc_writes c) =
        Inr (True, sc_writes c + 1, w)"
      by (simp add: enc_send_def Let_def link_flaps_def)
    with r a have "again cr attempts (i + 1) request (sc_close c) = Some r"
      by (auto simp: link_flaps_def)
    from IH [OF this] a show False by blast
  qed
qed

section \<open>Claims\<close>

text \<open>
  Whatever the peer writes, an answer that \<open>communicate\<close> returns is empty or was sealed under
  the key with a transaction number; nothing else reaches the caller.
\<close>

theorem answers_are_genuine:
  assumes "sc_communicate cr attempts 0 request c = ret (response, c')"
  shows "genuine cr response"
  using sc_communicate_genuine [OF assms [unfolded ret_def]] by simp

definition sample_answer :: attempt where
  "sample_answer = \<lparr>reconnects = True, written1 = 89, written2 = 87, answers_read =
     [(Enc_data (encrypt_transaction sample_crypto (size_bytes 87) 0),
       [Enc_data (encrypt_transaction sample_crypto ''ab'' 0)])]\<rparr>"

lemma sample_length [simp]:
  "length (encrypt_transaction sample_crypto d n) = 85 + length d"
  by (simp add: encrypt_transaction_def encrypt_def sample_crypto_def)

lemma sample_communicate:
  "sc_communicate sample_crypto (\<lambda>_. sample_answer) 0 ''hi'' (new_sym_client True) =
    ret (''ab'', \<lparr>sc_connected = True, sc_writes = 1, sc_reads = 1\<rparr>)"
proof -
  have l: "\<And>d. encrypt_transaction sample_crypto d 0 \<noteq> []"
    using sample_length by (metis add_is_0 length_0_conv zero_neq_numeral)
  have "\<exists>w. enc_send sample_crypto ''hi'' 89 87 0 = Inr (False, 1, w)"
    by (simp add: enc_send_def Let_def SIZE_BLOCK_def c_str_def)
  moreover have "enc_recv sample_crypto (nat 16384) (\<lambda>s. int (length s))
      (Enc_data (encrypt_transaction sample_crypto (size_bytes 87) 0))
      [Enc_data (encrypt_transaction sample_crypto ''ab'' 0)] 0 = Some (2, 1, Some ''ab'')"
    using size_of_size_bytes [of 87]
    by (simp add: enc_recv_def l decrypt_encrypt_transaction [OF sample_crypto_ok] SIZE_BLOCK_def)
  ultimately show ?thesis
    by (subst sc_communicate.simps) (auto simp: sample_answer_def new_sym_client_def c_str_def)
qed

lemma answers_are_genuine_witness: "genuine sample_crypto ''ab''"
  by (rule answers_are_genuine [OF sample_communicate])

text \<open>
  While the peer accepts connections but every write to it fails, \<open>communicate\<close> calls itself
  without end: it never returns to the loop that asks the other nodes.  The blocks of lengths are
  taken to have the bytes that are written of them.
\<close>

theorem flapping_link_hangs:
  assumes "link_flaps attempts" and "fills_size_block cr"
  shows "sc_communicate cr attempts i request c = None"
  using sc_communicate_flaps assms by fastforce

lemma flapping_link_hangs_witness:
  "sc_communicate sample_crypto
     (\<lambda>_. \<lparr>reconnects = True, written1 = - 1, written2 = 0, answers_read = []\<rparr>) 0 ''hi''
     (new_sym_client True) = None"
  by (rule flapping_link_hangs)
    (simp_all add: link_flaps_def fills_size_block_def SIZE_BLOCK_def)

text \<open>
  In every state a node reaches, its status holds the hash of its data, or nothing while no
  data was given: not its clients and not what they answer changes it.
\<close>

theorem status_follows_data:
  assumes "node_reachable cr sha s"
  shows "status_of_data sha s"
  by (rule reachable_status [OF assms])

definition sample_hash :: "string \<Rightarrow> string" where
  "sample_hash s = to_string (length s)"

lemma sample_hash_clean: "clean (sample_hash x)"
  using to_string_digits [of "length x"]
  by (force simp: clean_def sample_hash_def is_digit_def uchar_def)

definition sample_node :: "string \<Rightarrow> node" where
  "sample_node v = (let d = JsonObject OBJECT [] [(''a'', new_string v)] [] in
     \<lparr>status = hash_status (sample_hash (stringify False 0 d)), ddata = d, clients = []\<rparr>)"

lemma sample_set_ddata:
  assumes "clean v"
  shows "set_ddata sample_hash (stringify False 0 (JsonObject OBJECT [] [(''a'', new_string v)] [])) new_node
    = ret (sample_node v)"
proof -
  let ?d = "JsonObject OBJECT [] [(''a'', new_string v)] []"
  have p: "printable ?d" using assms by (simp add: new_string_def clean_no_NUL)
  from assms have "strip_controls v = v" "strip_controls ''a'' = ''a''"
    by (simp_all add: clean_strip clean_def)
  then show ?thesis
    using parse_into_object [OF p, of "[]" False 0] stringify_no_NUL(1) [OF p]
    by (simp add: set_ddata_def new_node_def c_str_id new_typed_def sample_node_def Let_def
        new_string_def) (simp add: hash_status_def new_string_def um_set_def)
qed

lemma sample_reachable: "clean v \<Longrightarrow> node_reachable sample_crypto sample_hash (sample_node v)"
  by (rule node_reachable.given [OF node_reachable.started sample_set_ddata])

lemma status_follows_data_witness: "status_of_data sample_hash (sample_node ''xy'')"
  by (rule status_follows_data [OF sample_reachable]) (simp add: clean_def)

text \<open>
  C21. A node with data answers what another node sends in its round: its own hash when the other
  has no data, else \<open>Up to date.\<close> exactly when both hashes are equal.  And whether or not the
  answer was sent, it hangs up: the length that \<open>send\<close> returns is taken for an error.
\<close>

theorem nodes_compare_hashes:
  assumes "node_reachable cr1 sha s1" and "node_reachable cr2 sha s2"
    and "has_data s2" and "\<And>x. clean (sha x)"
  shows "node_on_read send_ok (stringify False 0 (status s1)) s2 =
    ret (stringify False 0
      (if has_data s1
       then JsonObject OBJECT [] [(''status'', new_string
         (if sha (stringify False 0 (ddata s1)) = sha (stringify False 0 (ddata s2))
          then ''Up to date.'' else ''Out of date.''))] []
       else hash_status (sha (stringify False 0 (ddata s2)))), - 1)"
proof -
  note s1 = status_of_data_cases [OF reachable_status [OF assms(1)]]
  have "status s2 = hash_status (sha (stringify False 0 (ddata s2)))"
    using status_of_data_cases [OF reachable_status [OF assms(2)]] assms(3) by blast
  from node_on_read_reply [OF this status_readable [OF reachable_status [OF assms(1)] assms(4)]]
  have "node_on_read send_ok (stringify False 0 (status s1)) s2 =
      ret (stringify False 0 (node_reply (sha (stringify False 0 (ddata s2))) (status s1)), - 1)" .
  with s1 show ?thesis
    by (elim disjE conjE)
      (simp_all add: node_reply_def hash_status_def new_typed_def um_find_Cons new_string_def)
qed

lemma nodes_compare_hashes_witness:
  "node_on_read True (stringify False 0 (status (sample_node ''xy''))) (sample_node ''xyz'') =
     ret (stringify False 0 (JsonObject OBJECT [] [(''status'', new_string ''Out of date.'')] []), - 1)"
proof -
  have r: "node_reachable sample_crypto sample_hash (sample_node ''xy'')"
      "node_reachable sample_crypto sample_hash (sample_node ''xyz'')"
    by (simp_all add: sample_reachable clean_def)
  have h: "has_data (sample_node v)" for v
    by (simp add: has_data_def sample_node_def hash_status_def um_count_find um_find_Cons Let_def)
  have "sample_hash (stringify False 0 (ddata (sample_node ''xy''))) \<noteq>
      sample_hash (stringify False 0 (ddata (sample_node ''xyz'')))"
    by code_simp
  with nodes_compare_hashes [OF r h sample_hash_clean, of True] h show ?thesis by simp
qed

text \<open>
  A node that was given no data yet does not answer at all: whatever a request parses to, the
  look-up of its hash throws.
\<close>

theorem node_without_data_throws:
  assumes "node_reachable cr sha s" and "\<not> has_data s" and "readable theirs"
  shows "node_on_read send_ok (stringify pretty 0 theirs) s = fail (MissingKey ''hash'')"
proof -
  from assms(3) have c: "canonical theirs" by (simp add: readable_def)
  have s: "status s = new_typed OBJECT"
    using status_of_data_cases [OF reachable_status [OF assms(1)]] assms(2) by blast
  have "NUL \<notin> set (stringify pretty 0 theirs)"
    using c canonical_reread(1) stringify_no_NUL(1) by blast
  moreover have "node_answer s theirs = Inl (MissingKey ''hash'')"
    using assms(3) by (cases "um_find (objectValues theirs) ''hash''")
      (simp_all add: node_answer_def s HasObj_def GetStr_def new_typed_def readable_def
        um_count_find)
  ultimately show ?thesis
    by (simp add: node_on_read_def c_str_id parse_stringify_canonical [OF c])
qed

lemma node_without_data_throws_witness:
  "node_on_read True (stringify False 0 (new_typed OBJECT)) new_node = fail (MissingKey ''hash'')"
  by (rule node_without_data_throws [OF node_reachable.started])
    (simp_all add: has_data_def new_node_def new_typed_def readable_def)

end
