(* ===== verification/Tanks.thy ===== *)
theory Tanks
  imports JsonRoundtrip Complex_Main
begin

text \<open>
  The game server of the web application (\<open>examples/jph2/tanks-wss.cpp\<close>): the events and the
  players it keeps, what a message of a client changes, and the phases of a tick.
\<close>

section \<open>Numbers\<close>

text \<open>
  The code computes with \<open>double\<close>.  Its operations are a parameter; what a theorem needs of them is
  a hypothesis.  A literal is the rational number that is written.
\<close>

record 'd doubles =
  lit :: "rat \<Rightarrow> 'd"
  d_add :: "'d \<Rightarrow> 'd \<Rightarrow> 'd"
  d_sub :: "'d \<Rightarrow> 'd \<Rightarrow> 'd"
  d_mul :: "'d \<Rightarrow> 'd \<Rightarrow> 'd"
  d_less :: "'d \<Rightarrow> 'd \<Rightarrow> bool"
  d_le :: "'d \<Rightarrow> 'd \<Rightarrow> bool"
  abs_of :: "'d \<Rightarrow> 'd"
  cos_of :: "'d \<Rightarrow> 'd"
  sin_of :: "'d \<Rightarrow> 'd"
  isnan :: "'d \<Rightarrow> bool"
  quiet_NaN :: 'd
  d_to_string :: "'d \<Rightarrow> string"
  stod :: "string \<Rightarrow> 'd res"

definition maxSpeed :: rat where "maxSpeed = 10"
definition acceleration :: rat where "acceleration = 5 / 100"
definition maxTurnSpeed :: rat where "maxTurnSpeed = 5 / 100"
definition turnAcceleration :: rat where "turnAcceleration = 5 / 10000"

section \<open>State\<close>

text \<open>The number of an event is 0 for a connection, 1 for its end, 2 for a destroyed tank.\<close>

record game_event =
  ev_type :: "8 word"
  ev_player :: string

record 'd game =
  client_details :: "(int, JsonObject) umap"
  locations :: "(string, 'd \<times> 'd) umap"
  rotations :: "(string, 'd) umap"
  speeds :: "(string, 'd) umap"
  turnSpeeds :: "(string, 'd) umap"
  players :: "(string, JsonObject) umap"       \<comment> \<open>\<open>game_state["players"]->objectValues\<close>\<close>
  game_events :: "game_event list"
  game_sent :: "(int \<times> string) list"


definition game_state :: "'d game \<Rightarrow> JsonObject" where
  "game_state g = JsonObject OBJECT [] [(''players'', JsonObject OBJECT [] (players g) [])] []"

definition broadcast :: "string \<Rightarrow> 'd game \<Rightarrow> 'd game" where
  "broadcast msg g = g\<lparr>game_sent := game_sent g @ map (\<lambda>(fd, _). (fd, msg)) (client_details g)\<rparr>"

definition notice :: "string \<Rightarrow> string \<Rightarrow> string" where
  "notice what player = ''{'' @ [DQ] @ what @ [DQ] @ '':'' @ [DQ] @ player @ [DQ] @ ''}''"

definition remove_tank :: "string \<Rightarrow> 'd game \<Rightarrow> 'd game" where
  "remove_tank n g = g\<lparr>locations := um_erase n (locations g), rotations := um_erase n (rotations g),
     speeds := um_erase n (speeds g), turnSpeeds := um_erase n (turnSpeeds g),
     players := um_erase n (players g)\<rparr>"

section \<open>The events of a tick\<close>

definition process_event :: "game_event \<Rightarrow> 'd game \<Rightarrow> 'd game" where
  "process_event e g =
     (if ev_type e = 0 then broadcast (notice ''connect'' (ev_player e)) g
      else if ev_type e = 1 then
        remove_tank (ev_player e @ ''tank'') (broadcast (notice ''disconnect'' (ev_player e)) g)
      else if ev_type e = 2 then
        remove_tank (ev_player e) (broadcast (notice ''explode'' (ev_player e)) g)
      else g)"

definition take_event :: "'d game \<Rightarrow> 'd game" where
  "take_event g =
     (case game_events g of [] \<Rightarrow> g | e # es \<Rightarrow> process_event e (g\<lparr>game_events := es\<rparr>))"

section \<open>Collisions\<close>

text \<open>The corners of a tank, and the value of each on an axis.\<close>

definition tank_shape :: "(rat \<times> rat) list" where
  "tank_shape = [(- 25, - 15), (25, - 15), (25, 15), (- 15, 15)]"

definition edges_at :: "'d doubles \<Rightarrow> 'd \<times> 'd \<Rightarrow> ('d \<times> 'd) list" where
  "edges_at r pos = map (\<lambda>(x, y). (d_add r (fst pos) (lit r x), d_add r (snd pos) (lit r y))) tank_shape"

definition project :: "'d doubles \<Rightarrow> 'd \<times> 'd \<Rightarrow> 'd \<times> 'd \<Rightarrow> 'd" where
  "project r normal p = d_add r (d_mul r (fst normal) (fst p)) (d_mul r (snd normal) (snd p))"

definition least :: "'d doubles \<Rightarrow> 'd list \<Rightarrow> 'd" where
  "least r ps = foldl (\<lambda>m p. if isnan r m \<or> d_less r p m then p else m) (quiet_NaN r) ps"

definition greatest :: "'d doubles \<Rightarrow> 'd list \<Rightarrow> 'd" where
  "greatest r ps = foldl (\<lambda>m p. if isnan r m \<or> d_less r m p then p else m) (quiet_NaN r) ps"

definition normal_of :: "'d doubles \<Rightarrow> ('d \<times> 'd) list \<Rightarrow> nat \<Rightarrow> 'd \<times> 'd" where
  "normal_of r es i1 =
     (let i2 = (i1 + 1) mod length es
      in (d_sub r (snd (es ! i2)) (snd (es ! i1)), d_sub r (fst (es ! i1)) (fst (es ! i2))))"

definition separated ::
  "'d doubles \<Rightarrow> ('d \<times> 'd) list \<Rightarrow> ('d \<times> 'd) list \<Rightarrow> nat \<Rightarrow> bool" where
  "separated r a_edges b_edges i1 =
     (let normal = normal_of r a_edges i1;
          as = map (project r normal) a_edges;
          bs = map (project r normal) b_edges
      in d_less r (greatest r as) (least r bs) \<or> d_less r (greatest r bs) (least r as))"

definition collide :: "'d doubles \<Rightarrow> 'd \<times> 'd \<Rightarrow> 'd \<times> 'd \<Rightarrow> bool" where
  "collide r pos_a pos_b =
     (let a_edges = edges_at r pos_a; b_edges = edges_at r pos_b
      in \<not> list_ex (separated r a_edges b_edges) [0..<length a_edges])"

fun hit :: "'d doubles \<Rightarrow> string \<Rightarrow> 'd \<times> 'd \<Rightarrow> string \<times> 'd \<times> 'd \<Rightarrow> game_event list" where
  "hit r a pos_a (b, pos_b) =
     (if a = b then [] else if collide r pos_a pos_b then [\<lparr>ev_type = 2, ev_player = a\<rparr>] else [])"

definition collisions :: "'d doubles \<Rightarrow> (string, 'd \<times> 'd) umap \<Rightarrow> game_event list" where
  "collisions r ls = concat (map (\<lambda>(a, pos_a). concat (map (hit r a pos_a) ls)) ls)"

definition find_collisions :: "'d doubles \<Rightarrow> 'd game \<Rightarrow> 'd game" where
  "find_collisions r g = g\<lparr>game_events := game_events g @ collisions r (locations g)\<rparr>"

section \<open>Movement\<close>

text \<open>\<open>m[name]\<close> of a number that is missing is zero, and is entered.\<close>

definition entry :: "'d doubles \<Rightarrow> (string, 'd) umap \<Rightarrow> string \<Rightarrow> 'd" where
  "entry r m n = (case um_find m n of None \<Rightarrow> lit r 0 | Some v \<Rightarrow> v)"

definition new_speed :: "'d doubles \<Rightarrow> char \<Rightarrow> 'd \<Rightarrow> 'd" where
  "new_speed r direction v =
     (if direction = CHR ''f'' then
        (if d_less r v (lit r maxSpeed) then d_add r v (lit r acceleration) else v)
      else if direction = CHR ''b'' then
        (if d_less r (lit r (- maxSpeed)) v then d_sub r v (lit r acceleration) else v)
      else if d_le r (abs_of r v) (lit r acceleration) then lit r 0
      else if d_less r (lit r 0) v then d_sub r v (lit r acceleration)
      else if d_less r v (lit r 0) then d_add r v (lit r acceleration)
      else v)"

definition new_turn_speed :: "'d doubles \<Rightarrow> char \<Rightarrow> 'd \<Rightarrow> 'd" where
  "new_turn_speed r turn v =
     (if turn = CHR ''l'' \<or> turn = CHR ''r'' then
        (if d_less r v (lit r maxTurnSpeed) then d_add r v (lit r turnAcceleration) else v)
      else if d_le r v (lit r turnAcceleration) then lit r 0
      else if d_less r (lit r 0) v then d_sub r v (lit r turnAcceleration)
      else v)"

definition new_rotation :: "'d doubles \<Rightarrow> char \<Rightarrow> 'd \<Rightarrow> 'd \<Rightarrow> 'd" where
  "new_rotation r turn ts v =
     (if turn = CHR ''l'' then d_add r v ts else if turn = CHR ''r'' then d_sub r v ts else v)"

definition move_tank :: "'d doubles \<Rightarrow> string \<Rightarrow> JsonObject \<Rightarrow> 'd game \<Rightarrow> 'd game res" where
  "move_tank r n player g =
     bindR (GetStr player ''i'') (\<lambda>i.
       if i = [] then Inl OutOfBounds
       else case um_find (locations g) n of
         None \<Rightarrow> Inl OutOfRange
       | Some (x, y) \<Rightarrow>
           (let s = new_speed r (i ! 0) (entry r (speeds g) n);
                turn = peek (drop 1 i);
                ts = new_turn_speed r turn (entry r (turnSpeeds g) n);
                rot = new_rotation r turn ts (entry r (rotations g) n);
                x = d_add r x (d_mul r s (cos_of r rot));
                y = d_add r y (d_mul r (d_mul r s (lit r (- 1))) (sin_of r rot))
            in bindR (assign_members [(''i'', i), (''x'', d_to_string r x), (''y'', d_to_string r y),
                   (''s'', d_to_string r s), (''r'', d_to_string r rot), (''ts'', d_to_string r ts)] player)
                 (\<lambda>player. Inr (g\<lparr>speeds := um_set n s (speeds g), turnSpeeds := um_set n ts (turnSpeeds g),
                    rotations := um_set n rot (rotations g), locations := um_set n (x, y) (locations g),
                    players := um_set n player (players g)\<rparr>))))"

fun move_tanks :: "'d doubles \<Rightarrow> (string, JsonObject) umap \<Rightarrow> 'd game \<Rightarrow> 'd game res" where
  "move_tanks r [] g = Inr g"
| "move_tanks r ((n, player) # ps) g = bindR (move_tank r n player g) (move_tanks r ps)"

definition move_all :: "'d doubles \<Rightarrow> 'd game \<Rightarrow> 'd game res" where
  "move_all r g = move_tanks r (players g) g"

definition broadcast_state :: "'d game \<Rightarrow> 'd game" where
  "broadcast_state g = broadcast (stringify False 0 (game_state g)) g"

section \<open>The handlers\<close>

definition game_on_disconnect :: "int \<Rightarrow> 'd game \<Rightarrow> 'd game res" where
  "game_on_disconnect fd g =
     (case um_find (client_details g) fd of
        None \<Rightarrow> Inr g
      | Some details \<Rightarrow>
          bindR (GetStr details ''handle'') (\<lambda>handle.
            Inr (g\<lparr>game_events := game_events g @ [\<lparr>ev_type = 1, ev_player = handle\<rparr>],
              client_details := um_erase fd (client_details g)\<rparr>)))"

definition um_emplace :: "'k \<Rightarrow> 'v \<Rightarrow> ('k, 'v) umap \<Rightarrow> ('k, 'v) umap" where
  "um_emplace k v m = (if um_count m k then m else um_set k v m)"

definition announce :: "int \<Rightarrow> JsonObject \<Rightarrow> 'd game \<Rightarrow> 'd game res" where
  "announce fd msg g =
     (if um_count (client_details g) fd then Inr g
      else bindR (GetStr msg ''announce'') (\<lambda>handle.
           bindR (if HasObj msg ''color'' STRING then bindR (GetStr msg ''color'') (\<lambda>c. Inr [(''color'', new_string c)])
                  else Inr []) (\<lambda>color.
             Inr (g\<lparr>client_details := um_set fd
                 (JsonObject OBJECT [] ((''handle'', new_string handle) # color) []) (client_details g),
               game_events := game_events g @ [\<lparr>ev_type = 0, ev_player = handle\<rparr>]\<rparr>))))"

definition new_player :: "string \<Rightarrow> string \<Rightarrow> JsonObject" where
  "new_player x y = JsonObject OBJECT []
     [(''x'', new_string x), (''y'', new_string y), (''s'', new_string ''0''), (''r'', new_string ''0''),
      (''ts'', new_string ''0''), (''i'', new_string ''nn'')] []"

definition spawn :: "'d doubles \<Rightarrow> JsonObject \<Rightarrow> string \<Rightarrow> 'd game \<Rightarrow> 'd game res" where
  "spawn r msg n g =
     (if um_count (players g) n then Inr g
      else bindR (GetStr msg ''x'') (\<lambda>x. bindR (GetStr msg ''y'') (\<lambda>y.
           bindR (stod r x) (\<lambda>px. bindR (stod r y) (\<lambda>py.
             Inr (g\<lparr>locations := um_emplace n (px, py) (locations g),
               rotations := um_emplace n (lit r 0) (rotations g),
               speeds := um_emplace n (lit r 0) (speeds g),
               turnSpeeds := um_emplace n (lit r 0) (turnSpeeds g),
               players := um_set n (new_player x y) (players g)\<rparr>))))))"

definition steer :: "string \<Rightarrow> string \<Rightarrow> 'd game \<Rightarrow> 'd game res" where
  "steer n i g =
     (case um_find (players g) n of
        None \<Rightarrow> Inr g
      | Some player \<Rightarrow>
          bindR (assign_member ''i'' i player) (\<lambda>player.
            Inr (g\<lparr>players := um_set n player (players g)\<rparr>)))"

definition game_message :: "'d doubles \<Rightarrow> int \<Rightarrow> JsonObject \<Rightarrow> 'd game \<Rightarrow> 'd game res" where
  "game_message r fd msg g =
     (if HasObj msg ''handle'' STRING \<and> HasObj msg ''i'' STRING then
        bindR (GetStr msg ''handle'') (\<lambda>h. bindR (GetStr msg ''i'') (\<lambda>i. steer (h @ ''tank'') i g))
      else if HasObj msg ''announce'' STRING then announce fd msg g
      else if HasObj msg ''handle'' STRING \<and> HasObj msg ''x'' STRING \<and> HasObj msg ''y'' STRING then
        bindR (GetStr msg ''handle'') (\<lambda>h. spawn r msg (h @ ''tank'') g)
      else Inr g)"

definition game_on_read :: "'d doubles \<Rightarrow> int \<Rightarrow> string \<Rightarrow> 'd game \<Rightarrow> 'd game prog" where
  "game_on_read r fd d g =
     bindP (parse_into new_empty (c_str d)) (\<lambda>msg. lift_res (game_message r fd msg g))"

section \<open>The game\<close>

text \<open>
  The handlers run on the server's thread, the phases of a tick on another.  The phases are steps
  of their own here, an event of the queue at a time, so that messages come between them; that
  the threads may also meet within a step, on tables without a lock, is beyond the model.
\<close>

datatype game_input = Message int string | Left int | Take_event | Collide | Move | Tell

fun game_step :: "'d doubles \<Rightarrow> 'd game prog \<Rightarrow> game_input \<Rightarrow> 'd game prog" where
  "game_step r p (Message fd d) = bindP p (game_on_read r fd d)"
| "game_step r p (Left fd) = bindP p (\<lambda>g. lift_res (game_on_disconnect fd g))"
| "game_step r p Take_event = bindP p (\<lambda>g. ret (take_event g))"
| "game_step r p Collide = bindP p (\<lambda>g. ret (find_collisions r g))"
| "game_step r p Move = bindP p (\<lambda>g. lift_res (move_all r g))"
| "game_step r p Tell = bindP p (\<lambda>g. ret (broadcast_state g))"

section \<open>A whole tick\<close>

lemma events_of_tick [simp]:
  "game_events (broadcast m g) = game_events g" "game_events (remove_tank n g) = game_events g"
  "game_events (process_event e g) = game_events g"
  by (simp_all add: broadcast_def remove_tank_def process_event_def)

lemma take_event_events: "game_events (take_event g) = tl (game_events g)"
  by (simp add: take_event_def split: list.split)

function drain_events :: "'d game \<Rightarrow> 'd game" where
  "drain_events g = (if game_events g = [] then g else drain_events (take_event g))"
  by pat_completeness auto

termination
  by (relation "measure (length \<circ> game_events)") (auto simp: take_event_events)

declare drain_events.simps [simp del]

text \<open>
  A turn of the loop when no message comes between, and how long the thread sleeps before the next:
  \<open>elapsed\<close> is what the turn has taken.
\<close>

definition ms_per_tick :: int where "ms_per_tick = 16"

definition sleep_ms :: "int \<Rightarrow> int" where
  "sleep_ms elapsed = (let tick_ms = ms_per_tick - elapsed in if tick_ms < 0 then 0 else tick_ms)"

definition game_tick :: "'d doubles \<Rightarrow> int \<Rightarrow> 'd game \<Rightarrow> ('d game \<times> int) res" where
  "game_tick r elapsed g =
     bindR (move_all r (find_collisions r (drain_events g))) (\<lambda>g. Inr (broadcast_state g, sleep_ms elapsed))"

text \<open>A tick takes 16 milliseconds, or as long as its turn takes.\<close>

lemma tick_period: "0 \<le> elapsed \<Longrightarrow> elapsed + sleep_ms elapsed = max ms_per_tick elapsed"
  by (simp add: sleep_ms_def Let_def max_def)

text \<open>The queue is empty behind the loop, and a tick is a sequence of the phases.\<close>

lemma drain_events_steps:
  "run_steps (game_step r) (ret g) (replicate (length (game_events g)) Take_event) = ret (drain_events g)
    \<and> game_events (drain_events g) = []"
proof (induction g rule: drain_events.induct)
  case (1 g)
  show ?case
  proof (cases "game_events g")
    case (Cons e es)
    with 1 show ?thesis
      by (subst (1 2) drain_events.simps) (simp add: take_event_events)
  qed (simp add: drain_events.simps)
qed

lemma tick_is_phases:
  assumes "game_tick r elapsed g = Inr (g', ms)"
  shows "run_steps (game_step r) (ret g)
    (replicate (length (game_events g)) Take_event @ [Collide, Move, Tell]) = ret g'"
  using assms drain_events_steps [of r g] by (auto simp: game_tick_def bindR_eq_Inr lift_res_def ret_def)

section \<open>What the game keeps\<close>

definition player_ok :: "JsonObject \<Rightarrow> bool" where
  "player_ok p \<longleftrightarrow> list_all (um_count (objectValues p)) [''i'', ''x'', ''y'', ''s'', ''r'', ''ts'']
     \<and> GetStr p ''i'' \<noteq> Inr []"

definition same_keys :: "'d game \<Rightarrow> bool" where
  "same_keys g \<longleftrightarrow> um_count (locations g) = um_count (players g)
     \<and> um_count (rotations g) = um_count (players g) \<and> um_count (speeds g) = um_count (players g)
     \<and> um_count (turnSpeeds g) = um_count (players g)"

definition game_inv :: "'d game \<Rightarrow> bool" where
  "game_inv g \<longleftrightarrow> same_keys g \<and> um_wf (players g)
     \<and> (\<forall>n p. um_find (players g) n = Some p \<longrightarrow> player_ok p)
     \<and> (\<forall>fd c. um_find (client_details g) fd = Some c \<longrightarrow> um_count (objectValues c) ''handle'')"

lemma player_after_move:
  assumes "player_ok p" and "GetStr p ''i'' = Inr i"
  shows "\<exists>p'. assign_members [(''i'', i), (''x'', x), (''y'', y), (''s'', s), (''r'', rot), (''ts'', ts)] p
      = Inr p' \<and> player_ok p'"
proof -
  from assms have keys: "list_all (um_count (objectValues p)) [''i'', ''x'', ''y'', ''s'', ''r'', ''ts'']"
    and ne: "i \<noteq> []" by (auto simp: player_ok_def)
  then obtain p1 where p1: "assign_member ''i'' i p = Inr p1"
      "um_count (objectValues p1) = um_count (objectValues p)" "GetStr p1 ''i'' = Inr i"
    using assign_member_ok [of p "''i''" i] by auto
  let ?kvs = "[(''x'', x), (''y'', y), (''s'', s), (''r'', rot), (''ts'', ts)]"
  from keys p1(2) have "list_all (um_count (objectValues p1)) (map fst ?kvs)" by simp
  from assign_members_ok [OF this] obtain p2 where p2: "assign_members ?kvs p1 = Inr p2"
      "um_count (objectValues p2) = um_count (objectValues p1)"
      "\<forall>k'. k' \<notin> set (map fst ?kvs) \<longrightarrow> GetStr p2 k' = GetStr p1 k'"
    by blast
  from p2(3) have "GetStr p2 ''i'' = GetStr p1 ''i''" by simp
  then have "player_ok p2" using keys p1 p2(2) ne by (simp add: player_ok_def)
  moreover have "assign_members ((''i'', i) # ?kvs) p = Inr p2"
    unfolding assign_members.simps(2) [of "''i''"] p1(1) bindR_simps p2(1) ..
  ultimately show ?thesis by blast
qed

lemma um_wf_set: "um_wf m \<Longrightarrow> um_wf (um_set k v m)"
  by (rule um.wf_insert)

lemma um_wf_erase: "um_wf m \<Longrightarrow> um_wf (um_erase k m)"
  by (rule um.wf_erase)

lemma move_tank_runs:
  assumes keys: "same_keys g" and p: "player_ok p" and n: "um_find (players g) n = Some p"
  shows "\<exists>g' p'. move_tank r n p g = Inr g' \<and> same_keys g' \<and> player_ok p'
    \<and> players g' = um_set n p' (players g) \<and> client_details g' = client_details g"
proof -
  from p obtain i where i: "GetStr p ''i'' = Inr i" "i \<noteq> []"
    using GetStr_count [of p "''i''"] by (auto simp: player_ok_def)
  from n keys have "um_count (locations g) n" by (simp add: same_keys_def um_count_find [of "players g"])
  then obtain x y where loc: "um_find (locations g) n = Some (x, y)" by (auto simp: um_count_find)
  let ?s = "new_speed r (i ! 0) (entry r (speeds g) n)"
  let ?ts = "new_turn_speed r (peek (drop 1 i)) (entry r (turnSpeeds g) n)"
  let ?rot = "new_rotation r (peek (drop 1 i)) ?ts (entry r (rotations g) n)"
  let ?x = "d_add r x (d_mul r ?s (cos_of r ?rot))"
  let ?y = "d_add r y (d_mul r (d_mul r ?s (lit r (- 1))) (sin_of r ?rot))"
  from player_after_move [OF p i(1)] obtain p' where p':
    "assign_members [(''i'', i), (''x'', d_to_string r ?x), (''y'', d_to_string r ?y),
       (''s'', d_to_string r ?s), (''r'', d_to_string r ?rot), (''ts'', d_to_string r ?ts)] p = Inr p'"
    "player_ok p'" by blast
  let ?g = "g\<lparr>speeds := um_set n ?s (speeds g), turnSpeeds := um_set n ?ts (turnSpeeds g),
      rotations := um_set n ?rot (rotations g), locations := um_set n (?x, ?y) (locations g),
      players := um_set n p' (players g)\<rparr>"
  have "move_tank r n p g = Inr ?g"
    unfolding move_tank_def i(1) bindR_simps loc using i(2) p'(1) by (simp add: Let_def)
  moreover have "same_keys ?g" using keys by (simp add: same_keys_def fun_eq_iff)
  ultimately show ?thesis using p'(2) by auto
qed

lemma move_tank_ok:
  assumes inv: "game_inv g" and n: "um_find (players g) n = Some p"
  shows "\<exists>g'. move_tank r n p g = Inr g' \<and> game_inv g'
    \<and> (\<forall>m. m \<noteq> n \<longrightarrow> um_find (players g') m = um_find (players g) m)
    \<and> um_count (players g') = um_count (players g)"
proof -
  from inv n have "same_keys g" "player_ok p" by (simp_all add: game_inv_def)
  from move_tank_runs [OF this n, of r] obtain g' p' where g': "move_tank r n p g = Inr g'"
      "same_keys g'" "player_ok p'" "players g' = um_set n p' (players g)"
      "client_details g' = client_details g" by blast
  moreover have "game_inv g'" using inv g' by (simp add: game_inv_def um_wf_set)
  ultimately show ?thesis using n by (auto simp: fun_eq_iff um_count_find)
qed

lemma move_tanks_ok:
  "game_inv g \<Longrightarrow> distinct (map fst ps) \<Longrightarrow> \<forall>(n, p) \<in> set ps. um_find (players g) n = Some p \<Longrightarrow>
    \<exists>g'. move_tanks r ps g = Inr g' \<and> game_inv g' \<and> um_count (players g') = um_count (players g)"
proof (induction ps arbitrary: g)
  case (Cons np ps)
  obtain n p where np: "np = (n, p)" by (cases np)
  with Cons.prems have "um_find (players g) n = Some p" by simp
  from move_tank_ok [OF Cons.prems(1) this, of r] obtain g1 where g1: "move_tank r n p g = Inr g1"
      "game_inv g1" "\<forall>m. m \<noteq> n \<longrightarrow> um_find (players g1) m = um_find (players g) m"
      "um_count (players g1) = um_count (players g)" by blast
  have "\<forall>(m, q) \<in> set ps. um_find (players g1) m = Some q"
    using Cons.prems(2,3) g1(3) np by (fastforce simp: image_iff)
  from Cons.IH [OF g1(2) _ this] Cons.prems(2) np g1(1,4) show ?case by auto
qed simp

text \<open>An empty input is read behind its terminator when its turn comes.\<close>

lemma move_tanks_stuck:
  "same_keys g \<Longrightarrow> distinct (map fst ps) \<Longrightarrow> \<forall>(n, p) \<in> set ps. um_find (players g) n = Some p \<Longrightarrow>
    \<forall>(n, p) \<in> set ps. player_ok p \<or> GetStr p ''i'' = Inr [] \<Longrightarrow>
    \<exists>(n, p) \<in> set ps. GetStr p ''i'' = Inr [] \<Longrightarrow> move_tanks r ps g = Inl OutOfBounds"
proof (induction ps arbitrary: g)
  case (Cons np ps)
  obtain n p where np: "np = (n, p)" by (cases np)
  show ?case
  proof (cases "GetStr p ''i'' = Inr []")
    case True
    with np show ?thesis by (simp add: move_tank_def)
  next
    case False
    with Cons.prems np have "player_ok p" "um_find (players g) n = Some p" by auto
    from move_tank_runs [OF Cons.prems(1) this, of r] obtain g1 p1 where g1:
      "move_tank r n p g = Inr g1" "same_keys g1" "players g1 = um_set n p1 (players g)" by blast
    have "\<forall>(m, q) \<in> set ps. um_find (players g1) m = Some q"
      using Cons.prems(2,3) g1(3) np by (fastforce simp: image_iff)
    from Cons.IH [OF g1(2) _ this] Cons.prems False np g1(1) show ?thesis by auto
  qed
qed simp

lemma players_found: "um_wf ps \<Longrightarrow> \<forall>(n, p) \<in> set ps. um_find ps n = Some p"
  by (auto simp: um_wf_def um_find_def)

lemma move_all_ok:
  assumes "game_inv g"
  shows "\<exists>g'. move_all r g = Inr g' \<and> game_inv g' \<and> um_count (players g') = um_count (players g)"
proof -
  from assms have "um_wf (players g)" by (simp add: game_inv_def)
  then show ?thesis
    unfolding move_all_def
    by (intro move_tanks_ok [OF assms] players_found) (simp_all add: um_wf_def)
qed

lemma remove_tank_inv: "game_inv g \<Longrightarrow> game_inv (remove_tank n g)"
  by (simp add: game_inv_def same_keys_def remove_tank_def fun_eq_iff um_wf_erase)

lemma broadcast_inv: "game_inv (broadcast msg g) = game_inv g"
  by (simp add: game_inv_def same_keys_def broadcast_def)

lemma events_inv: "game_inv (g\<lparr>game_events := es\<rparr>) = game_inv g"
  by (simp add: game_inv_def same_keys_def)

lemma take_event_inv: "game_inv g \<Longrightarrow> game_inv (take_event g)"
  by (auto simp: take_event_def process_event_def remove_tank_inv broadcast_inv events_inv
      split: list.split)

lemma find_collisions_inv: "game_inv g \<Longrightarrow> game_inv (find_collisions r g)"
  by (simp add: find_collisions_def events_inv)

lemma disconnect_ok:
  assumes "game_inv g"
  shows "\<exists>g'. game_on_disconnect fd g = Inr g' \<and> game_inv g'"
proof (cases "um_find (client_details g) fd")
  case (Some details)
  with assms have "um_count (objectValues details) ''handle''" by (simp add: game_inv_def)
  then obtain h where "GetStr details ''handle'' = Inr h" using GetStr_count by blast
  with Some assms show ?thesis
    by (auto simp: game_on_disconnect_def game_inv_def same_keys_def)
qed (simp add: game_on_disconnect_def assms)

lemma HasObj_GetStr: "HasObj j k t \<Longrightarrow> \<exists>s. GetStr j k = Inr s"
  by (auto simp: HasObj_def GetStr_def split: option.splits)

lemma announce_ok:
  assumes "game_inv g" and "HasObj msg ''announce'' STRING"
  shows "\<exists>g'. announce fd msg g = Inr g' \<and> game_inv g'"
proof (cases "um_count (client_details g) fd")
  case False
  from HasObj_GetStr [OF assms(2)] obtain h where h: "GetStr msg ''announce'' = Inr h" by blast
  obtain c where "(if HasObj msg ''color'' STRING
      then bindR (GetStr msg ''color'') (\<lambda>c. Inr [(''color'', new_string c)]) else Inr []) = Inr c"
    using HasObj_GetStr [of msg "''color''" STRING] by (cases "HasObj msg ''color'' STRING") auto
  with False h assms(1) show ?thesis
    by (auto simp: announce_def game_inv_def same_keys_def um_count_find um_find_Cons)
qed (simp add: announce_def assms)

definition number_ok :: "'d doubles \<Rightarrow> JsonObject \<Rightarrow> string \<Rightarrow> bool" where
  "number_ok r msg k =
     (case GetStr msg k of Inl _ \<Rightarrow> True | Inr s \<Rightarrow> (case stod r s of Inl _ \<Rightarrow> False | Inr _ \<Rightarrow> True))"

definition message_ok :: "'d doubles \<Rightarrow> JsonObject \<Rightarrow> bool" where
  "message_ok r msg \<longleftrightarrow> GetStr msg ''i'' \<noteq> Inr [] \<and> number_ok r msg ''x'' \<and> number_ok r msg ''y''"

lemma new_player_ok: "player_ok (new_player x y)"
  by (simp add: player_ok_def new_player_def um_count_find um_find_Cons GetStr_def new_string_def)

lemma spawn_ok:
  assumes inv: "game_inv g" and "HasObj msg ''x'' STRING" "HasObj msg ''y'' STRING" "message_ok r msg"
  shows "\<exists>g'. spawn r msg n g = Inr g' \<and> game_inv g'"
proof (cases "um_count (players g) n")
  case False
  from assms obtain x y where xy: "GetStr msg ''x'' = Inr x" "GetStr msg ''y'' = Inr y"
    using HasObj_GetStr by blast
  with assms(4) obtain px py where "stod r x = Inr px" "stod r y = Inr py"
    by (auto simp: message_ok_def number_ok_def split: sum.splits)
  moreover from inv False have "\<not> um_count (locations g) n" "\<not> um_count (rotations g) n"
      "\<not> um_count (speeds g) n" "\<not> um_count (turnSpeeds g) n"
    by (simp_all add: game_inv_def same_keys_def)
  ultimately have "spawn r msg n g = Inr (g\<lparr>locations := um_set n (px, py) (locations g),
      rotations := um_set n (lit r 0) (rotations g), speeds := um_set n (lit r 0) (speeds g),
      turnSpeeds := um_set n (lit r 0) (turnSpeeds g),
      players := um_set n (new_player x y) (players g)\<rparr>)" (is "_ = Inr ?g")
    using xy False by (simp add: spawn_def um_emplace_def)
  moreover have "game_inv ?g"
    using inv by (simp add: game_inv_def same_keys_def fun_eq_iff um_wf_set new_player_ok)
  ultimately show ?thesis by blast
qed (simp add: spawn_def inv)

lemma steer_effect:
  assumes inv: "game_inv g" and p: "um_find (players g) n = Some p"
  shows "\<exists>p'. steer n i g = Inr (g\<lparr>players := um_set n p' (players g)\<rparr>)
    \<and> GetStr p' ''i'' = Inr i \<and> um_count (objectValues p') = um_count (objectValues p)"
proof -
  from inv p have "um_count (objectValues p) ''i''" by (auto simp: game_inv_def player_ok_def)
  from assign_member_ok [OF this, of i] p show ?thesis by (auto simp: steer_def)
qed

lemma steer_ok:
  assumes inv: "game_inv g" and i: "i \<noteq> []"
  shows "\<exists>g'. steer n i g = Inr g' \<and> game_inv g'"
proof (cases "um_find (players g) n")
  case (Some p)
  from steer_effect [OF inv Some] obtain p' where p': "GetStr p' ''i'' = Inr i"
      "steer n i g = Inr (g\<lparr>players := um_set n p' (players g)\<rparr>)" (is "_ = Inr ?g")
      "um_count (objectValues p') = um_count (objectValues p)" by blast
  moreover from inv Some have "player_ok p" by (simp add: game_inv_def)
  with p' i have "player_ok p'" by (simp add: player_ok_def)
  then have "game_inv ?g"
    using inv Some by (auto simp: game_inv_def same_keys_def fun_eq_iff um_wf_set um_count_find)
  ultimately show ?thesis by blast
qed (simp add: steer_def inv)

lemma game_message_ok:
  assumes inv: "game_inv g" and ok: "message_ok r msg"
  shows "\<exists>g'. game_message r fd msg g = Inr g' \<and> game_inv g'"
proof -
  consider (steer) "HasObj msg ''handle'' STRING" "HasObj msg ''i'' STRING"
    | (announce) "\<not> (HasObj msg ''handle'' STRING \<and> HasObj msg ''i'' STRING)"
        "HasObj msg ''announce'' STRING"
    | (spawn) "\<not> (HasObj msg ''handle'' STRING \<and> HasObj msg ''i'' STRING)"
        "\<not> HasObj msg ''announce'' STRING"
        "HasObj msg ''handle'' STRING \<and> HasObj msg ''x'' STRING \<and> HasObj msg ''y'' STRING"
    | (junk) "\<not> (HasObj msg ''handle'' STRING \<and> HasObj msg ''i'' STRING)"
        "\<not> HasObj msg ''announce'' STRING"
        "\<not> (HasObj msg ''handle'' STRING \<and> HasObj msg ''x'' STRING \<and> HasObj msg ''y'' STRING)"
    by blast
  then show ?thesis
  proof cases
    case steer
    then obtain h i where "GetStr msg ''handle'' = Inr h" "GetStr msg ''i'' = Inr i"
      using HasObj_GetStr by blast
    moreover from this ok have "i \<noteq> []" by (auto simp: message_ok_def)
    ultimately show ?thesis using steer steer_ok [OF inv] by (simp add: game_message_def)
  next
    case announce
    with announce_ok [OF inv announce(2)] show ?thesis by (auto simp: game_message_def)
  next
    case spawn
    then obtain h where "GetStr msg ''handle'' = Inr h" using HasObj_GetStr by blast
    with spawn spawn_ok [OF inv _ _ ok] show ?thesis by (auto simp: game_message_def)
  next
    case junk
    then have "game_message r fd msg g = Inr g"
      by (simp only: game_message_def if_False)
    with inv show ?thesis by simp
  qed
qed

text \<open>
  A message whose text, up to its first NUL, ends neither in a quotation mark nor in a backslash, and
  which names no empty input and no coordinate that is not a number.
\<close>

fun harmless :: "'d doubles \<Rightarrow> game_input \<Rightarrow> bool" where
  "harmless r (Message fd d) =
     (\<not> dangling_quote (c_str d) \<and> \<not> dangling_escape (c_str d)
       \<and> (case parse_into new_empty (c_str d) of Some (Inr msg) \<Rightarrow> message_ok r msg | _ \<Rightarrow> True))"
| "harmless r _ = True"

definition game_running :: "'d game prog \<Rightarrow> bool" where
  "game_running p \<longleftrightarrow> (\<exists>g. p = ret g \<and> game_inv g)"

interpretation game: event_machine "game_step r" game_running "\<lambda>_. harmless r" for r :: "'d doubles"
proof
  fix p :: "'d game prog" and e
  assume "game_running p" and ok: "harmless r e"
  then obtain g where p: "p = ret g" and inv: "game_inv g" by (auto simp: game_running_def)
  show "game_running (game_step r p e)"
  proof (cases e)
    case (Message fd d)
    with ok parse_into_proper [OF c_str_no_NUL, of d new_empty] obtain msg where
      msg: "parse_into new_empty (c_str d) = Some (Inr msg)" "message_ok r msg"
      by (auto simp: ret_def)
    from game_message_ok [OF inv msg(2)] obtain g' where "game_message r fd msg g = Inr g'" "game_inv g'"
      by blast
    with Message p msg(1) show ?thesis by (simp add: game_on_read_def game_running_def)
  next
    case (Left fd)
    from disconnect_ok [OF inv, of fd] obtain g' where "game_on_disconnect fd g = Inr g'" "game_inv g'"
      by blast
    with Left p show ?thesis by (simp add: game_running_def)
  next
    case Move
    from move_all_ok [OF inv, of r] obtain g' where "move_all r g = Inr g'" "game_inv g'" by blast
    with Move p show ?thesis by (simp add: game_running_def)
  qed (use p inv in \<open>simp_all add: game_running_def take_event_inv find_collisions_inv
        broadcast_state_def broadcast_inv\<close>)
qed


section \<open>Everyone is destroyed\<close>

text \<open>What IEEE numbers do with a value that is none.\<close>

definition ieee_nan :: "'d doubles \<Rightarrow> bool" where
  "ieee_nan r \<longleftrightarrow> isnan r (quiet_NaN r)
     \<and> (\<forall>x y. isnan r x \<or> isnan r y \<longrightarrow> isnan r (d_add r x y) \<and> isnan r (d_sub r x y)
          \<and> isnan r (d_mul r x y) \<and> \<not> d_less r x y)"

lemma extreme_nan:
  assumes "isnan r (quiet_NaN r)" and "list_all (isnan r) ps"
  shows "isnan r (least r ps)" and "isnan r (greatest r ps)"
proof -
  have "list_all (isnan r) ps \<Longrightarrow> isnan r m \<Longrightarrow>
      isnan r (foldl (\<lambda>m p. if isnan r m \<or> d_less r p m then p else m) m ps)
      \<and> isnan r (foldl (\<lambda>m p. if isnan r m \<or> d_less r m p then p else m) m ps)" for m
    by (induction ps arbitrary: m) auto
  with assms show "isnan r (least r ps)" and "isnan r (greatest r ps)"
    by (simp_all add: least_def greatest_def)
qed

definition nowhere :: "'d doubles \<Rightarrow> 'd \<times> 'd \<Rightarrow> bool" where
  "nowhere r pos = (isnan r (fst pos) \<or> isnan r (snd pos))"

lemma project_nan:
  assumes "ieee_nan r" and "nowhere r pos"
  shows "list_all (isnan r) (map (project r normal) (edges_at r pos))"
  using assms by (auto simp: ieee_nan_def nowhere_def list_all_iff edges_at_def project_def tank_shape_def)

lemma nowhere_collides:
  assumes nan: "ieee_nan r" and "nowhere r a \<or> nowhere r b"
  shows "collide r a b"
proof -
  from nan have q: "isnan r (quiet_NaN r)" by (simp add: ieee_nan_def)
  have "\<not> separated r (edges_at r a) (edges_at r b) i" for i
  proof -
    let ?n = "normal_of r (edges_at r a) i"
    from assms(2) have "list_all (isnan r) (map (project r ?n) (edges_at r a))
        \<or> list_all (isnan r) (map (project r ?n) (edges_at r b))"
      using project_nan [OF nan] by blast
    then show ?thesis
      using extreme_nan [OF q] nan unfolding separated_def ieee_nan_def Let_def by blast
  qed
  then show ?thesis by (simp add: collide_def list_ex_iff Let_def)
qed

lemma collision_event:
  assumes "(a, pos_a) \<in> set ls" and "(b, pos_b) \<in> set ls" and "a \<noteq> b" and "collide r pos_a pos_b"
  shows "\<lparr>ev_type = 2, ev_player = a\<rparr> \<in> set (collisions r ls)"
proof -
  let ?e = "\<lparr>ev_type = 2, ev_player = a\<rparr> :: game_event"
  have "?e \<in> set (hit r a pos_a (b, pos_b))" using assms(3,4) by simp
  then have "?e \<in> set (concat (map (hit r a pos_a) ls))"
    unfolding set_concat set_map by (rule UN_I [OF imageI [OF assms(2)]])
  then have "?e \<in> set ((\<lambda>(a, pos_a). concat (map (hit r a pos_a) ls)) (a, pos_a))"
    by (simp only: prod.case)
  then show ?thesis
    unfolding collisions_def set_concat [of "map _ ls"] set_map by (rule UN_I [OF imageI [OF assms(1)]])
qed

text \<open>Every tank in a game with two of them collides when one is nowhere.\<close>

lemma all_collide:
  assumes nan: "ieee_nan r" and n: "(n, pos) \<in> set ls" "nowhere r pos"
    and b: "(b, pos_b) \<in> set ls" "b \<noteq> n" and a: "(a, pos_a) \<in> set ls"
  shows "\<lparr>ev_type = 2, ev_player = a\<rparr> \<in> set (collisions r ls)"
proof (cases "a = n")
  case True
  from nowhere_collides [OF nan] n(2) have "collide r pos pos_b" by blast
  from collision_event [OF n(1) b(1) _ this] b(2) True show ?thesis by auto
next
  case False
  from nowhere_collides [OF nan] n(2) have "collide r pos_a pos" by blast
  from collision_event [OF a n(1) False this] show ?thesis .
qed

lemma process_event_count:
  "um_count (players (process_event e g)) n \<Longrightarrow>
    um_count (players g) n \<and> (ev_type e = 2 \<longrightarrow> ev_player e \<noteq> n)"
  by (auto simp: process_event_def remove_tank_def broadcast_def split: if_splits)

lemma process_all_count:
  "um_count (players (fold process_event es g)) n \<Longrightarrow>
    um_count (players g) n \<and> (\<forall>e \<in> set es. ev_type e = 2 \<longrightarrow> ev_player e \<noteq> n)"
proof (induction es arbitrary: g)
  case (Cons e es)
  then have "um_count (players (fold process_event es (process_event e g))) n" by simp
  from Cons.IH [OF this] process_event_count [of e g n] show ?case by auto
qed simp

lemma process_event_queue:
  "process_event e (g\<lparr>game_events := es\<rparr>) = (process_event e g)\<lparr>game_events := es\<rparr>"
  by (simp add: process_event_def remove_tank_def broadcast_def)

lemma take_all_events:
  "run_steps (game_step r) (ret (g\<lparr>game_events := es\<rparr>)) (replicate (length es) Take_event) =
    ret ((fold process_event es g)\<lparr>game_events := []\<rparr>)"
  by (induction es arbitrary: g) (simp_all add: take_event_def process_event_queue)

definition game_request :: "string \<Rightarrow> JsonObject \<Rightarrow> bool" where
  "game_request s msg = (parse_into new_empty (c_str s) = ret msg)"

section \<open>Exact numbers\<close>

text \<open>
  Rational numbers with a value that is none, for which an angle is always zero: the numbers that
  are concrete below.
\<close>

definition lift2 :: "(rat \<Rightarrow> rat \<Rightarrow> rat) \<Rightarrow> rat option \<Rightarrow> rat option \<Rightarrow> rat option" where
  "lift2 f x y = (case (x, y) of (Some a, Some b) \<Rightarrow> Some (f a b) | _ \<Rightarrow> None)"

definition lift_rel :: "(rat \<Rightarrow> rat \<Rightarrow> bool) \<Rightarrow> rat option \<Rightarrow> rat option \<Rightarrow> bool" where
  "lift_rel f x y = (case (x, y) of (Some a, Some b) \<Rightarrow> f a b | _ \<Rightarrow> False)"

lemma lift_simps [simp]:
  "lift2 f (Some a) (Some b) = Some (f a b)" "lift2 f None y = None" "lift2 f x None = None"
  "lift_rel R (Some a) (Some b) = R a b" "lift_rel R None y = False" "lift_rel R x None = False"
  by (simp_all add: lift2_def lift_rel_def split: option.split)

definition exact :: "rat option doubles" where
  "exact = \<lparr>lit = Some, d_add = lift2 (+), d_sub = lift2 (-), d_mul = lift2 (*),
     d_less = lift_rel (<), d_le = lift_rel (\<le>), abs_of = map_option abs, cos_of = (\<lambda>_. Some 1),
     sin_of = (\<lambda>_. Some 0), isnan = (\<lambda>x. x = None), quiet_NaN = None, d_to_string = (\<lambda>_. ''0.0''),
     stod = (\<lambda>s. if s = ''nan'' then Inr None else bindR (stoi s) (\<lambda>k. Inr (Some (of_int k))))\<rparr>"

lemma exact_nan: "ieee_nan exact"
  by (auto simp: ieee_nan_def exact_def)

lemma exact_extremes:
  "least exact (map Some (a # as)) = Some (fold min as a)"
  "greatest exact (map Some (a # as)) = Some (fold max as a)"
proof -
  have "foldl (\<lambda>m p. if isnan exact m \<or> d_less exact p m then p else m) (Some a) (map Some as) =
      Some (fold min as a)" for a
    by (induction as arbitrary: a) (auto simp: exact_def min_def)
  then show "least exact (map Some (a # as)) = Some (fold min as a)"
    by (simp add: least_def) (simp add: exact_def)
  have "foldl (\<lambda>m p. if isnan exact m \<or> d_less exact m p then p else m) (Some a) (map Some as) =
      Some (fold max as a)" for a
    by (induction as arbitrary: a) (auto simp: exact_def max_def)
  then show "greatest exact (map Some (a # as)) = Some (fold max as a)"
    by (simp add: greatest_def) (simp add: exact_def)
qed

lemma exact_edges:
  "edges_at exact (Some x, Some y) = map (\<lambda>(dx, dy). (Some (x + dx), Some (y + dy))) tank_shape"
  by (simp add: edges_at_def exact_def)

definition inner :: "rat \<times> rat \<Rightarrow> rat \<times> rat \<Rightarrow> rat" where
  "inner n p = fst n * fst p + snd n * snd p"

lemma exact_project: "project exact (Some a, Some b) (Some x, Some y) = Some (inner (a, b) (x, y))"
  by (simp add: project_def exact_def inner_def)

lemma exact_projections:
  "map (project exact (Some a, Some b)) (edges_at exact (Some x, Some y)) =
    map Some (map ((+) (inner (a, b) (x, y))) (map (inner (a, b)) tank_shape))"
  by (simp add: exact_edges exact_project tank_shape_def) (simp add: inner_def algebra_simps)

lemma shifted_extremes:
  "fold min (map ((+) c) as) (c + a) = c + fold min as (a :: rat)"
  "fold max (map ((+) c) as) (c + a) = c + fold max as (a :: rat)"
proof -
  show "fold min (map ((+) c) as) (c + a) = c + fold min as a"
    by (induction as arbitrary: a) (simp_all add: min_add_distrib_right [symmetric])
  show "fold max (map ((+) c) as) (c + a) = c + fold max as a"
    by (induction as arbitrary: a) (simp_all add: max_add_distrib_right [symmetric])
qed

definition low :: "rat \<times> rat \<Rightarrow> rat" where
  "low n = fold min (map (inner n) (tl tank_shape)) (inner n (hd tank_shape))"

definition high :: "rat \<times> rat \<Rightarrow> rat" where
  "high n = fold max (map (inner n) (tl tank_shape)) (inner n (hd tank_shape))"

lemma exact_range:
  "least exact (map (project exact (Some a, Some b)) (edges_at exact (Some x, Some y))) =
    Some (inner (a, b) (x, y) + low (a, b))"
  "greatest exact (map (project exact (Some a, Some b)) (edges_at exact (Some x, Some y))) =
    Some (inner (a, b) (x, y) + high (a, b))"
proof -
  have t: "tank_shape = hd tank_shape # tl tank_shape" by (simp add: tank_shape_def)
  have "map ((+) c) (map f tank_shape) = (c + f (hd tank_shape)) # map ((+) c) (map f (tl tank_shape))"
    for c :: rat and f by (subst t) simp
  then show "least exact (map (project exact (Some a, Some b)) (edges_at exact (Some x, Some y))) =
      Some (inner (a, b) (x, y) + low (a, b))"
    and "greatest exact (map (project exact (Some a, Some b)) (edges_at exact (Some x, Some y))) =
      Some (inner (a, b) (x, y) + high (a, b))"
    unfolding exact_projections low_def high_def
    by (simp_all only: exact_extremes shifted_extremes)
qed

lemma exact_separated:
  assumes "normal_of exact (edges_at exact (Some x1, Some y1)) i = (Some a, Some b)"
  shows "separated exact (edges_at exact (Some x1, Some y1)) (edges_at exact (Some x2, Some y2)) i \<longleftrightarrow>
    high (a, b) - low (a, b) < \<bar>inner (a, b) (x1 - x2, y1 - y2)\<bar>"
proof -
  have d: "d_less exact = lift_rel (<)" by (simp add: exact_def)
  have "inner (a, b) (x1 - x2, y1 - y2) = inner (a, b) (x1, y1) - inner (a, b) (x2, y2)"
    by (simp add: inner_def algebra_simps)
  moreover have "low (a, b) \<le> high (a, b)"
    by (simp add: low_def high_def tank_shape_def min_def max_def)
  ultimately show ?thesis
    unfolding separated_def assms Let_def exact_range d lift_simps by linarith
qed

lemma exact_normals:
  "normal_of exact (edges_at exact (Some x, Some y)) 0 = (Some 0, Some (- 50))"
  "normal_of exact (edges_at exact (Some x, Some y)) 1 = (Some 30, Some 0)"
  "normal_of exact (edges_at exact (Some x, Some y)) 2 = (Some 0, Some 40)"
  "normal_of exact (edges_at exact (Some x, Some y)) 3 = (Some (- 30), Some 10)"
  by (simp_all add: exact_edges tank_shape_def normal_of_def) (simp_all add: exact_def)

lemma exact_widths:
  "high (0, - 50) - low (0, - 50) = 1500" "high (30, 0) - low (30, 0) = 1500"
  "high (0, 40) - low (0, 40) = 1200" "high (- 30, 10) - low (- 30, 10) = 1500"
  by (simp_all add: high_def low_def tank_shape_def inner_def)

text \<open>
  C25. With exact numbers the search for a separating axis finds a collision exactly when the shapes
  meet: they are at most 50 apart in one direction, 30 in the other, and 150 across the slanted
  side, which the corner that is not at \<open>(-25, 15)\<close> leaves.
\<close>

theorem collisions_are_overlaps:
  "collide exact (Some x1, Some y1) (Some x2, Some y2) \<longleftrightarrow>
    \<bar>x1 - x2\<bar> \<le> 50 \<and> \<bar>y1 - y2\<bar> \<le> 30 \<and> \<bar>(y1 - y2) - 3 * (x1 - x2)\<bar> \<le> 150"
proof -
  note sep = exact_separated [OF exact_normals(1)] exact_separated [OF exact_normals(2)]
    exact_separated [OF exact_normals(3)] exact_separated [OF exact_normals(4)]
  have four: "[0..<length (edges_at exact (Some x1, Some y1))] = [0, 1, 2, 3]"
    by (simp add: edges_at_def tank_shape_def upt_rec)
  have inners: "\<bar>inner (0, - 50) (dx, dy)\<bar> = 50 * \<bar>dy\<bar>" "\<bar>inner (30, 0) (dx, dy)\<bar> = 30 * \<bar>dx\<bar>"
    "\<bar>inner (0, 40) (dx, dy)\<bar> = 40 * \<bar>dy\<bar>" "\<bar>inner (- 30, 10) (dx, dy)\<bar> = 10 * \<bar>dy - 3 * dx\<bar>" for dx dy
    by (simp_all add: inner_def abs_mult) (simp add: abs_if)
  show ?thesis
    unfolding collide_def Let_def four
    by (simp add: sep [unfolded exact_widths inners] not_less del: One_nat_def) linarith
qed

section \<open>Samples\<close>

lemma plain_request: "plain kvs \<Longrightarrow> game_request (text_of kvs) (message_of kvs)"
  by (simp add: game_request_def parse_plain)


definition spawn_at :: "string \<Rightarrow> (string \<times> string) list" where
  "spawn_at x = [(''handle'', ''a''), (''x'', x), (''y'', ''7'')]"

definition one_tank :: "rat option game" where
  "one_tank = \<lparr>client_details = [], locations = [(''btank'', Some 1, Some 2)],
     rotations = [(''btank'', Some 0)], speeds = [(''btank'', Some 0)],
     turnSpeeds = [(''btank'', Some 0)], players = [(''btank'', new_player ''1'' ''2'')],
     game_events = [], game_sent = []\<rparr>"

lemma one_tank_inv: "game_inv one_tank"
  using new_player_ok [of "''1''" "''2''"]
  by (auto simp: game_inv_def same_keys_def one_tank_def um_wf_def fun_eq_iff um_count_find
      um_find_Cons split: if_splits)

section \<open>Claims\<close>




text \<open>
  An empty input stops the game: after it, from whichever client, the next movement of the tank
  that it names reads behind the end of the string.
\<close>

theorem empty_input_stops_game:
  assumes "game_inv g" and "game_request s msg" and "HasObj msg ''handle'' STRING"
    and "HasObj msg ''i'' STRING" and "GetStr msg ''i'' = Inr []" and "GetStr msg ''handle'' = Inr h"
    and "um_count (players g) (h @ ''tank'')"
  shows "run_steps (game_step r) (ret g) [Message fd s, Move] = fail OutOfBounds"
proof -
  let ?n = "h @ ''tank''"
  from assms(7) obtain p where p: "um_find (players g) ?n = Some p" by (auto simp: um_count_find)
  from steer_effect [OF assms(1) p, of "[]"] obtain p' where p': "GetStr p' ''i'' = Inr []"
      "steer ?n [] g = Inr (g\<lparr>players := um_set ?n p' (players g)\<rparr>)" (is "_ = Inr ?g")
    by blast
  have "game_step r (ret g) (Message fd s) = ret ?g"
    using assms p'(2) by (simp add: game_request_def game_on_read_def game_message_def)
  moreover have "move_all r ?g = Inl OutOfBounds"
    unfolding move_all_def
  proof (rule move_tanks_stuck)
    show "same_keys ?g"
      using assms(1,7) by (auto simp: game_inv_def same_keys_def fun_eq_iff)
    have wf: "um_wf (players ?g)" using assms(1) by (simp add: game_inv_def um_wf_set)
    then show "distinct (map fst (players ?g))" by (simp add: um_wf_def)
    show found: "\<forall>(n, p) \<in> set (players ?g). um_find (players ?g) n = Some p"
      by (rule players_found [OF wf])
    show "\<forall>(n, p) \<in> set (players ?g). player_ok p \<or> GetStr p ''i'' = Inr []"
      using found p'(1) assms(1) by (auto simp: game_inv_def split: if_splits)
    have "um_find (players ?g) ?n = Some p'" by simp
    then have "(?n, p') \<in> set (players ?g)" unfolding um_find_def by (rule map_of_SomeD)
    with p'(1) show "\<exists>(n, p) \<in> set (players ?g). GetStr p ''i'' = Inr []" by blast
  qed
  ultimately show ?thesis by simp
qed

lemma empty_input_stops_game_witness:
  "run_steps (game_step exact) (ret one_tank)
     [Message 9 (text_of [(''handle'', ''b''), (''i'', [])]), Move] = fail OutOfBounds"
  by (rule empty_input_stops_game [OF one_tank_inv plain_request, where h = "''b''"]; code_simp)

text \<open>
  A tank at a coordinate that is not a number, which \<open>stod\<close> reads from \<open>nan\<close>, destroys the game:
  no axis separates it from any other, and after the next search for collisions and its events
  there is no tank left.
\<close>

theorem not_a_number_destroys_all:
  assumes "ieee_nan r" and "game_inv g" and "players g \<noteq> []" and "game_request s msg"
    and "message_ok r msg" and "HasObj msg ''handle'' STRING" and "HasObj msg ''x'' STRING"
    and "HasObj msg ''y'' STRING" and "\<not> HasObj msg ''i'' STRING" and "\<not> HasObj msg ''announce'' STRING"
    and "GetStr msg ''handle'' = Inr h" and "\<not> um_count (players g) (h @ ''tank'')"
    and "GetStr msg ''x'' = Inr x" and "stod r x = Inr v" and "isnan r v"
  shows "\<exists>k g'. run_steps (game_step r) (ret g) ([Message fd s, Collide] @ replicate k Take_event) = ret g'
    \<and> players g' = []"
proof -
  let ?n = "h @ ''tank''"
  from assms(8) obtain y where y: "GetStr msg ''y'' = Inr y" using HasObj_GetStr by blast
  with assms(5) obtain w where w: "stod r y = Inr w"
    by (auto simp: message_ok_def number_ok_def split: sum.splits)
  have absent: "\<not> um_count (locations g) ?n"
    using assms(2,12) by (simp add: game_inv_def same_keys_def)
  obtain g1 where g1: "spawn r msg ?n g = Inr g1" "game_inv g1"
    using spawn_ok [OF assms(2,7,8,5)] by blast
  have l1: "locations g1 = um_set ?n (v, w) (locations g)"
    and p1: "players g1 = um_set ?n (new_player x y) (players g)"
    using g1(1) assms(12-14) absent y w by (auto simp: spawn_def um_emplace_def)
  have m: "game_step r (ret g) (Message fd s) = ret g1"
    using assms(4,6-11) g1(1) by (simp add: game_request_def game_on_read_def game_message_def)
  let ?es = "game_events g1 @ collisions r (locations g1)"
  let ?g' = "(fold process_event ?es g1)\<lparr>game_events := []\<rparr>"
  have "run_steps (game_step r) (ret g) ([Message fd s, Collide] @ replicate (length ?es) Take_event) =
      run_steps (game_step r) (ret (g1\<lparr>game_events := ?es\<rparr>)) (replicate (length ?es) Take_event)"
    using m by (simp add: find_collisions_def)
  also have "\<dots> = ret ?g'" by (rule take_all_events)
  finally have run: "run_steps (game_step r) (ret g)
      ([Message fd s, Collide] @ replicate (length ?es) Take_event) = ret ?g'" .
  have at: "\<exists>pos. (a, pos) \<in> set (locations g1)" if "um_count (players g1) a" for a
  proof -
    from that g1(2) have "um_count (locations g1) a" by (simp add: game_inv_def same_keys_def)
    then obtain pos where "um_find (locations g1) a = Some pos" by (auto simp: um_count_find)
    then have "(a, pos) \<in> set (locations g1)" unfolding um_find_def by (rule map_of_SomeD)
    then show ?thesis by blast
  qed
  have "\<not> um_count (players ?g') a" for a
  proof
    assume "um_count (players ?g') a"
    then have "um_count (players (fold process_event ?es g1)) a" by simp
    note left = process_all_count [OF this]
    with at obtain pos_a where a: "(a, pos_a) \<in> set (locations g1)" by blast
    from assms(3) obtain b p where "(b, p) \<in> set (players g)" by (cases "players g") auto
    then have cb: "um_count (players g) b" by (force simp: um_count_def map_of_eq_None_iff)
    with assms(12) have ne: "b \<noteq> ?n" by auto
    from cb p1 at [of b] obtain pos_b where b: "(b, pos_b) \<in> set (locations g1)" by auto
    have "um_find (locations g1) ?n = Some (v, w)" using l1 by simp
    then have n: "(?n, (v, w)) \<in> set (locations g1)" unfolding um_find_def by (rule map_of_SomeD)
    have "nowhere r (v, w)" using assms(15) by (simp add: nowhere_def)
    from all_collide [OF assms(1) n this b ne a]
    have "\<lparr>ev_type = 2, ev_player = a\<rparr> \<in> set ?es" by simp
    from bspec [OF conjunct2 [OF left] this] show False by simp
  qed
  then have "map_of (players ?g') = (\<lambda>_. None)" by (simp add: um_count_def fun_eq_iff)
  then have "players ?g' = []" by (simp only: map_of_eq_empty_iff)
  with run show ?thesis by blast
qed

lemma not_a_number_destroys_all_witness:
  "\<exists>k g'. run_steps (game_step exact) (ret one_tank)
     ([Message 9 (text_of (spawn_at ''nan'')), Collide] @ replicate k Take_event) = ret g'
     \<and> players g' = []"
  by (rule not_a_number_destroys_all [OF exact_nan one_tank_inv _ plain_request, where h = "''a''"
        and x = "''nan''" and v = None]; code_simp)

text \<open>
  Any client steers any tank: a message with the handle of another player sets the input that
  moves that player's tank, whatever connection it comes from and announced or not.
\<close>

theorem anyone_steers:
  assumes "game_inv g" and "game_request s msg" and "HasObj msg ''handle'' STRING"
    and "HasObj msg ''i'' STRING" and "GetStr msg ''handle'' = Inr h" and "GetStr msg ''i'' = Inr i"
    and "um_count (players g) (h @ ''tank'')"
  shows "\<exists>g' p. game_step r (ret g) (Message fd s) = ret g'
    \<and> um_find (players g') (h @ ''tank'') = Some p \<and> GetStr p ''i'' = Inr i"
proof -
  let ?n = "h @ ''tank''"
  from assms(7) obtain p where p: "um_find (players g) ?n = Some p" by (auto simp: um_count_find)
  from steer_effect [OF assms(1) p, of i] assms(2-6) show ?thesis
    by (auto simp: game_request_def game_on_read_def game_message_def)
qed

lemma anyone_steers_witness:
  "\<exists>g' p. game_step exact (ret one_tank) (Message 9 (text_of [(''handle'', ''b''), (''i'', ''fr'')])) = ret g'
    \<and> um_find (players g') ''btank'' = Some p \<and> GetStr p ''i'' = Inr ''fr''"
proof -
  have "\<exists>g' p. game_step exact (ret one_tank) (Message 9 (text_of [(''handle'', ''b''), (''i'', ''fr'')])) = ret g'
      \<and> um_find (players g') (''b'' @ ''tank'') = Some p \<and> GetStr p ''i'' = Inr ''fr''"
    by (rule anyone_steers [OF one_tank_inv plain_request]; code_simp)
  then show ?thesis by simp
qed

end
