(* ===== verification/Provider.thy ===== *)
theory Provider
  imports Jph2 Symmetric
begin

text \<open>
  The database service behind the sealed channel (\<open>examples/pgsql-provider.cpp\<close>) and the text of
  the requests that the web application \<open>examples/bwackwat.cpp\<close> sends to it.  The service is
  written against models that still have access flags and insert a list of values; what inserts
  such a list is a parameter here, as are the database, the password hash and the cipher.
\<close>

section \<open>Tables\<close>

datatype access_flag = ACCESS_USER | ACCESS_ADMIN

record provider_table =
  pt_model :: PgSqlModel
  access_flags :: "access_flag list"

definition provider_users :: provider_table where
  "provider_users = \<lparr>pt_model = \<lparr>num_insert_values = 5, table = ''users'',
     cols = [auto_column ''id'', column ''username'', \<lparr>col_name = ''password'', flags = COL_HIDDEN\<rparr>,
       column ''email'', column ''first_name'', column ''last_name'', auto_column ''created_on'']\<rparr>,
     access_flags = [ACCESS_ADMIN]\<rparr>"

definition provider_poi :: provider_table where
  "provider_poi = \<lparr>pt_model = \<lparr>num_insert_values = 3, table = ''poi'',
     cols = [auto_column ''id'', column ''owner_id'', column ''label'', column ''description'',
       column ''location'', auto_column ''created_on'']\<rparr>,
     access_flags = [ACCESS_USER]\<rparr>"

definition provider_posts :: provider_table where
  "provider_posts = \<lparr>pt_model = \<lparr>num_insert_values = 2, table = ''posts'',
     cols = [auto_column ''id'', column ''owner_id'', column ''title'', column ''content'',
       auto_column ''created_on'']\<rparr>,
     access_flags = [ACCESS_USER]\<rparr>"

lemma provider_models_built:
  "new_model ''users'' (cols (pt_model provider_users)) = Inr (pt_model provider_users)"
  "new_model ''poi'' (cols (pt_model provider_poi)) = Inr (pt_model provider_poi)"
  "new_model ''posts'' (cols (pt_model provider_posts)) = Inr (pt_model provider_posts)"
  by code_simp+

definition db_tables :: "(string, provider_table) umap" where
  "db_tables = [(''users'', provider_users), (''poi'', provider_poi), (''posts'', provider_posts)]"

text \<open>What the service is given; the last two are the password hash and the name of the admin.\<close>

record 'db service =
  quotes :: "string \<Rightarrow> string"
  executes :: "'db executor"
  insert_list :: "PgSqlModel \<Rightarrow> JsonObject list \<Rightarrow> ('db, JsonObject) action"
  encryptor :: crypto
  hash_value :: "string \<Rightarrow> string"
  admin_name :: string

section \<open>Tokens\<close>

text \<open>\<open>catch(const std::exception&)\<close> takes an exception, not a pointer to one and not a fault.\<close>

fun std_exception :: "fault \<Rightarrow> bool" where
  "std_exception OutOfRange = True"
| "std_exception InvalidArgument = True"
| "std_exception (RuntimeError _) = True"
| "std_exception _ = False"

definition no_access :: JsonObject where
  "no_access = Error ''You cannot gain access to this.''"

definition decrypt_token :: "crypto \<Rightarrow> string \<Rightarrow> JsonObject prog" where
  "decrypt_token cr t = bindP (lift_res (decrypt cr t)) (\<lambda>s. parse_into new_empty (c_str s))"

definition given_token :: "crypto \<Rightarrow> JsonObject \<Rightarrow> JsonObject prog" where
  "given_token cr request =
     bindP (lift_res (member_of request ''token'')) (\<lambda>t. decrypt_token cr (stringValue t))"

definition required_token :: "crypto \<Rightarrow> JsonObject \<Rightarrow> JsonObject prog" where
  "required_token cr request = bindP (lift_res (GetStr request ''token'')) (decrypt_token cr)"

text \<open>
  What the service does with a token, whose text may make the parser loop.  \<open>('db, 'a) action\<close>
  returns, so that the token is read first.
\<close>

definition with_token ::
  "JsonObject prog \<Rightarrow> (JsonObject res \<Rightarrow> ('db, 'a) action) \<Rightarrow> 'db \<Rightarrow> ('a res \<times> 'db) option" where
  "with_token token act db = map_option (\<lambda>r. act r db) token"

text \<open>
  The check for the admin: an exception leaves an empty token and an error behind, and the token is
  looked at in any case.  The result is the error, if there is one.
\<close>

definition admin_check :: "string \<Rightarrow> JsonObject res \<Rightarrow> JsonObject option res" where
  "admin_check admin read =
     bindR (case read of
         Inr token \<Rightarrow> Inr (token, None)
       | Inl e \<Rightarrow> if std_exception e then Inr (new_empty, Some no_access) else Inl e)
       (\<lambda>(token, response). bindR (member_of token ''username'') (\<lambda>u.
          Inr (if stringValue u \<noteq> admin then Some no_access else response)))"

definition or_else :: "JsonObject option \<Rightarrow> ('db, JsonObject) action \<Rightarrow> ('db, JsonObject) action" where
  "or_else response act = (case response of Some r \<Rightarrow> retD r | None \<Rightarrow> act)"

definition catchD :: "('db, 'a) action \<Rightarrow> 'a \<Rightarrow> ('db, 'a) action" where
  "catchD act r db =
     (case act db of
        (Inl e, db) \<Rightarrow> (if std_exception e then Inr r else Inl e, db)
      | (Inr x, db) \<Rightarrow> (Inr x, db))"

section \<open>Operations\<close>

definition all_op ::
  "'db service \<Rightarrow> provider_table option \<Rightarrow> JsonObject \<Rightarrow> 'db \<Rightarrow> (JsonObject res \<times> 'db) option" where
  "all_op sv tbl request db =
     (case tbl of None \<Rightarrow> Some (Inl NullDeref, db)
      | Some tbl \<Rightarrow>
          if access_flags tbl \<noteq> [] then
            with_token (given_token (encryptor sv) request) (\<lambda>read.
              bindD (liftD (admin_check (admin_name sv) read)) (\<lambda>response.
                or_else response (All (executes sv) (pt_model tbl)))) db
          else Some (All (executes sv) (pt_model tbl) db))"

definition where_key :: "'db service \<Rightarrow> provider_table \<Rightarrow> JsonObject \<Rightarrow> ('db, JsonObject) action" where
  "where_key sv tbl request =
     bindD (liftD (GetStr request ''key'')) (\<lambda>k.
     bindD (liftD (GetStr request ''value'')) (\<lambda>v.
       Where (quotes sv) (executes sv) (pt_model tbl) k v))"

text \<open>By the name of a user: the rows of the first user that is found, who has to be there.\<close>

definition where_owner ::
  "'db service \<Rightarrow> provider_table \<Rightarrow> JsonObject \<Rightarrow> ('db, JsonObject) action" where
  "where_owner sv tbl request =
     bindD (liftD (GetStr request ''value'')) (\<lambda>v.
     bindD (Where (quotes sv) (executes sv) (pt_model provider_users) ''username'' v) (\<lambda>user.
       if um_count (objectValues user) ''error'' then retD user
       else bindD (liftD (bindR (first_item user) (\<lambda>u. GetStr u ''id''))) (\<lambda>i.
              Where (quotes sv) (executes sv) (pt_model tbl) ''owner_id'' i)))"

definition where_op ::
  "'db service \<Rightarrow> provider_table option \<Rightarrow> JsonObject \<Rightarrow> 'db \<Rightarrow> (JsonObject res \<times> 'db) option" where
  "where_op sv tbl request db =
     (if HasObj request ''key'' STRING \<and> HasObj request ''value'' STRING then
        (case tbl of None \<Rightarrow> Some (Inl NullDeref, db)
         | Some tbl \<Rightarrow>
             if ACCESS_ADMIN \<in> set (access_flags tbl) then
               with_token (given_token (encryptor sv) request) (\<lambda>read.
                 bindD (liftD (admin_check (admin_name sv) read)) (\<lambda>response.
                   or_else response (where_key sv tbl request))) db
             else if ACCESS_USER \<in> set (access_flags tbl) \<and> GetStr request ''key'' = Inr ''username'' then
               Some (where_owner sv tbl request db)
             else Some (where_key sv tbl request db))
      else Some (Inr (Error (''Missing '' @ [DQ] @ ''key'' @ [DQ] @ '' and/or '' @ [DQ] @ ''value''
        @ [DQ] @ '' JSON strings.'')), db))"

text \<open>The owner of a new row is the user of the token, put before the given values.\<close>

definition owned_values :: "JsonObject res \<Rightarrow> JsonObject list \<Rightarrow> (JsonObject + JsonObject list) res" where
  "owned_values read values =
     (case bindR read (\<lambda>token. GetStr token ''id'') of
        Inr i \<Rightarrow> Inr (Inr (new_string i # values))
      | Inl e \<Rightarrow> if std_exception e then Inr (Inl no_access) else Inl e)"

definition insert_values ::
  "'db service \<Rightarrow> provider_table \<Rightarrow> JsonObject list \<Rightarrow> ('db, JsonObject) action" where
  "insert_values sv tbl values =
     (if HasColumn (pt_model tbl) ''password'' then
        (if 1 < length values then
           insert_list sv (pt_model tbl)
             (values[1 := set_stringValue (hash_value sv (stringValue (values ! 1))) (values ! 1)])
         else liftD (Inl OutOfBounds))
      else insert_list sv (pt_model tbl) values)"

definition insert_op ::
  "'db service \<Rightarrow> provider_table option \<Rightarrow> JsonObject \<Rightarrow> 'db \<Rightarrow> (JsonObject res \<times> 'db) option" where
  "insert_op sv tbl request db =
     (if HasObj request ''values'' ARRAY then
        (case (tbl, um_find (objectValues request) ''values'') of
           (Some tbl, Some vs) \<Rightarrow>
             if length (arrayValues vs) \<noteq> num_insert_values (pt_model tbl) then
               Some (Inr (Error ''Incorrect number of values''), db)
             else if ACCESS_USER \<in> set (access_flags tbl) then
               with_token (required_token (encryptor sv) request) (\<lambda>read.
                 bindD (liftD (owned_values read (arrayValues vs))) (\<lambda>r.
                   case r of Inl e \<Rightarrow> retD e | Inr values \<Rightarrow> insert_values sv tbl values)) db
             else Some (insert_values sv tbl (arrayValues vs) db)
         | _ \<Rightarrow> Some (Inl NullDeref, db))
      else Some (Inr (Error (''Missing '' @ [DQ] @ ''values'' @ [DQ] @ '' JSON array.'')), db))"

text \<open>Whether the token allows the update: it is the owner's, or the user's own, or the admin's.\<close>

definition owner_check ::
  "'db service \<Rightarrow> provider_table \<Rightarrow> string \<Rightarrow> JsonObject \<Rightarrow> ('db, bool) action" where
  "owner_check sv tbl i token =
     bindD (liftD (GetStr token ''id'')) (\<lambda>user.
     bindD (if ACCESS_USER \<in> set (access_flags tbl)
            then IsOwner (quotes sv) (executes sv) (pt_model tbl) i user
            else retD (user = i)) (\<lambda>own.
       if own then retD True
       else bindD (liftD (member_of token ''username'')) (\<lambda>u.
              retD (stringValue u = admin_name sv))))"

definition update_check ::
  "'db service \<Rightarrow> provider_table \<Rightarrow> string \<Rightarrow> JsonObject res \<Rightarrow> ('db, JsonObject option) action" where
  "update_check sv tbl i read =
     catchD (bindD (liftD read) (\<lambda>token. bindD (owner_check sv tbl i token) (\<lambda>ok.
         retD (if ok then None else Some no_access))))
       (Some no_access)"

definition update_op ::
  "'db service \<Rightarrow> provider_table option \<Rightarrow> JsonObject \<Rightarrow> 'db \<Rightarrow> (JsonObject res \<times> 'db) option" where
  "update_op sv tbl request db =
     (case (GetStr request ''id'', um_find (objectValues request) ''values'') of
        (Inr i, Some vs) \<Rightarrow>
          if HasObj request ''id'' STRING \<and> HasObj request ''values'' OBJECT then
            (let update = (\<lambda>tbl. Update (quotes sv) (executes sv) (pt_model tbl) i (objectValues vs))
             in case tbl of None \<Rightarrow> Some (Inl NullDeref, db)
                | Some tbl \<Rightarrow>
                    if access_flags tbl \<noteq> [] then
                      with_token (required_token (encryptor sv) request) (\<lambda>read.
                        bindD (update_check sv tbl i read) (\<lambda>response.
                          or_else response (update tbl))) db
                    else Some (update tbl db))
          else Some (Inr (Error (''Missing '' @ [DQ] @ ''id'' @ [DQ] @ '' JSON string and/or '' @ [DQ]
            @ ''values'' @ [DQ] @ '' JSON object.'')), db)
      | _ \<Rightarrow> Some (Inr (Error (''Missing '' @ [DQ] @ ''id'' @ [DQ] @ '' JSON string and/or '' @ [DQ]
            @ ''values'' @ [DQ] @ '' JSON object.'')), db))"

definition provider_login :: "'db service \<Rightarrow> string \<Rightarrow> JsonObject \<Rightarrow> ('db, JsonObject) action" where
  "provider_login sv table_name request =
     (if table_name \<noteq> ''users'' then retD no_access
      else if HasObj request ''username'' STRING \<and> HasObj request ''password'' STRING then
        bindD (liftD (GetStr request ''username'')) (\<lambda>username.
        bindD (liftD (GetStr request ''password'')) (\<lambda>password.
        bindD (Access (quotes sv) (executes sv) (pt_model provider_users) ''username'' username
            (hash_value sv password)) (\<lambda>token.
          if um_count (objectValues token) ''error'' then retD token
          else bindD (liftD (GetStr token ''id'')) (\<lambda>i.
            retD (JsonObject OBJECT []
              [(''id'', new_string i), (''token'', new_string (encrypt (encryptor sv) (print token)))] [])))))
      else retD (Error (''Missing '' @ [DQ] @ ''username'' @ [DQ] @ '' and/or '' @ [DQ] @ ''password''
        @ [DQ] @ '' JSON strings.'')))"

text \<open>
  The condition before the operations has a comma where a conjunction was meant: only its last
  part counts.  A table that does not exist is a null pointer.
\<close>

definition provider_perform ::
  "'db service \<Rightarrow> JsonObject \<Rightarrow> 'db \<Rightarrow> (JsonObject res \<times> 'db) option" where
  "provider_perform sv request db =
     (case um_find (objectValues request) ''operation'' of
        None \<Rightarrow> Some (Inr (Error (''Missing '' @ [DQ] @ ''table'' @ [DQ] @ '', '' @ [DQ] @ ''token'' @ [DQ]
          @ '', and/or '' @ [DQ] @ ''operation'' @ [DQ] @ '' JSON strings.'')), db)
      | Some operation \<Rightarrow>
          (case um_find (objectValues request) ''table'' of
             None \<Rightarrow> Some (Inl NullDeref, db)
           | Some t \<Rightarrow>
               (let table_name = stringValue t; tbl = um_find db_tables table_name;
                    operation = stringValue operation
                in if operation = ''all'' then all_op sv tbl request db
                   else if operation = ''where'' then where_op sv tbl request db
                   else if operation = ''insert'' then insert_op sv tbl request db
                   else if operation = ''update'' then update_op sv tbl request db
                   else if operation = ''login'' then Some (provider_login sv table_name request db)
                   else Some (Inr (Error (''Invalid '' @ [DQ] @ ''operation'' @ [DQ] @ '' '' @ operation
                     @ ''.'')), db))))"

definition provider_answer :: "JsonObject \<Rightarrow> string" where
  "provider_answer response =
     print (if um_count (objectValues response) ''error'' \<or> um_count (objectValues response) ''result''
            then response else set_objectValue ''result'' (new_string ''Success!'') response)"

text \<open>The handler: the answer that is sent, and whether sending it failed.\<close>

definition provider_on_read ::
  "'db service \<Rightarrow> bool \<Rightarrow> string \<Rightarrow> 'db \<Rightarrow> ((string \<times> int) res \<times> 'db) option" where
  "provider_on_read sv send_fails d db =
     (case parse_into new_empty (c_str d) of
        None \<Rightarrow> None
      | Some (Inl e) \<Rightarrow> Some (Inl e, db)
      | Some (Inr request) \<Rightarrow>
          map_option (apfst (\<lambda>r. bindR r (\<lambda>response.
              Inr (provider_answer response, if send_fails then - 1 else int (length d)))))
            (provider_perform sv request db))"

section \<open>The requests of the web application\<close>

definition all_request :: "string \<Rightarrow> string \<Rightarrow> string" where
  "all_request t token =
     ''{'' @ quoted ''table'' @ '':'' @ quoted t @ '','' @ quoted ''operation'' @ '':'' @ quoted ''all''
     @ '','' @ quoted ''token'' @ '':'' @ quoted token @ ''}''"

definition where_request :: "string \<Rightarrow> string \<Rightarrow> string \<Rightarrow> string \<Rightarrow> string" where
  "where_request t k v token =
     ''{'' @ quoted ''table'' @ '':'' @ quoted t @ '','' @ quoted ''operation'' @ '':'' @ quoted ''where''
     @ '','' @ quoted ''token'' @ '':'' @ quoted token @ '','' @ quoted ''key'' @ '':'' @ quoted k
     @ '','' @ quoted ''value'' @ '':'' @ quoted v @ ''}''"

definition insert_request :: "string \<Rightarrow> JsonObject \<Rightarrow> string \<Rightarrow> string" where
  "insert_request t vs token =
     ''{'' @ quoted ''table'' @ '':'' @ quoted t @ '','' @ quoted ''operation'' @ '':'' @ quoted ''insert''
     @ '','' @ quoted ''token'' @ '':'' @ quoted token @ '','' @ quoted ''values'' @ '':'' @ print vs @ ''}''"

definition update_request :: "string \<Rightarrow> string \<Rightarrow> JsonObject \<Rightarrow> string \<Rightarrow> string" where
  "update_request t i vs token =
     ''{'' @ quoted ''table'' @ '':'' @ quoted t @ '','' @ quoted ''operation'' @ '':'' @ quoted ''update''
     @ '','' @ quoted ''token'' @ '':'' @ quoted token @ '','' @ quoted ''id'' @ '':'' @ quoted i
     @ '','' @ quoted ''values'' @ '':'' @ print vs @ ''}''"

definition login_request :: "string \<Rightarrow> string \<Rightarrow> string \<Rightarrow> string" where
  "login_request t username password =
     ''{'' @ quoted ''table'' @ '':'' @ quoted t @ '','' @ quoted ''operation'' @ '':'' @ quoted ''login''
     @ '','' @ quoted ''token'' @ '':'' @ quoted [] @ '','' @ quoted ''username'' @ '':'' @ quoted username
     @ '','' @ quoted ''password'' @ '':'' @ quoted password @ ''}''"

text \<open>The route functions that ask the service: the text they send, from the request they get.\<close>

definition bwackwat_request :: "string \<Rightarrow> JsonObject \<Rightarrow> string res option" where
  "bwackwat_request name json =
     (let str = GetStr json;
          where_of = (\<lambda>t k v token. Inr (where_request t k v token));
          insert_of = (\<lambda>t token. bindR (member_of json ''values'') (\<lambda>vs. Inr (insert_request t vs token)));
          update_of = (\<lambda>t. bindR (str ''id'') (\<lambda>i. bindR (member_of json ''values'') (\<lambda>vs.
            bindR (str ''token'') (\<lambda>token. Inr (update_request t i vs token)))))
      in if name = ''GET /users'' then Some (bindR (str ''token'') (\<lambda>token. Inr (all_request ''users'' token)))
         else if name = ''GET /user'' then
           Some (bindR (str ''username'') (\<lambda>u. bindR (str ''token'') (where_of ''users'' ''username'' u)))
         else if name = ''POST /user'' then Some (insert_of ''users'' [])
         else if name = ''PUT /user'' then Some (update_of ''users'')
         else if name = ''POST /login'' then
           Some (bindR (str ''username'') (\<lambda>u. bindR (str ''password'') (\<lambda>p.
             Inr (login_request ''users'' u p))))
         else if name = ''GET /blog'' then
           Some (bindR (str ''username'') (\<lambda>u. where_of ''posts'' ''username'' u []))
         else if name = ''POST /blog'' then Some (bindR (str ''token'') (insert_of ''posts''))
         else if name = ''PUT /blog'' then Some (update_of ''posts'')
         else if name = ''GET /poi'' then
           Some (bindR (str ''key'') (\<lambda>k. bindR (str ''value'') (\<lambda>v. where_of ''poi'' k v [])))
         else if name = ''POST /poi'' then Some (bindR (str ''token'') (insert_of ''poi''))
         else if name = ''PUT /poi'' then Some (update_of ''poi'')
         else None)"

definition bwackwat_end :: "string \<Rightarrow> JsonObject \<Rightarrow> (string \<times> bool) res" where
  "bwackwat_end token json =
     bindR (GetStr json ''token'') (\<lambda>t.
       Inr (if t \<noteq> token then ([], True)
            else (''{'' @ quoted ''result'' @ '':'' @ quoted ''Goodbye!'' @ ''}'', False)))"

section \<open>What the service guards\<close>

definition genuine_token :: "'db service \<Rightarrow> JsonObject \<Rightarrow> JsonObject \<Rightarrow> bool" where
  "genuine_token sv request token \<longleftrightarrow> (\<exists>t s. GetStr request ''token'' = Inr t
     \<and> decrypt (encryptor sv) t = Inr s \<and> parse_into new_empty (c_str s) = ret token)"

definition is_admin_token :: "'db service \<Rightarrow> JsonObject \<Rightarrow> bool" where
  "is_admin_token sv token \<longleftrightarrow> GetStr token ''username'' = Inr (admin_name sv)"

lemma given_token_genuine:
  "given_token (encryptor sv) request = Some (Inr token) \<Longrightarrow> genuine_token sv request token"
  by (auto simp: given_token_def decrypt_token_def genuine_token_def member_of_def GetStr_def
      lift_res_def bindP_def ret_def split: option.splits sum.splits)

lemma required_token_genuine:
  "required_token (encryptor sv) request = Some (Inr token) \<Longrightarrow> genuine_token sv request token"
  by (auto simp: required_token_def decrypt_token_def genuine_token_def
      lift_res_def bindP_def ret_def split: sum.splits)

lemma admin_check_cases:
  assumes "admin_check (admin_name sv) read = Inr response"
  shows "response = Some no_access \<or> (\<exists>token. read = Inr token \<and> is_admin_token sv token)"
  using assms
  by (auto simp: admin_check_def is_admin_token_def member_of_def GetStr_def new_empty_def
      split: sum.splits option.splits if_splits)

lemma new_empty_member: "member_of new_empty k = Inl NullDeref"
  by (simp add: member_of_def new_empty_def)

lemma admin_check_refused: "std_exception e \<Longrightarrow> admin_check admin (Inl e) = Inl NullDeref"
  by (simp add: admin_check_def new_empty_member)

lemma guarded_by_admin:
  assumes "with_token (given_token (encryptor sv) request) (\<lambda>read.
      bindD (liftD (admin_check (admin_name sv) read)) (\<lambda>response. or_else response act)) db
    = Some (r, db')"
  shows "db' = db \<and> (r = Inr no_access \<or> (\<exists>e. r = Inl e))
    \<or> (\<exists>token. genuine_token sv request token \<and> is_admin_token sv token)"
proof -
  from assms obtain read where read: "given_token (encryptor sv) request = Some read"
    and run: "bindD (liftD (admin_check (admin_name sv) read)) (\<lambda>response. or_else response act) db = (r, db')"
    by (auto simp: with_token_def)
  show ?thesis
  proof (cases "admin_check (admin_name sv) read")
    case (Inl e)
    with run show ?thesis by auto
  next
    case (Inr response)
    from admin_check_cases [OF Inr] show ?thesis
    proof
      assume "response = Some no_access"
      with Inr run show ?thesis by (simp add: or_else_def)
    next
      assume "\<exists>token. read = Inr token \<and> is_admin_token sv token"
      with given_token_genuine [of sv request] read show ?thesis by blast
    qed
  qed
qed

lemma tables_protected: "um_find db_tables t = Some tbl \<Longrightarrow> access_flags tbl \<noteq> []"
  by (auto simp: db_tables_def um_find_Cons provider_users_def provider_poi_def provider_posts_def
      split: if_splits)

lemma GetStr_find: "GetStr j k = Inr s \<longleftrightarrow> (\<exists>v. um_find (objectValues j) k = Some v \<and> stringValue v = s)"
  by (auto simp: GetStr_def split: option.split)

lemma perform_all:
  "GetStr request ''operation'' = Inr ''all'' \<Longrightarrow> GetStr request ''table'' = Inr t \<Longrightarrow>
    provider_perform sv request db = all_op sv (um_find db_tables t) request db"
  by (auto simp: provider_perform_def GetStr_find)

lemma perform_where:
  "GetStr request ''operation'' = Inr ''where'' \<Longrightarrow> GetStr request ''table'' = Inr t \<Longrightarrow>
    provider_perform sv request db = where_op sv (um_find db_tables t) request db"
  by (auto simp: provider_perform_def GetStr_find)

lemma perform_update:
  "GetStr request ''operation'' = Inr ''update'' \<Longrightarrow> GetStr request ''table'' = Inr t \<Longrightarrow>
    provider_perform sv request db = update_op sv (um_find db_tables t) request db"
  by (auto simp: provider_perform_def GetStr_find)

definition owner_of :: "'db service \<Rightarrow> provider_table \<Rightarrow> string \<Rightarrow> 'db \<Rightarrow> string \<Rightarrow> bool" where
  "owner_of sv tbl i db user \<longleftrightarrow>
     (\<exists>row rows. fst (executes sv (owner_sql (quotes sv) (pt_model tbl) i) db) = Inr (row # rows)
       \<and> map_of row ''owner_id'' = Some (Some user))"

text \<open>Who may update: the owner of a row, who is the user itself for the table of users; or the admin.\<close>

definition may_update :: "'db service \<Rightarrow> provider_table \<Rightarrow> string \<Rightarrow> 'db \<Rightarrow> JsonObject \<Rightarrow> bool" where
  "may_update sv tbl i db token \<longleftrightarrow> is_admin_token sv token
     \<or> (\<exists>user. GetStr token ''id'' = Inr user
          \<and> (if ACCESS_USER \<in> set (access_flags tbl) then owner_of sv tbl i db user else user = i))"

lemma IsOwner_owner:
  "IsOwner quote exec m i user db = (Inr b, db') \<Longrightarrow>
    db' = snd (exec (owner_sql quote m i) db) \<and> (b \<longrightarrow> (\<exists>row rows.
      fst (exec (owner_sql quote m i) db) = Inr (row # rows) \<and> map_of row ''owner_id'' = Some (Some user)))"
  by (auto simp: IsOwner_def split: prod.splits sum.splits list.splits option.splits)

lemma snd_IsOwner_db: "IsOwner quote exec m i user db = (r, db') \<Longrightarrow> db' = snd (exec (owner_sql quote m i) db)"
  by (metis snd_IsOwner snd_conv)

definition looked_up :: "'db service \<Rightarrow> provider_table \<Rightarrow> string \<Rightarrow> 'db \<Rightarrow> 'db \<Rightarrow> bool" where
  "looked_up sv tbl i db db' \<longleftrightarrow>
     db' = db \<or> db' = snd (executes sv (owner_sql (quotes sv) (pt_model tbl) i) db)"

lemma owner_check_sound:
  assumes "owner_check sv tbl i token db = (r, db')"
  shows "looked_up sv tbl i db db' \<and> (r = Inr True \<longrightarrow> may_update sv tbl i db token)"
proof (cases "GetStr token ''id''")
  case (Inl e)
  with assms show ?thesis by (auto simp: owner_check_def looked_up_def)
next
  case (Inr user)
  let ?own = "if ACCESS_USER \<in> set (access_flags tbl)
      then IsOwner (quotes sv) (executes sv) (pt_model tbl) i user else retD (user = i)"
  let ?rest = "\<lambda>own. if own then retD True
      else bindD (liftD (member_of token ''username'')) (\<lambda>u. retD (stringValue u = admin_name sv))"
  from Inr assms have run: "bindD ?own ?rest db = (r, db')" by (simp add: owner_check_def)
  show ?thesis
  proof (cases rule: bindD_cases [of ?own db ?rest])
    case (fails e db1)
    with run show ?thesis
      by (auto simp: looked_up_def dest: snd_IsOwner_db split: if_splits)
  next
    case (returns own db1)
    have l: "looked_up sv tbl i db db1"
      using returns(1) by (auto simp: looked_up_def dest: snd_IsOwner_db split: if_splits)
    have o: "own \<Longrightarrow> may_update sv tbl i db token"
      using returns(1) Inr by (auto simp: may_update_def owner_of_def dest: IsOwner_owner split: if_splits)
    from run returns(2) have "?rest own db1 = (r, db')" by simp
    with l o show ?thesis
      by (cases own; cases "member_of token ''username''")
        (auto simp: may_update_def is_admin_token_def member_of_def GetStr_def split: option.splits)
  qed
qed

lemma update_check_sound:
  assumes "update_check sv tbl i read db = (r, db')"
  shows "looked_up sv tbl i db db'
    \<and> (r = Inr None \<longrightarrow> (\<exists>token. read = Inr token \<and> may_update sv tbl i db token))"
proof (cases read)
  case (Inl e)
  with assms show ?thesis by (auto simp: update_check_def catchD_def looked_up_def split: if_splits)
next
  case (Inr token)
  obtain ok db1 where o: "owner_check sv tbl i token db = (ok, db1)" by (cases "owner_check sv tbl i token db")
  from owner_check_sound [OF o] assms Inr o show ?thesis
    by (cases ok) (auto simp: update_check_def catchD_def bindD_def split: if_splits)
qed

lemma refused_token_null:
  assumes "parse_into new_empty (c_str d) = ret request" and "GetStr request ''operation'' = Inr ''all''"
    and "GetStr request ''table'' = Inr t" and "um_find db_tables t = Some tbl"
    and "GetStr request ''token'' = Inr s" and "decrypt (encryptor sv) s = Inl e" and "std_exception e"
  shows "provider_on_read sv send_fails d db = Some (Inl NullDeref, db)"
proof -
  from assms(5,6) have "given_token (encryptor sv) request = Some (Inl e)"
    by (auto simp: given_token_def member_of_def GetStr_find decrypt_token_def fail_def)
  then have "provider_perform sv request db = Some (Inl NullDeref, db)"
    unfolding perform_all [OF assms(2,3)] assms(4) using tables_protected [OF assms(4)]
    by (simp add: all_op_def with_token_def admin_check_refused [OF assms(7)])
  with assms(1) show ?thesis by (simp add: provider_on_read_def ret_def)
qed

section \<open>Requests as texts\<close>

lemma quoteless_words [simp]:
  "quoteless ''table''" "quoteless ''operation''" "quoteless ''token''" "quoteless ''key''"
  "quoteless ''value''" "quoteless ''username''" "quoteless ''password''" "quoteless ''login''"
  "quoteless ''all''" "quoteless ''where''" "quoteless []" "quoteless ''users''"
  by (simp_all add: quoteless_def clean_def)

lemma request_texts:
  assumes "quoteless t" "quoteless token" "quoteless k" "quoteless v"
  shows "all_request t token = text_of [(''table'', t), (''operation'', ''all''), (''token'', token)]"
    and "where_request t k v token = text_of [(''table'', t), (''operation'', ''where''),
      (''token'', token), (''key'', k), (''value'', v)]"
    and "login_request t k v = text_of [(''table'', t), (''operation'', ''login''),
      (''token'', []), (''username'', k), (''password'', v)]"
  using assms
  by (simp_all add: all_request_def where_request_def login_request_def text_of_members flat_text escape_quoteless)

text \<open>What a quote in the last value lets a client add.\<close>

definition and_member :: "string \<Rightarrow> string \<Rightarrow> string \<Rightarrow> string" where
  "and_member v k w = v @ [DQ] @ '','' @ quoted k @ '':'' @ [DQ] @ w"

lemma login_with_member:
  assumes "quoteless t" "quoteless u" "quoteless v" "quoteless k" "quoteless w"
  shows "login_request t u (and_member v k w) = text_of [(''table'', t), (''operation'', ''login''),
      (''token'', []), (''username'', u), (''password'', v), (k, w)]"
  using assms by (simp add: login_request_def text_of_members flat_text escape_quoteless and_member_def)
    (simp add: quoted_def)

section \<open>Claims\<close>

text \<open>
  C27. All rows of a table are for the admin: whoever gets another answer to \<open>all\<close> than a refusal, or
  makes the service ask the database, has a token that the key verifies, of the admin's name.
\<close>

theorem all_rows_are_for_the_admin:
  assumes "provider_perform sv request db = Some (r, db')" and "GetStr request ''operation'' = Inr ''all''"
    and "GetStr request ''table'' = Inr t"
  shows "db' = db \<and> (r = Inr no_access \<or> (\<exists>e. r = Inl e))
    \<or> (\<exists>token. genuine_token sv request token \<and> is_admin_token sv token)"
proof (cases "um_find db_tables t")
  case None
  with assms(1) perform_all [OF assms(2,3), of sv db] show ?thesis by (auto simp: all_op_def)
next
  case (Some tbl)
  with assms(1) perform_all [OF assms(2,3), of sv db] tables_protected [OF Some]
  show ?thesis by (intro guarded_by_admin [of sv request _ db r db']) (simp add: all_op_def)
qed

text \<open>A service over a log of statements, with the coding of \<open>sample_crypto\<close>.\<close>

definition sample_service :: "row list \<Rightarrow> string list service" where
  "sample_service rows = \<lparr>quotes = id, executes = logs rows,
     insert_list = (\<lambda>m vs. liftD (Inr (new_typed OBJECT))), encryptor = sample_crypto,
     hash_value = id, admin_name = ''admin''\<rparr>"

definition sealed :: "(string \<times> string) list \<Rightarrow> string" where
  "sealed kvs = encrypt sample_crypto (text_of kvs)"

definition sealed_request :: "string \<Rightarrow> (string \<times> string) list \<Rightarrow> JsonObject" where
  "sealed_request op kvs = message_of [(''operation'', op), (''table'', ''users''), (''token'', sealed kvs)]"

lemma sealed_genuine:
  assumes "plain kvs" and "GetStr request ''token'' = Inr (sealed kvs)"
  shows "required_token sample_crypto request = ret (message_of kvs)"
    and "given_token sample_crypto request = ret (message_of kvs)"
proof -
  have t: "decrypt_token sample_crypto (sealed kvs) = ret (message_of kvs)"
    by (simp add: decrypt_token_def sealed_def decrypt_encrypt [OF sample_crypto_ok] parse_plain [OF assms(1)])
  then show "required_token sample_crypto request = ret (message_of kvs)"
    by (simp add: required_token_def assms(2))
  from t assms(2) show "given_token sample_crypto request = ret (message_of kvs)"
    by (auto simp: given_token_def member_of_def GetStr_find)
qed

lemma sealed_member: "GetStr (sealed_request op kvs) ''token'' = Inr (sealed kvs)"
  "GetStr (sealed_request op kvs) ''operation'' = Inr op"
  "GetStr (sealed_request op kvs) ''table'' = Inr ''users''"
  by (simp_all add: sealed_request_def message_of_def GetStr_def um_find_Cons new_string_def)

lemma all_rows_are_for_the_admin_witness:
  "\<exists>token. genuine_token (sample_service []) (sealed_request ''all'' [(''username'', ''admin'')]) token
     \<and> is_admin_token (sample_service []) token"
proof -
  let ?kvs = "[(''username'', ''admin'')]" and ?sv = "sample_service []"
  let ?r = "sealed_request ''all'' ?kvs"
  have "plain ?kvs" by (simp add: plain_def clean_def)
  from sealed_genuine(2) [OF this sealed_member(1)]
  have "given_token (encryptor ?sv) ?r = ret (message_of ?kvs)" by (simp add: sample_service_def)
  then have "provider_perform ?sv ?r [] =
      Some (Inr (new_typed ARRAY), [all_sql (pt_model provider_users)])"
    unfolding perform_all [OF sealed_member(2,3)]
    by (simp add: all_op_def db_tables_def um_find_Cons provider_users_def with_token_def ret_def
        admin_check_def member_of_def message_of_def sample_service_def new_string_def or_else_def)
      (simp add: All_def logs_def then_json_def ResultToJson_def uncaught_def)
  from all_rows_are_for_the_admin [OF this sealed_member(2,3)] show ?thesis by auto
qed

text \<open>
  C28. An update is for the owner or the admin: when more was done to the database than to look the
  owner up, the token was verified and is the admin's, or its user owns the row, or, in the table of
  users, is the row.
\<close>

theorem updates_are_for_the_owner:
  assumes "provider_perform sv request db = Some (r, db')"
    and "GetStr request ''operation'' = Inr ''update''" and "GetStr request ''table'' = Inr t"
    and "um_find db_tables t = Some tbl" and "GetStr request ''id'' = Inr i"
  shows "looked_up sv tbl i db db' \<or> (\<exists>token. genuine_token sv request token \<and> may_update sv tbl i db token)"
proof -
  have same: "looked_up sv tbl i db db" by (simp add: looked_up_def)
  from assms have op: "update_op sv (Some tbl) request db = Some (r, db')"
    by (simp add: perform_update)
  show ?thesis
  proof (cases "HasObj request ''id'' STRING \<and> HasObj request ''values'' OBJECT")
    case False
    with op assms(5) same show ?thesis by (auto simp: update_op_def split: option.splits)
  next
    case True
    then obtain vs where vs: "um_find (objectValues request) ''values'' = Some vs"
      by (auto simp: HasObj_def split: option.splits)
    let ?update = "Update (quotes sv) (executes sv) (pt_model tbl) i (objectValues vs)"
    from op True vs assms(5) tables_protected [OF assms(4)] obtain read where
      read: "required_token (encryptor sv) request = Some read"
      and run: "bindD (update_check sv tbl i read) (\<lambda>response. or_else response ?update) db = (r, db')"
      by (auto simp: update_op_def with_token_def)
    show ?thesis
    proof (cases rule: bindD_cases [of "update_check sv tbl i read" db "\<lambda>response. or_else response ?update"])
      case (fails e db1)
      with run update_check_sound [OF fails(1)] show ?thesis by simp
    next
      case (returns response db1)
      note sound = update_check_sound [OF returns(1)]
      show ?thesis
      proof (cases response)
        case (Some x)
        with returns(2) run sound show ?thesis by (simp add: or_else_def)
      next
        case None
        with sound obtain token where "read = Inr token" "may_update sv tbl i db token" by auto
        with required_token_genuine [of sv request token] read show ?thesis by auto
      qed
    qed
  qed
qed

definition own_row :: JsonObject where
  "own_row = JsonObject OBJECT [] (objectValues (sealed_request ''update'' [(''id'', ''7''), (''username'', ''u'')])
     @ [(''id'', new_string ''7''), (''values'', message_of [(''email'', ''e'')])]) []"

lemma updates_are_for_the_owner_witness:
  "\<exists>token. genuine_token (sample_service []) own_row token
     \<and> may_update (sample_service []) provider_users ''7'' [] token"
proof -
  let ?kvs = "[(''id'', ''7''), (''username'', ''u'')]" and ?sv = "sample_service []"
  have m: "GetStr own_row ''token'' = Inr (sealed ?kvs)" "GetStr own_row ''operation'' = Inr ''update''"
      "GetStr own_row ''table'' = Inr ''users''" "GetStr own_row ''id'' = Inr ''7''"
      "um_find (objectValues own_row) ''values'' = Some (message_of [(''email'', ''e'')])"
      "HasObj own_row ''id'' STRING" "HasObj own_row ''values'' OBJECT"
    by (simp_all add: own_row_def sealed_request_def message_of_def GetStr_def HasObj_def um_find_Cons
        new_string_def)
  have "plain ?kvs" by (simp add: plain_def clean_def)
  from sealed_genuine(1) [OF this m(1)]
  have t: "required_token (encryptor ?sv) own_row = ret (message_of ?kvs)" by (simp add: sample_service_def)
  have users: "um_find db_tables ''users'' = Some provider_users"
    by (simp add: db_tables_def um_find_Cons)
  have c: "update_check ?sv provider_users ''7'' (Inr (message_of ?kvs)) [] = (Inr None, [])" by code_simp
  let ?m = "pt_model provider_users" and ?vs = "objectValues (message_of [(''email'', ''e'')])"
  obtain r where u: "Update (quotes ?sv) (executes ?sv) ?m ''7'' ?vs [] =
      (r, [update_sql id ?m ''7'' ''email = e''])"
    by (simp add: provider_users_def Update_def message_of_def HasColumn_def column_def sample_service_def
        logs_def then_json_def comma_def new_string_def split: prod.split)
  have "access_flags provider_users \<noteq> []" by (simp add: provider_users_def)
  then have "provider_perform ?sv own_row [] = with_token (required_token (encryptor ?sv) own_row) (\<lambda>read.
      bindD (update_check ?sv provider_users ''7'' read) (\<lambda>response.
        or_else response (Update (quotes ?sv) (executes ?sv) ?m ''7'' ?vs))) []"
    unfolding perform_update [OF m(2,3)] users by (simp add: update_op_def m Let_def)
  then have r: "provider_perform ?sv own_row [] = Some (r, [update_sql id ?m ''7'' ''email = e''])"
    unfolding t by (simp add: with_token_def ret_def bindD_eqs c or_else_def u)
  have "\<not> looked_up ?sv provider_users ''7'' []
      [update_sql id (pt_model provider_users) ''7'' ''email = e'']"
    by code_simp
  with updates_are_for_the_owner [OF r m(2,3) users m(4)] show ?thesis by blast
qed

text \<open>
  A token that does not decrypt stops the service: the exception is caught, but the name in the
  empty token is then read through a null pointer, for \<open>all\<close> on every table.
\<close>

theorem refused_token_stops_service:
  assumes "parse_into new_empty (c_str d) = ret request" and "GetStr request ''operation'' = Inr ''all''"
    and "GetStr request ''table'' = Inr t" and "um_find db_tables t = Some tbl"
    and "GetStr request ''token'' = Inr s" and "decrypt (encryptor sv) s = Inl e" and "std_exception e"
  shows "provider_on_read sv send_fails d db = Some (Inl NullDeref, db)"
  by (rule refused_token_null [OF assms])

lemma refused_token_stops_service_witness:
  "provider_on_read (sample_service []) False
     (text_of [(''operation'', ''all''), (''table'', ''poi''), (''token'', ''x'')]) [] = Some (Inl NullDeref, [])"
  by (rule refused_token_stops_service [OF parse_plain, where s = "''x''" and t = "''poi''" and
        tbl = provider_poi and e = "RuntimeError ''HashVerificationFilter''"]; code_simp)

text \<open>
  What the application sends is what the service reads, for values without quotes and
  backslashes: every member comes back as it was given.
\<close>

theorem requests_are_read_as_sent:
  assumes "quoteless t" "quoteless token" "quoteless k" "quoteless v"
  shows "parse_into new_empty (c_str (all_request t token)) =
      ret (message_of [(''table'', t), (''operation'', ''all''), (''token'', token)])
    \<and> parse_into new_empty (c_str (where_request t k v token)) =
      ret (message_of [(''table'', t), (''operation'', ''where''), (''token'', token), (''key'', k), (''value'', v)])
    \<and> parse_into new_empty (c_str (login_request t k v)) =
      ret (message_of [(''table'', t), (''operation'', ''login''), (''token'', []), (''username'', k),
        (''password'', v)])"
proof -
  have "clean t" "clean token" "clean k" "clean v" using assms by (simp_all add: quoteless_def)
  then show ?thesis
    unfolding request_texts [OF assms] by (intro conjI parse_plain) (simp_all add: plain_def clean_def)
qed

lemma requests_are_read_as_sent_witness:
  "parse_into new_empty (c_str (where_request ''posts'' ''username'' ''ann'' [])) =
     ret (message_of [(''table'', ''posts''), (''operation'', ''where''), (''token'', []),
       (''key'', ''username''), (''value'', ''ann'')])"
  using requests_are_read_as_sent [of "''posts''" "[]" "''username''" "''ann''"]
  by (simp add: quoteless_def clean_def)

text \<open>
  C29. But the values go into the requests unescaped, and of two members with one name the last
  counts: anyone who logs in with a password that holds a quote chooses the operation.  With \<open>all\<close>,
  whose token is then the empty one of a login, the service stops.
\<close>

theorem login_stops_the_service:
  assumes "bwackwat_request ''POST /login'' json = Some (Inr d)"
    and "GetStr json ''username'' = Inr u" and "GetStr json ''password'' = Inr (and_member p ''operation'' ''all'')"
    and "quoteless u" and "quoteless p" and "unbase64 (encryptor sv) [] = []"
    and "length (hmac (encryptor sv) []) = 32"
  shows "provider_on_read sv send_fails d db = Some (Inl NullDeref, db)"
proof -
  let ?kvs = "[(''table'', ''users''), (''operation'', ''login''), (''token'', []), (''username'', u),
      (''password'', p), (''operation'', ''all'')]"
  let ?r = "JsonObject OBJECT [] (foldl (\<lambda>m (k, v). um_set k (new_string v) m) [] ?kvs) []"
  have d: "d = text_of ?kvs"
    using assms(1-3) login_with_member [of "''users''" u p "''operation''" "''all''"] assms(4,5)
    by (simp add: bwackwat_request_def)
  have "list_all (\<lambda>(k, v). clean k \<and> clean v) ?kvs"
    using assms(4,5) by (simp add: quoteless_def clean_def)
  from parse_strings [OF this] have parse: "parse_into new_empty (c_str d) = ret ?r" unfolding d .
  have members: "GetStr ?r ''operation'' = Inr ''all''" "GetStr ?r ''table'' = Inr ''users''"
      "GetStr ?r ''token'' = Inr []"
    by (simp_all add: GetStr_def new_string_def um_find_def um_set_def)
  have users: "um_find db_tables ''users'' = Some provider_users"
    by (simp add: db_tables_def um_find_Cons)
  have "decrypt (encryptor sv) [] = Inl (RuntimeError ''HashVerificationFilter'')"
    using assms(6,7) by (auto simp: decrypt_def)
  from refused_token_null [OF parse members(1,2) users members(3) this] show ?thesis by simp
qed

lemma login_stops_the_service_witness:
  "provider_on_read (sample_service []) False (login_request ''users'' ''u'' (and_member ''p'' ''operation'' ''all'')) []
     = Some (Inl NullDeref, [])"
  by (rule login_stops_the_service [where u = "''u''" and p = "''p''" and
        json = "message_of [(''username'', ''u''), (''password'', and_member ''p'' ''operation'' ''all'')]"];
      code_simp)

end
