(* ===== verification/Poll.thy ===== *)
theory Poll
  imports Prelude
begin

text \<open>
  The pair of examples that use \<open>poll\<close>: the echo server (\<open>examples/tcp-poll-server.cpp\<close>) with its
  table of descriptors, and the client that makes requests (\<open>examples/tcp-poll-client.cpp\<close>).
\<close>

definition CONNECTIONS_LIMIT :: nat where "CONNECTIONS_LIMIT = 2048"

section \<open>The server\<close>

text \<open>
  \<open>echoed\<close> is what was written to whom; \<open>lost\<close> are the accepted descriptors that no slot holds and
  nothing closes.
\<close>

record poll_server =
  slots :: "int list"
  num_clients :: nat
  echoed :: "(int \<times> string) list"
  closed :: "int list"
  lost :: "int list"

definition new_poll_server :: "int \<Rightarrow> poll_server" where
  "new_poll_server serverfd = \<lparr>slots = (replicate CONNECTIONS_LIMIT 0)[0 := serverfd],
     num_clients = 1, echoed = [], closed = [], lost = []\<rparr>"

text \<open>The table is an array: what is read or written behind its end is a fault.\<close>

definition slot_at :: "int list \<Rightarrow> nat \<Rightarrow> int res" where
  "slot_at ss i = (if i < length ss then Inr (ss ! i) else Inl OutOfBounds)"

definition write_slot :: "nat \<Rightarrow> int \<Rightarrow> poll_server \<Rightarrow> poll_server res" where
  "write_slot i fd s =
     (if i < length (slots s) then Inr (s\<lparr>slots := (slots s)[i := fd]\<rparr>) else Inl OutOfBounds)"

text \<open>The search for a slot, and the number of slots after it.\<close>

function find_slot :: "int list \<Rightarrow> nat \<Rightarrow> nat \<Rightarrow> (nat \<times> nat) res" where
  "find_slot ss num i =
     (if i = CONNECTIONS_LIMIT then Inr (i, num)
      else if length ss \<le> i then Inl OutOfBounds
      else if ss ! i = - 1 then Inr (i, num)
      else if i = num then Inr (i, num + 1)
      else find_slot ss num (i + 1))"
  by auto
termination by (relation "measure (\<lambda>(ss, num, i). length ss - i)") auto

declare find_slot.simps [simp del]

definition add_connection :: "int \<Rightarrow> poll_server \<Rightarrow> poll_server res" where
  "add_connection clientfd s =
     bindR (find_slot (slots s) (num_clients s) 0) (\<lambda>(i, num).
       if i = CONNECTIONS_LIMIT then Inr (s\<lparr>num_clients := num, lost := lost s @ [clientfd]\<rparr>)
       else write_slot i clientfd (s\<lparr>num_clients := num\<rparr>))"

datatype poll_accept = Accept_ok int | Accept_empty | Accept_fails

text \<open>The loop of \<open>accept\<close>; whether the server is to exit.  It goes on while there are connections.\<close>

fun accept_clients :: "poll_accept list \<Rightarrow> poll_server \<Rightarrow> (bool \<times> poll_server) prog" where
  "accept_clients [] s = None"
| "accept_clients (a # as) s =
     (case a of
        Accept_ok clientfd \<Rightarrow> bindP (lift_res (add_connection clientfd s)) (accept_clients as)
      | Accept_empty \<Rightarrow> ret (False, s)
      | Accept_fails \<Rightarrow> ret (True, s))"

datatype poll_read = Poll_data string bool | Poll_empty | Poll_fails | Poll_eof

text \<open>
  The loop of \<open>read\<close>, with whether the echo of each packet could be written; whether the connection
  is to be closed.  It goes on while there is something to read.
\<close>

fun echo_client :: "int \<Rightarrow> poll_read list \<Rightarrow> poll_server \<Rightarrow> (bool \<times> poll_server) prog" where
  "echo_client fd [] s = None"
| "echo_client fd (r # rs) s =
     (case r of
        Poll_data d written \<Rightarrow>
          if written then echo_client fd rs (s\<lparr>echoed := echoed s @ [(fd, d)]\<rparr>) else ret (True, s)
      | Poll_empty \<Rightarrow> ret (False, s)
      | Poll_fails \<Rightarrow> ret (True, s)
      | Poll_eof \<Rightarrow> ret (True, s))"

text \<open>What \<open>poll\<close> and the calls behind it give for one slot.\<close>

record slot_input =
  revents :: bool
  accepts :: "poll_accept list"
  reads_of :: "poll_read list"

definition handle_slot ::
  "int \<Rightarrow> nat \<Rightarrow> slot_input \<Rightarrow> bool \<times> poll_server \<Rightarrow> (bool \<times> poll_server) prog" where
  "handle_slot serverfd i inp p =
     (case p of (exiting, s) \<Rightarrow>
        bindP (lift_res (slot_at (slots s) i)) (\<lambda>fd.
          if \<not> revents inp then ret (exiting, s)
          else if fd = serverfd then
            bindP (accept_clients (accepts inp) s) (\<lambda>(e, s). ret (exiting \<or> e, s))
          else
            bindP (echo_client fd (reads_of inp) s) (\<lambda>(close_connection, s).
              if close_connection then
                bindP (lift_res (write_slot i (- 1) (s\<lparr>closed := closed s @ [fd]\<rparr>)))
                  (\<lambda>s. ret (exiting, s))
              else ret (exiting, s))))"

fun handle_slots ::
  "int \<Rightarrow> nat \<Rightarrow> slot_input list \<Rightarrow> bool \<times> poll_server \<Rightarrow> (bool \<times> poll_server) prog" where
  "handle_slots serverfd i [] p = ret p"
| "handle_slots serverfd i (inp # inps) p =
     bindP (handle_slot serverfd i inp p) (handle_slots serverfd (i + 1) inps)"

text \<open>One pass: \<open>poll\<close> gives an input for each of the \<open>num_clients\<close> slots.\<close>

definition poll_pass :: "int \<Rightarrow> slot_input list \<Rightarrow> poll_server \<Rightarrow> (bool \<times> poll_server) prog" where
  "poll_pass serverfd inps s = handle_slots serverfd 0 (take (num_clients s) inps) (False, s)"

text \<open>The end of the program closes what the slots hold.\<close>

definition shut_down :: "poll_server \<Rightarrow> poll_server" where
  "shut_down s = s\<lparr>closed := closed s @ filter (\<lambda>fd. 0 \<le> fd) (take (num_clients s) (slots s))\<rparr>"

section \<open>What the server keeps\<close>

text \<open>Slot \<open>i\<close> holds \<open>fd\<close>.\<close>

definition holds :: "poll_server \<Rightarrow> nat \<Rightarrow> int \<Rightarrow> bool" where
  "holds s i fd \<longleftrightarrow> i < num_clients s \<and> slots s ! i = fd \<and> fd \<noteq> - 1"

definition held :: "poll_server \<Rightarrow> int set" where
  "held s = {fd. \<exists>i. holds s i fd}"

definition has_room :: "poll_server \<Rightarrow> bool" where
  "has_room s \<longleftrightarrow> num_clients s < CONNECTIONS_LIMIT \<or> - 1 \<in> set (slots s)"

definition poll_inv :: "int \<Rightarrow> poll_server \<Rightarrow> bool" where
  "poll_inv serverfd s \<longleftrightarrow> length (slots s) = CONNECTIONS_LIMIT
     \<and> num_clients s \<le> CONNECTIONS_LIMIT \<and> holds s 0 serverfd
     \<and> (\<forall>i. num_clients s \<le> i \<and> i < CONNECTIONS_LIMIT \<longrightarrow> slots s ! i = 0)
     \<and> (\<forall>fd i j. holds s i fd \<longrightarrow> holds s j fd \<longrightarrow> i = j)"

text \<open>The search finds the first free slot, or the one behind those in use, or that there is none.\<close>

definition slot_found :: "int list \<Rightarrow> nat \<Rightarrow> nat \<Rightarrow> nat \<times> nat \<Rightarrow> bool" where
  "slot_found ss num i r \<longleftrightarrow> i \<le> fst r \<and> fst r \<le> CONNECTIONS_LIMIT
    \<and> (\<forall>k. i \<le> k \<and> k < fst r \<longrightarrow> ss ! k \<noteq> - 1)
    \<and> (fst r < CONNECTIONS_LIMIT \<longrightarrow> fst r \<le> num \<and> (ss ! fst r = - 1 \<or> fst r = num)
        \<and> snd r = (if ss ! fst r = - 1 then num else num + 1))
    \<and> (fst r = CONNECTIONS_LIMIT \<longrightarrow> num = CONNECTIONS_LIMIT \<and> snd r = num)"

lemma slot_found_next:
  assumes "slot_found ss num (i + 1) r" "ss ! i \<noteq> - 1"
  shows "slot_found ss num i r"
proof -
  have "ss ! k \<noteq> - 1" if "i \<le> k" "k < fst r" for k
    using assms that by (cases "k = i") (auto simp: slot_found_def)
  with assms(1) show ?thesis by (simp add: slot_found_def)
qed

lemma find_slot_result:
  assumes "i \<le> num" and "num \<le> CONNECTIONS_LIMIT" and "length ss = CONNECTIONS_LIMIT"
  shows "\<exists>r. find_slot ss num i = Inr r \<and> slot_found ss num i r"
  using assms
proof (induction ss num i rule: find_slot.induct)
  case (1 ss num i)
  show ?case
  proof (cases "i = CONNECTIONS_LIMIT \<or> ss ! i = - 1 \<or> i = num")
    case True
    with 1(2-4) show ?thesis
      by (subst find_slot.simps) (simp add: slot_found_def, linarith?)
  next
    case False
    with 1(2-4) have le: "i + 1 \<le> num" and inside: "\<not> length ss \<le> i" by simp_all
    from False inside have r: "find_slot ss num i = find_slot ss num (i + 1)"
      by (subst find_slot.simps) simp
    from False inside le 1(3,4) have "\<exists>r. find_slot ss num (i + 1) = Inr r \<and> slot_found ss num (i + 1) r"
      by (intro 1(1)) simp_all
    with r False slot_found_next [of ss num i] show ?thesis by auto
  qed
qed

text \<open>A connection is put into the first free slot, or lost when there is none.\<close>

definition placed :: "int \<Rightarrow> poll_server \<Rightarrow> poll_server \<Rightarrow> bool" where
  "placed fd s s' \<longleftrightarrow> lost s' = lost s \<and> held s' = insert fd (held s)
     \<and> (\<forall>i fd. holds s i fd \<longrightarrow> holds s' i fd)"

lemma place_at:
  assumes inv: "poll_inv serverfd s" and fd: "0 \<le> fd" "fd \<notin> held s"
    and j: "j \<le> num_clients s" "j < CONNECTIONS_LIMIT" "slots s ! j = - 1 \<or> j = num_clients s"
    and num: "num = max (num_clients s) (j + 1)"
  shows "poll_inv serverfd (s\<lparr>slots := (slots s)[j := fd], num_clients := num\<rparr>)
    \<and> placed fd s (s\<lparr>slots := (slots s)[j := fd], num_clients := num\<rparr>)"
proof -
  let ?s = "s\<lparr>slots := (slots s)[j := fd], num_clients := num\<rparr>"
  have len: "length (slots s) = CONNECTIONS_LIMIT" using inv by (simp add: poll_inv_def)
  have h: "holds ?s i x \<longleftrightarrow> i = j \<and> x = fd \<or> i \<noteq> j \<and> holds s i x" for i x
    using j num len fd(1) by (auto simp: holds_def nth_list_update less_max_iff_disj)
  have free: "\<not> holds s j x" for x using j(3) by (auto simp: holds_def)
  have held: "held ?s = insert fd (held s)" using h free by (auto simp: held_def)
  have nz: "j \<noteq> 0"
  proof
    assume "j = 0"
    with free [of serverfd] inv show False by (simp add: poll_inv_def)
  qed
  have "poll_inv serverfd ?s"
    unfolding poll_inv_def
  proof (intro conjI allI impI)
    show "length (slots ?s) = CONNECTIONS_LIMIT" using len by simp
    show "num_clients ?s \<le> CONNECTIONS_LIMIT" using inv j num by (simp add: poll_inv_def)
    show "holds ?s 0 serverfd" using h nz inv by (simp add: poll_inv_def)
    show "slots ?s ! i = 0" if "num_clients ?s \<le> i \<and> i < CONNECTIONS_LIMIT" for i
      using that inv num by (simp add: poll_inv_def)
    show "i = k" if "holds ?s i x" and "holds ?s k x" for i k x
      using that h fd(2) inv unfolding poll_inv_def held_def mem_Collect_eq by metis
  qed
  moreover have "placed fd s ?s" using held h free by (auto simp: placed_def)
  ultimately show ?thesis by blast
qed

text \<open>
  The connection is placed when there is room and lost otherwise; in either case nothing is written
  behind the table.
\<close>

lemma add_connection_cases:
  assumes inv: "poll_inv serverfd s" and fd: "0 \<le> fd" "fd \<notin> held s"
  shows "\<exists>s'. add_connection fd s = Inr s' \<and> poll_inv serverfd s' \<and> num_clients s \<le> num_clients s'
    \<and> (if has_room s then placed fd s s' else s' = s\<lparr>lost := lost s @ [fd]\<rparr>)"
proof -
  let ?n = "num_clients s" and ?ss = "slots s"
  have len: "length ?ss = CONNECTIONS_LIMIT" and n: "?n \<le> CONNECTIONS_LIMIT"
    and zero: "\<forall>i. ?n \<le> i \<and> i < CONNECTIONS_LIMIT \<longrightarrow> ?ss ! i = 0"
    using inv by (simp_all add: poll_inv_def)
  from find_slot_result [OF le0 n len] obtain j num where
    f: "find_slot ?ss ?n 0 = Inr (j, num)" and found: "slot_found ?ss ?n 0 (j, num)" by auto
  note r = found [unfolded slot_found_def fst_conv snd_conv]
  show ?thesis
  proof (cases "j = CONNECTIONS_LIMIT")
    case True
    with r n have full: "?n = CONNECTIONS_LIMIT" "num = ?n" "\<forall>k < CONNECTIONS_LIMIT. ?ss ! k \<noteq> - 1"
      by auto
    then have "\<not> has_room s" using len by (auto simp: has_room_def in_set_conv_nth)
    moreover have "add_connection fd s = Inr (s\<lparr>lost := lost s @ [fd]\<rparr>)"
      using f True full(2) by (simp add: add_connection_def)
    moreover have "poll_inv serverfd (s\<lparr>lost := lost s @ [fd]\<rparr>)"
      using inv by (simp add: poll_inv_def holds_def)
    ultimately show ?thesis by simp
  next
    case False
    with r have j: "j \<le> ?n" "j < CONNECTIONS_LIMIT" "?ss ! j = - 1 \<or> j = ?n" by auto
    have used: "j < ?n" if "?ss ! j = - 1"
      using that zero j(1,2) by (cases "j = ?n") auto
    have num: "num = max ?n (j + 1)"
      using r False j used by (cases "?ss ! j = - 1") auto
    have "add_connection fd s = Inr (s\<lparr>slots := ?ss[j := fd], num_clients := num\<rparr>)"
      using f False j(2) len by (simp add: add_connection_def write_slot_def)
    moreover have "has_room s"
      using j len n by (cases "j = ?n") (auto simp: has_room_def in_set_conv_nth)
    ultimately show ?thesis using place_at [OF inv fd j num] num by simp
  qed
qed

definition accepted :: "poll_accept list \<Rightarrow> int list" where
  "accepted as = concat (map (\<lambda>a. case a of Accept_ok fd \<Rightarrow> [fd] | _ \<Rightarrow> []) as)"

text \<open>What the kernel gives: descriptors that are not open.\<close>

definition fresh :: "poll_server \<Rightarrow> poll_accept list \<Rightarrow> bool" where
  "fresh s as \<longleftrightarrow> distinct (accepted as) \<and> list_all (\<lambda>fd. 0 \<le> fd \<and> fd \<notin> held s) (accepted as)"

lemma held_lost [simp]: "held (s\<lparr>lost := l\<rparr>) = held s"
  by (simp add: held_def holds_def)

text \<open>
  The outcome of a part of a pass: it waits for ever, or it gives a server with a sound table and no
  fewer slots.
\<close>

definition sound_after :: "int \<Rightarrow> poll_server \<Rightarrow> (bool \<times> poll_server) prog \<Rightarrow> bool" where
  "sound_after serverfd s p \<longleftrightarrow> p = None
     \<or> (\<exists>e s'. p = ret (e, s') \<and> poll_inv serverfd s' \<and> num_clients s \<le> num_clients s')"

lemma accept_clients_sound:
  "poll_inv serverfd s \<Longrightarrow> fresh s as \<Longrightarrow> sound_after serverfd s (accept_clients as s)"
proof (induction as arbitrary: s)
  case (Cons a as)
  show ?case
  proof (cases a)
    case (Accept_ok fd)
    with Cons.prems have fd: "0 \<le> fd" "fd \<notin> held s" and fresh: "fd \<notin> set (accepted as)" "fresh s as"
      by (auto simp: fresh_def accepted_def)
    from add_connection_cases [OF Cons.prems(1) fd] obtain s' where
      s': "add_connection fd s = Inr s'" "poll_inv serverfd s'" "num_clients s \<le> num_clients s'"
        "if has_room s then placed fd s s' else s' = s\<lparr>lost := lost s @ [fd]\<rparr>" by blast
    then have "held s' \<subseteq> insert fd (held s)"
      by (auto simp: placed_def split: if_splits)
    with fresh have "fresh s' as" by (auto simp: fresh_def list_all_iff)
    from Cons.IH [OF s'(2) this] s'(1,3) Accept_ok show ?thesis
      by (auto simp: sound_after_def)
  qed (use Cons.prems in \<open>auto simp: sound_after_def\<close>)
qed (simp add: sound_after_def)

lemma echo_client_keeps:
  "echo_client fd rs s = None \<or> (\<exists>c out. echo_client fd rs s = ret (c, s\<lparr>echoed := out\<rparr>))"
proof (induction rs arbitrary: s)
  case (Cons r rs)
  have same: "\<exists>c out. ret (b, s) = ret (c, s\<lparr>echoed := out\<rparr>)" for b
    by (intro exI [of _ b] exI [of _ "echoed s"]) simp
  show ?case
  proof (cases r)
    case (Poll_data d written)
    show ?thesis
    proof (cases written)
      case True
      with Poll_data Cons.IH [of "s\<lparr>echoed := echoed s @ [(fd, d)]\<rparr>"] show ?thesis by simp
    next
      case False
      with Poll_data same [of True] show ?thesis by auto
    qed
  qed (use same [of True] same [of False] in auto)
qed simp

lemma close_slot_inv:
  assumes inv: "poll_inv serverfd s" and i: "i < num_clients s" "slots s ! i \<noteq> serverfd"
  shows "poll_inv serverfd (s\<lparr>closed := cs, slots := (slots s)[i := - 1]\<rparr>)"
proof -
  let ?s = "s\<lparr>closed := cs, slots := (slots s)[i := - 1]\<rparr>"
  have len: "length (slots s) = CONNECTIONS_LIMIT" "num_clients s \<le> CONNECTIONS_LIMIT"
    using inv by (simp_all add: poll_inv_def)
  have h: "holds ?s k x \<longleftrightarrow> k \<noteq> i \<and> holds s k x" for k x
    using i(1) len by (auto simp: holds_def nth_list_update)
  moreover have "i \<noteq> 0" using inv i(2) by (auto simp: poll_inv_def holds_def)
  moreover have "x = y" if "holds s x fd" and "holds s y fd" for x y fd
    using that inv unfolding poll_inv_def by blast
  ultimately show ?thesis using inv i(1) by (simp add: poll_inv_def) blast
qed

lemma echoed_inv [simp]: "poll_inv serverfd (s\<lparr>echoed := out\<rparr>) = poll_inv serverfd s"
  by (simp add: poll_inv_def holds_def)

lemma handle_slot_sound:
  assumes inv: "poll_inv serverfd s" and i: "i < num_clients s"
    and ok: "i = 0 \<Longrightarrow> fresh s (accepts inp)"
  shows "sound_after serverfd s (handle_slot serverfd i inp (e, s))"
proof -
  from inv i have at: "slot_at (slots s) i = Inr (slots s ! i)" and len: "i < length (slots s)"
    by (simp_all add: slot_at_def poll_inv_def)
  consider (idle) "\<not> revents inp" | (server) "revents inp" "slots s ! i = serverfd"
    | (client) "revents inp" "slots s ! i \<noteq> serverfd" by blast
  then show ?thesis
  proof cases
    case idle
    with at inv show ?thesis by (simp add: handle_slot_def sound_after_def)
  next
    case server
    with inv i have "i = 0" by (simp add: poll_inv_def holds_def)
    from accept_clients_sound [OF inv ok [OF this]] server at show ?thesis
      by (auto simp: handle_slot_def sound_after_def)
  next
    case client
    have closing: "sound_after serverfd s
        (bindP (lift_res (write_slot i (- 1) (s\<lparr>echoed := out, closed := cs\<rparr>))) (\<lambda>s. ret (e, s)))" for out cs
      using close_slot_inv [of serverfd "s\<lparr>echoed := out\<rparr>" i cs] inv i client(2) len
      by (auto simp: write_slot_def sound_after_def)
    consider "echo_client (slots s ! i) (reads_of inp) s = None"
      | c out where "echo_client (slots s ! i) (reads_of inp) s = ret (c, s\<lparr>echoed := out\<rparr>)"
      using echo_client_keeps [of "slots s ! i" "reads_of inp" s] by (elim disjE exE)
    then show ?thesis
    proof cases
      case 1
      with client at show ?thesis by (simp add: handle_slot_def sound_after_def)
    next
      case 2
      with client at inv closing show ?thesis
        by (cases c) (simp_all add: handle_slot_def sound_after_def [of _ _ "ret _"])
    qed
  qed
qed

lemma handle_slots_sound:
  "poll_inv serverfd s \<Longrightarrow> i + length inps \<le> num_clients s \<Longrightarrow>
    (i = 0 \<Longrightarrow> inps \<noteq> [] \<Longrightarrow> fresh s (accepts (hd inps))) \<Longrightarrow>
    sound_after serverfd s (handle_slots serverfd i inps (e, s))"
proof (induction inps arbitrary: i e s)
  case Nil
  then show ?case by (simp add: sound_after_def)
next
  case (Cons inp inps)
  from handle_slot_sound [OF Cons.prems(1), of i inp e] Cons.prems(2,3)
  have "sound_after serverfd s (handle_slot serverfd i inp (e, s))" by auto
  then consider "handle_slot serverfd i inp (e, s) = None"
    | e1 s1 where "handle_slot serverfd i inp (e, s) = ret (e1, s1)" "poll_inv serverfd s1"
        "num_clients s \<le> num_clients s1" by (auto simp: sound_after_def)
  then show ?case
  proof cases
    case 2
    with Cons.IH [OF 2(2), of "i + 1" e1] Cons.prems(2) show ?thesis by (auto simp: sound_after_def)
  qed (simp add: sound_after_def)
qed

section \<open>Runs of the server\<close>

text \<open>The loop: a pass after the other until the server is to exit.\<close>

definition poll_step ::
  "int \<Rightarrow> (bool \<times> poll_server) prog \<Rightarrow> slot_input list \<Rightarrow> (bool \<times> poll_server) prog" where
  "poll_step serverfd p inps =
     bindP p (\<lambda>(exiting, s). if exiting then ret (exiting, s) else poll_pass serverfd inps s)"

definition poll_ok :: "(bool \<times> poll_server) prog \<Rightarrow> slot_input list \<Rightarrow> bool" where
  "poll_ok p inps \<longleftrightarrow>
     (\<forall>exiting s inp rest. p = ret (exiting, s) \<longrightarrow> inps = inp # rest \<longrightarrow> fresh s (accepts inp))"

definition poll_kept :: "int \<Rightarrow> (bool \<times> poll_server) prog \<Rightarrow> bool" where
  "poll_kept serverfd p \<longleftrightarrow> p = None \<or> (\<exists>exiting s. p = ret (exiting, s) \<and> poll_inv serverfd s)"

interpretation poller: event_machine "poll_step serverfd" "poll_kept serverfd" poll_ok for serverfd
proof
  fix p inps
  assume inv: "poll_kept serverfd p" and ok: "poll_ok p inps"
  then consider "p = None" | s where "p = ret (True, s)" "poll_inv serverfd s"
    | s where "p = ret (False, s)" "poll_inv serverfd s"
    unfolding poll_kept_def by (metis (full_types))
  then show "poll_kept serverfd (poll_step serverfd p inps)"
  proof cases
    case 3
    have "sound_after serverfd s (handle_slots serverfd 0 (take (num_clients s) inps) (False, s))"
    proof (rule handle_slots_sound [OF 3(2)])
      show "fresh s (accepts (hd (take (num_clients s) inps)))" if "take (num_clients s) inps \<noteq> []"
        using ok 3(1) that by (cases inps; cases "num_clients s") (auto simp: poll_ok_def)
    qed simp
    with 3 show ?thesis by (auto simp: poll_step_def poll_pass_def poll_kept_def sound_after_def)
  qed (auto simp: poll_step_def poll_kept_def)
qed

section \<open>The client\<close>

record poll_client =
  pc_slots :: "int list"
  pc_free :: "nat list"                 \<comment> \<open>a stack, its top first\<close>
  request_count :: "(int, int) umap"
  pc_num_clients :: nat
  num_connected :: int
  num_completed :: int

definition new_poll_client :: poll_client where
  "new_poll_client = \<lparr>pc_slots = replicate CONNECTIONS_LIMIT 0, pc_free = rev [0..<CONNECTIONS_LIMIT],
     request_count = [], pc_num_clients = 0, num_connected = 0, num_completed = 0\<rparr>"

text \<open>What the calls of one round give: of a new connection, of \<open>poll\<close>, and for each slot.\<close>

datatype connect_result = No_socket | No_connection | Connected int bool

datatype answer_read = Answer_fails | Answer_eof | Answer bool

record round =
  connecting :: connect_result
  poll_result :: int
  answers_of :: "(bool \<times> answer_read) list"

definition connect_one :: "int \<Rightarrow> connect_result \<Rightarrow> poll_client \<Rightarrow> poll_client res" where
  "connect_one connections r c =
     (if num_connected c < connections then
        (case pc_free c of
           [] \<Rightarrow> Inr c
         | i # free \<Rightarrow>
             (case r of
                No_socket \<Rightarrow> Inl (RuntimeError ''new socket'')
              | No_connection \<Rightarrow> Inl (RuntimeError ''new connect'')
              | Connected fd written \<Rightarrow>
                  if written then
                    Inr (c\<lparr>pc_slots := (pc_slots c)[i := fd], pc_free := free,
                      request_count := um_set fd 1 (request_count c), num_connected := num_connected c + 1\<rparr>)
                  else Inl (RuntimeError ''Initial client request!'')))
      else Inr c)"

text \<open>One answer, whether the connection is then closed, and the request that follows.\<close>

definition handle_answer :: "int \<Rightarrow> answer_read \<Rightarrow> int \<Rightarrow> poll_client \<Rightarrow> (bool \<times> poll_client) res" where
  "handle_answer requests a fd c =
     (case a of
        Answer_fails \<Rightarrow> Inr (True, c)
      | Answer_eof \<Rightarrow> Inr (True, c)
      | Answer written \<Rightarrow>
          (let n = (case um_find (request_count c) fd of None \<Rightarrow> 0 | Some n \<Rightarrow> n) in
           if n < requests then
             if written then Inr (False, c\<lparr>request_count := um_set fd (n + 1) (request_count c)\<rparr>)
             else Inl (RuntimeError ''Client request'')
           else Inr (True, c)))"

fun handle_answers ::
  "int \<Rightarrow> nat \<Rightarrow> int \<Rightarrow> (bool \<times> answer_read) list \<Rightarrow> poll_client \<Rightarrow> poll_client res" where
  "handle_answers requests i res [] c = Inr c"
| "handle_answers requests i res ((ready, a) # as) c =
     (let fd = pc_slots c ! i in
      if fd = - 1 \<or> \<not> ready then handle_answers requests (i + 1) res as c
      else bindR (handle_answer requests a fd c) (\<lambda>(close_connection, c).
        let c = (if close_connection then
              c\<lparr>pc_slots := (pc_slots c)[i := - 1], pc_free := i # pc_free c,
                num_completed := num_completed c + 1\<rparr> else c)
        in if res - 1 = 0 then Inr c else handle_answers requests (i + 1) (res - 1) as c))"

partial_function (option) client_rounds ::
  "int \<Rightarrow> int \<Rightarrow> (nat \<Rightarrow> round) \<Rightarrow> nat \<Rightarrow> poll_client \<Rightarrow> poll_client prog" where
  "client_rounds requests connections rounds i c =
     bindP (lift_res (connect_one connections (connecting (rounds i)) c)) (\<lambda>c.
       if poll_result (rounds i) < 0 then ret c
       else bindP (lift_res (if 0 < poll_result (rounds i)
             then handle_answers requests 0 (poll_result (rounds i))
               (take (pc_num_clients c) (answers_of (rounds i))) c
             else Inr c)) (\<lambda>c.
         if connections \<le> num_connected c \<and> connections \<le> num_completed c then ret c
         else client_rounds requests connections rounds (i + 1) c))"

declare client_rounds.simps [code]

definition no_answers :: "poll_client \<Rightarrow> bool" where
  "no_answers c \<longleftrightarrow> pc_num_clients c = 0 \<and> num_completed c = 0"

lemma connect_one_no_answers: "connect_one connections r c = Inr c' \<Longrightarrow> no_answers c \<Longrightarrow> no_answers c'"
  by (auto simp: connect_one_def no_answers_def split: if_splits list.splits connect_result.splits)

definition poll_never_fails :: "(nat \<Rightarrow> round) \<Rightarrow> bool" where
  "poll_never_fails rounds \<longleftrightarrow> (\<forall>i. 0 \<le> poll_result (rounds i))"

lemma client_rounds_never_end:
  assumes "client_rounds requests connections rounds i c = Some r"
  shows "no_answers c \<longrightarrow> 0 < connections \<longrightarrow> poll_never_fails rounds \<longrightarrow> (\<exists>e. r = Inl e)"
proof (rule client_rounds.raw_induct [OF _ assms])
  fix again :: "int \<Rightarrow> int \<Rightarrow> (nat \<Rightarrow> round) \<Rightarrow> nat \<Rightarrow> poll_client \<Rightarrow> poll_client prog"
    and requests connections rounds i c r
  assume IH: "\<And>requests connections rounds i c r. again requests connections rounds i c = Some r \<Longrightarrow>
      no_answers c \<longrightarrow> 0 < connections \<longrightarrow> poll_never_fails rounds \<longrightarrow> (\<exists>e. r = Inl e)"
    and r: "bindP (lift_res (connect_one connections (connecting (rounds i)) c)) (\<lambda>c.
       if poll_result (rounds i) < 0 then ret c
       else bindP (lift_res (if 0 < poll_result (rounds i)
             then handle_answers requests 0 (poll_result (rounds i))
               (take (pc_num_clients c) (answers_of (rounds i))) c
             else Inr c)) (\<lambda>c.
         if connections \<le> num_connected c \<and> connections \<le> num_completed c then ret c
         else again requests connections rounds (i + 1) c)) = Some r"
  show "no_answers c \<longrightarrow> 0 < connections \<longrightarrow> poll_never_fails rounds \<longrightarrow> (\<exists>e. r = Inl e)"
  proof (intro impI)
    assume a: "no_answers c" and n: "0 < connections" and p: "poll_never_fails rounds"
    show "\<exists>e. r = Inl e"
    proof (cases "connect_one connections (connecting (rounds i)) c")
      case (Inl e)
      with r show ?thesis by (auto simp: fail_def)
    next
      case (Inr c1)
      from connect_one_no_answers [OF Inr a] have c1: "no_answers c1" .
      from p have "\<not> poll_result (rounds i) < 0" by (simp add: poll_never_fails_def not_less)
      with r Inr c1 n have "again requests connections rounds (i + 1) c1 = Some r"
        by (simp add: no_answers_def split: if_splits)
      from IH [OF this] c1 n p show ?thesis by blast
    qed
  qed
qed

section \<open>Claims\<close>

text \<open>
  C30. The table of the echo server stays sound through all passes, as long as the kernel accepts
  connections under descriptors that are not open: whatever else \<open>poll\<close>, \<open>accept\<close>, \<open>read\<close> and \<open>write\<close>
  give, no pass reads or writes behind the table, which would be a fault, not even with more
  connections than slots.  Unless it waits for ever in a call, the server has a table of the same
  size, the listening socket in the first slot, and no descriptor in two slots.
\<close>

theorem poll_server_keeps_its_table:
  assumes "0 \<le> serverfd"
    and "admissible_run (poll_step serverfd) poll_ok (ret (False, new_poll_server serverfd)) passes"
    and "run_steps (poll_step serverfd) (ret (False, new_poll_server serverfd)) passes = p"
  shows "p = None \<or> (\<exists>exiting s. p = ret (exiting, s) \<and> length (slots s) = CONNECTIONS_LIMIT
    \<and> slots s ! 0 = serverfd \<and> num_clients s \<le> CONNECTIONS_LIMIT
    \<and> (\<forall>i j. i < j \<longrightarrow> j < num_clients s \<longrightarrow> slots s ! i = slots s ! j \<longrightarrow> slots s ! i = - 1))"
proof -
  have "poll_kept serverfd (ret (False, new_poll_server serverfd))"
    using assms(1) by (auto simp: poll_kept_def poll_inv_def new_poll_server_def holds_def
        CONNECTIONS_LIMIT_def nth_list_update)
  from poller.run_inv [OF this assms(2)] assms(3) have "poll_kept serverfd p" by simp
  then consider "p = None" | e s where "p = ret (e, s)" "poll_inv serverfd s"
    by (auto simp: poll_kept_def)
  then show ?thesis
  proof cases
    case 2
    have "slots s ! i = - 1" if "i < j" "j < num_clients s" "slots s ! i = slots s ! j" for i j
    proof (rule ccontr)
      assume "slots s ! i \<noteq> - 1"
      with that have "holds s i (slots s ! i)" "holds s j (slots s ! i)" by (simp_all add: holds_def)
      with 2(2) that(1) show False unfolding poll_inv_def by blast
    qed
    with 2 show ?thesis by (auto simp: poll_inv_def holds_def)
  qed simp
qed

definition two_passes :: "slot_input list list" where
  "two_passes = [[\<lparr>revents = True, accepts = [Accept_ok 7, Accept_ok 8, Accept_empty], reads_of = []\<rparr>],
     [\<lparr>revents = False, accepts = [], reads_of = []\<rparr>,
      \<lparr>revents = True, accepts = [], reads_of = [Poll_data ''hi'' True, Poll_eof]\<rparr>]]"

lemma poll_server_keeps_its_table_witness:
  "\<exists>s. run_steps (poll_step 3) (ret (False, new_poll_server 3)) two_passes = ret (False, s)
    \<and> slots s ! 0 = 3 \<and> length (slots s) = CONNECTIONS_LIMIT"
proof -
  have "holds (new_poll_server 3) i fd \<Longrightarrow> fd = 3" for i fd
    by (auto simp: holds_def new_poll_server_def CONNECTIONS_LIMIT_def nth_list_update)
  then have "held (new_poll_server 3) \<subseteq> {3}" by (auto simp: held_def)
  then have "poll_ok (ret (False, new_poll_server 3)) (hd two_passes)"
    by (auto simp: two_passes_def fresh_def accepted_def poll_ok_def)
  moreover have "poll_ok p (two_passes ! 1)" for p
    by (auto simp: two_passes_def fresh_def accepted_def poll_ok_def)
  ultimately have ok: "admissible_run (poll_step 3) poll_ok (ret (False, new_poll_server 3)) two_passes"
    by (simp add: two_passes_def)
  have "case run_steps (poll_step 3) (ret (False, new_poll_server 3)) two_passes of
      Some (Inr (exiting, s)) \<Rightarrow> \<not> exiting | _ \<Rightarrow> False" by code_simp
  then obtain s where "run_steps (poll_step 3) (ret (False, new_poll_server 3)) two_passes = ret (False, s)"
    by (auto simp: ret_def split: option.splits sum.splits)
  with poll_server_keeps_its_table [OF _ ok refl] show ?thesis by auto
qed

text \<open>
  When the table is full, the connections that are still accepted are lost: no slot holds them,
  so that the server neither answers nor closes them.
\<close>

theorem full_table_loses_connections:
  assumes "poll_inv serverfd s" and "\<not> has_room s" and "distinct fds"
    and "list_all (\<lambda>fd. 0 \<le> fd \<and> fd \<notin> held s) fds"
  shows "accept_clients (map Accept_ok fds @ [Accept_empty]) s = ret (False, s\<lparr>lost := lost s @ fds\<rparr>)"
  using assms
proof (induction fds arbitrary: s)
  case (Cons fd fds)
  then have "add_connection fd s = Inr (s\<lparr>lost := lost s @ [fd]\<rparr>)"
    using add_connection_cases [OF Cons.prems(1), of fd] by auto
  moreover have "poll_inv serverfd (s\<lparr>lost := lost s @ [fd]\<rparr>)" "\<not> has_room (s\<lparr>lost := lost s @ [fd]\<rparr>)"
    using Cons.prems(1,2) by (simp_all add: poll_inv_def holds_def has_room_def)
  ultimately show ?case using Cons.IH [of "s\<lparr>lost := lost s @ [fd]\<rparr>"] Cons.prems(3,4) by simp
qed simp

definition full_server :: poll_server where
  "full_server = \<lparr>slots = map (\<lambda>i. int i + 3) [0..<CONNECTIONS_LIMIT],
     num_clients = CONNECTIONS_LIMIT, echoed = [], closed = [], lost = []\<rparr>"

lemma full_table_loses_connections_witness:
  "accept_clients [Accept_ok 9000, Accept_empty] full_server = ret (False, full_server\<lparr>lost := [9000]\<rparr>)"
proof -
  have h: "holds full_server i fd \<longleftrightarrow> i < CONNECTIONS_LIMIT \<and> fd = int i + 3" for i fd
    by (auto simp: holds_def full_server_def)
  have pos: "0 < CONNECTIONS_LIMIT" "CONNECTIONS_LIMIT < 8000" by (simp_all add: CONNECTIONS_LIMIT_def)
  have "poll_inv 3 full_server"
    unfolding poll_inv_def h using pos(1) by (auto simp: full_server_def)
  moreover have "\<not> has_room full_server"
    by (auto simp: has_room_def full_server_def)
  moreover have "(9000 :: int) \<notin> held full_server"
    using pos(2) by (auto simp: held_def h)
  ultimately have "accept_clients (map Accept_ok [9000] @ [Accept_empty]) full_server =
      ret (False, full_server\<lparr>lost := lost full_server @ [9000]\<rparr>)"
    by (intro full_table_loses_connections) simp_all
  then show ?thesis by (simp add: full_server_def)
qed

text \<open>
  The client with \<open>poll\<close> never completes: nothing counts the slots in use, so that \<open>poll\<close> is
  asked for none, no answer is read, and the loop goes on until a call fails.
\<close>

theorem poll_client_never_completes:
  assumes "0 < connections" and "poll_never_fails rounds"
  shows "client_rounds requests connections rounds 0 new_poll_client \<noteq> ret c"
proof
  assume "client_rounds requests connections rounds 0 new_poll_client = ret c"
  with client_rounds_never_end [of requests connections rounds 0 new_poll_client] assms
  show False by (auto simp: ret_def no_answers_def new_poll_client_def)
qed

lemma poll_client_never_completes_witness:
  "client_rounds 1 1 (\<lambda>_. \<lparr>connecting = Connected 5 True, poll_result = 0, answers_of = []\<rparr>) 0 new_poll_client
     \<noteq> ret new_poll_client"
  by (rule poll_client_never_completes) (simp_all add: poll_never_fails_def)

end
