(* ===== verification/Services.thy ===== *)
theory Services
  imports JsonRoundtrip
begin

text \<open>
  Small programs on top of the library: the chat over TCP (\<open>examples/chat-server.cpp\<close>,
  \<open>examples/chat-client.cpp\<close>) and over WebSockets (\<open>examples/chat.cpp\<close>), the message board and the
  service table (\<open>examples/libjaypea-api.cpp\<close>), the music library (\<open>examples/music.cpp\<close>), the key
  reader (\<open>examples/read-stdin-tty.cpp\<close>), and \<open>SimpleTcpServer\<close>.
\<close>

section \<open>The chat server\<close>

datatype receiver = To int | Broadcast

record chat_server =
  packet_data :: JsonObject
  client_data :: "(int, string) umap"
  cs_sent :: "(receiver \<times> string) list"

definition new_chat_server :: chat_server where
  "new_chat_server = \<lparr>packet_data = message_of [(''type'', []), (''message'', []), (''handle'', [])],
     client_data = [], cs_sent = []\<rparr>"

definition cs_on_connect :: "int \<Rightarrow> chat_server \<Rightarrow> chat_server" where
  "cs_on_connect fd s = s\<lparr>client_data := um_set fd [] (client_data s)\<rparr>"

definition cs_send :: "receiver \<Rightarrow> string \<Rightarrow> chat_server \<Rightarrow> chat_server" where
  "cs_send r message s = s\<lparr>cs_sent := cs_sent s @ [(r, message)]\<rparr>"

definition handle_of :: "int \<Rightarrow> chat_server \<Rightarrow> string" where
  "handle_of fd s = (case um_find (client_data s) fd of None \<Rightarrow> [] | Some h \<Rightarrow> h)"

definition string_at :: "JsonObject \<Rightarrow> string \<Rightarrow> string res" where
  "string_at j k = (case um_find (objectValues j) k of None \<Rightarrow> Inl NullDeref | Some v \<Rightarrow> Inr (stringValue v))"

text \<open>
  \<open>clean\<close> returns a pointer into a string that is gone when it returns: reading it is a fault.
\<close>

datatype pointer = Live string | Dangling string

definition clean_text :: "string \<Rightarrow> pointer" where
  "clean_text s = Dangling (c_str (filter (\<lambda>c. 31 < schar c) s))"

definition read_pointer :: "pointer \<Rightarrow> string res" where
  "read_pointer p = (case p of Live s \<Rightarrow> Inr s | Dangling s \<Rightarrow> Inl OutOfBounds)"

definition cs_packet :: "bool \<Rightarrow> int \<Rightarrow> int \<Rightarrow> chat_server \<Rightarrow> (int \<times> chat_server) res" where
  "cs_packet send_fails fd data_length s =
     bindR (string_at (packet_data s) ''type'') (\<lambda>t.
       if c_str t = ''enter'' then
         bindR (string_at (packet_data s) ''handle'') (\<lambda>handle.
           let s = s\<lparr>client_data := um_set fd handle (client_data s)\<rparr> in
           if length handle < 5 then
             Inr (- 1, cs_send (To fd) ''Your handle is less than 5 characters... bye!'' s)
           else Inr (data_length, cs_send Broadcast (handle @ '' has connected.'') s))
       else if c_str t = ''message'' then
         bindR (string_at (packet_data s) ''message'') (\<lambda>m.
           let long = 128 < length m;
               s = (if long then cs_send (To fd) (''Messages longer than 128 characters are truncated, sorry.'' @ [LF]) s
                    else s)
           in if long \<and> send_fails then Inr (- 1, s)
              else bindR (read_pointer (clean_text (c_str (take 128 m)))) (\<lambda>c.
                Inr (data_length, cs_send Broadcast (handle_of fd s @ '' > '' @ c) s)))
       else Inr (- 1, cs_send (To fd) ''You provided an invalid packet type... bye!'' s))"

definition cs_on_read ::
  "bool \<Rightarrow> int \<Rightarrow> string \<Rightarrow> chat_server \<Rightarrow> (int \<times> chat_server) prog" where
  "cs_on_read send_fails fd packet s =
     bindP (lift_res (assign_members [(''type'', []), (''message'', []), (''handle'', [])] (packet_data s)))
       (\<lambda>pd. bindP (parse_into pd (c_str packet)) (\<lambda>pd.
         lift_res (cs_packet send_fails fd (int (length packet)) (s\<lparr>packet_data := pd\<rparr>))))"

definition cs_on_disconnect :: "int \<Rightarrow> chat_server \<Rightarrow> chat_server" where
  "cs_on_disconnect fd s = cs_send Broadcast (handle_of fd s @ '' has disconnected.'')
     (s\<lparr>client_data := um_set fd (handle_of fd s) (client_data s)\<rparr>)"

section \<open>The chat client\<close>

record chat_client =
  cc_handle :: string
  line :: string
  cc_packet :: JsonObject
  wrote :: "string list"
  shown_text :: string

datatype chat_input = Typed char | Nothing_typed | Received string | Kicked

definition chosen_handle :: "string \<Rightarrow> string" where
  "chosen_handle given = (if given = [] then ''Anonymous'' else given)"

definition new_chat_client :: "string \<Rightarrow> chat_client" where
  "new_chat_client handle =
     (let pd = message_of [(''type'', ''enter''), (''handle'', handle), (''message'', [])]
      in \<lparr>cc_handle = handle, line = [], cc_packet = pd, wrote = [stringify False 0 pd],
        shown_text = handle @ '' << ''\<rparr>)"

text \<open>One character or packet; \<open>None\<close> in place of the client is the end of the loop.\<close>

definition cc_step :: "chat_input \<Rightarrow> chat_client \<Rightarrow> chat_client option res" where
  "cc_step inp c =
     (case inp of
        Nothing_typed \<Rightarrow> Inr (Some c)
      | Typed ch \<Rightarrow>
          if ch = LF then
            bindR (assign_members [(''type'', ''message''), (''message'', line c)] (cc_packet c)) (\<lambda>pd.
              Inr (Some (c\<lparr>cc_packet := pd, wrote := wrote c @ [stringify False 0 pd], line := []\<rparr>)))
          else Inr (Some (c\<lparr>line := line c @ [ch], shown_text := shown_text c @ [ch]\<rparr>))
      | Kicked \<Rightarrow> Inr None
      | Received d \<Rightarrow>
          if 16384 \<le> length d then Inl OutOfBounds
          else Inr (Some (c\<lparr>shown_text := shown_text c @ [CR] @ c_str d @ [LF] @ cc_handle c @ '' << '' @ line c\<rparr>)))"

fun cc_run :: "chat_input list \<Rightarrow> chat_client \<Rightarrow> chat_client option res" where
  "cc_run [] c = Inr (Some c)"
| "cc_run (inp # inps) c =
     bindR (cc_step inp c) (\<lambda>r. case r of None \<Rightarrow> Inr None | Some c \<Rightarrow> cc_run inps c)"

section \<open>The chat over WebSockets\<close>

definition status_text :: "string \<Rightarrow> string" where
  "status_text s = stringify False 0 (message_of [(''status'', s)])"

text \<open>What is sent, and the result.\<close>

definition chat_relay ::
  "bool \<Rightarrow> bool \<Rightarrow> int \<Rightarrow> string \<Rightarrow> ((receiver \<times> string) list \<times> int) prog" where
  "chat_relay broadcast_fails send_fails fd d =
     bindP (parse_into new_empty (c_str d)) (\<lambda>msg. lift_res (
       let finish = (\<lambda>out status. Inr (out @ [(To fd, status_text status)],
             if send_fails then - 1 else int (length d)))
       in if HasObj msg ''handle'' STRING \<and> HasObj msg ''message'' STRING then
            bindR (GetStr msg ''handle'') (\<lambda>h. bindR (GetStr msg ''message'') (\<lambda>m.
              if length h < 5 then finish [] ''Handle too short.''
              else if 16 < length h then finish [] ''Handle too long.''
              else if length m < 2 then finish [] ''Message too short.''
              else if 256 < length m then finish [] ''Message too long.''
              else if broadcast_fails then Inr ([], - 1)
              else finish [(Broadcast, d)] ''Sent.''))
          else finish [] ''Must provide handle and message.''))"

section \<open>The message board and the service table\<close>

definition post_message :: "JsonObject \<Rightarrow> string list \<Rightarrow> (string \<times> string list) res" where
  "post_message json messages =
     bindR (string_at json ''message'') (\<lambda>m.
       Inr (''{'' @ [DQ] @ ''result'' @ [DQ] @ '':'' @ [DQ] @ ''Message posted.'' @ [DQ] @ ''}'',
         let ms = m # messages in if 100 < length ms then butlast ms else ms))"

definition board_json :: "string list \<Rightarrow> JsonObject" where
  "board_json messages = set_objectValue ''result''
     (foldl (\<lambda>a m. push_arrayValue (new_string m) a) (new_typed ARRAY) messages) (new_typed OBJECT)"

definition get_messages :: "string list \<Rightarrow> string" where
  "get_messages messages = stringify False 0 (board_json messages)"

definition host_service :: "string \<Rightarrow> JsonObject \<Rightarrow> JsonObject \<Rightarrow> string res" where
  "host_service password services json =
     bindR (GetStr json ''token'') (\<lambda>token.
       if token \<noteq> password then Inr []
       else bindR (GetStr json ''host'') (\<lambda>host. bindR (GetStr json ''service'') (\<lambda>service.
            case um_find (objectValues services) host of
              None \<Rightarrow> Inr []
            | Some h \<Rightarrow>
                if jtype h \<noteq> OBJECT then Inr []
                else (case um_find (objectValues h) service of
                    None \<Rightarrow> Inr [] | Some v \<Rightarrow> Inr (stringify True 0 v)))))"

section \<open>The music library\<close>

text \<open>A directory as \<open>readdir\<close> and \<open>lstat\<close> show it; \<open>Unreadable\<close> cannot be opened or looked at.\<close>

datatype dir_entry =
    Directory string "dir_entry list"
  | Regular string
  | Special string
  | Unreadable string

fun entry_name :: "dir_entry \<Rightarrow> string" where
  "entry_name (Directory n es) = n"
| "entry_name (Regular n) = n"
| "entry_name (Special n) = n"
| "entry_name (Unreadable n) = n"

datatype songset = Songset (set_name: string) (sets: "(string \<times> songset) list") (songs: "string list")

definition name_set :: "string \<Rightarrow> songset \<Rightarrow> songset" where
  "name_set n s = Songset n (sets s) (songs s)"

definition add_set :: "string \<Rightarrow> songset \<Rightarrow> songset \<Rightarrow> songset" where
  "add_set new_path sub s = Songset (set_name s) (um_set new_path sub (sets s)) (songs s)"

text \<open>The set of a directory has no name until its parent gives it one.\<close>

fun get_songset :: "string \<Rightarrow> dir_entry list \<Rightarrow> songset \<Rightarrow> songset res" where
  "get_songset path [] new_set = Inr new_set"
| "get_songset path (e # es) new_set =
     (if peek (entry_name e) = CHR ''.'' then get_songset path es new_set
      else let new_path = path @ ''/'' @ entry_name e in
        (case e of
           Unreadable n \<Rightarrow> Inl (RuntimeError ''opendir'')
         | Special n \<Rightarrow> get_songset path es new_set
         | Regular n \<Rightarrow>
             get_songset path es (Songset (set_name new_set) (sets new_set) (songs new_set @ [new_path]))
         | Directory n ents \<Rightarrow>
             bindR (get_songset new_path ents (Songset [] [] [])) (\<lambda>sub.
               get_songset path es (add_set new_path (name_set n sub) new_set))))"

fun find_set :: "songset \<Rightarrow> string \<Rightarrow> songset option"
  and find_in :: "(string \<times> songset) list \<Rightarrow> string \<Rightarrow> songset option" where
  "find_set (Songset name ss titles) n = find_in ss n"
| "find_in [] n = None"
| "find_in ((p, s) # ss) n =
     (if set_name s = n then Some s
      else case find_set s n of Some r \<Rightarrow> Some r | None \<Rightarrow> find_in ss n)"

text \<open>A comma follows every song that is not equal to the last.\<close>

definition song_list :: "string list \<Rightarrow> string" where
  "song_list ss = concat (map (\<lambda>s. [DQ] @ s @ [DQ] @ (if s = last ss then [] else '','')) ss)"

definition get_set :: "songset \<Rightarrow> JsonObject \<Rightarrow> string res" where
  "get_set library json =
     bindR (GetStr json ''set'') (\<lambda>n.
       case find_set library n of
         None \<Rightarrow> Inr (''{'' @ [DQ] @ ''error'' @ [DQ] @ '','' @ [DQ] @ ''No set.'' @ [DQ] @ ''}'')
       | Some s \<Rightarrow> Inr (''{'' @ [DQ] @ ''songs'' @ [DQ] @ '':['' @ song_list (songs s) @ '']}''))"

section \<open>The key reader\<close>

definition STDIN_MAX :: nat where "STDIN_MAX = 10"

datatype key = Stop | Up | Down | Right_key | Left_key | Other "int list"

text \<open>\<open>print\<close> writes the numbers of the characters up to a NUL, which the array need not hold.\<close>

definition print_chars :: "string \<Rightarrow> int list res" where
  "print_chars chars =
     (if NUL \<in> set chars then Inr (map schar (c_str chars)) else Inl OutOfBounds)"

text \<open>What \<open>read\<close> put into the array, which was cleared before.\<close>

definition key_of :: "string \<Rightarrow> key res" where
  "key_of d =
     (let chars = d @ replicate (STDIN_MAX - length d) NUL in
      if uchar (chars ! 0) = 3 then Inr Stop
      else if uchar (chars ! 0) = 27 \<and> uchar (chars ! 1) = 91 then
        (if uchar (chars ! 2) = 65 then Inr Up
         else if uchar (chars ! 2) = 66 then Inr Down
         else if uchar (chars ! 2) = 67 then Inr Right_key
         else if uchar (chars ! 2) = 68 then Inr Left_key
         else bindR (print_chars chars) (\<lambda>ns. Inr (Other ns)))
      else bindR (print_chars chars) (\<lambda>ns. Inr (Other ns)))"

fun read_keys :: "string option list \<Rightarrow> key list res" where
  "read_keys [] = Inr []"
| "read_keys (None # ds) = Inr []"
| "read_keys (Some d # ds) =
     bindR (key_of d) (\<lambda>k. if k = Stop then Inr [Stop]
       else bindR (read_keys ds) (\<lambda>ks. Inr (k # ks)))"

section \<open>The simple server\<close>

record simple_server =
  hit :: nat
  listening :: bool

text \<open>The constructor, by the results of its three calls.\<close>

definition new_simple_server :: "bool \<Rightarrow> bool \<Rightarrow> bool \<Rightarrow> simple_server res" where
  "new_simple_server socket_ok bind_ok listen_ok =
     (if \<not> socket_ok then Inl (RuntimeError ''SimpleTcpServer socket'')
      else if \<not> bind_ok then Inl (RuntimeError ''SimpleTcpServer bind'')
      else if \<not> listen_ok then Inl (RuntimeError ''SimpleTcpServer listen'')
      else Inr \<lparr>hit = 1, listening = True\<rparr>)"

definition accept_connection :: "int \<Rightarrow> simple_server \<Rightarrow> (int \<times> simple_server) res" where
  "accept_connection client_fd s =
     (if client_fd < 0 then Inl (RuntimeError ''SimpleTcpServer accept'')
      else Inr (client_fd, s\<lparr>hit := hit s + 1\<rparr>))"

section \<open>Packets of the chat\<close>

lemma chat_members:
  assumes "clean t" "clean h" "clean m"
    and pd: "pd = message_of [(''type'', t0), (''message'', m0), (''handle'', h0)]"
  shows "parse_into pd (c_str (text_of [(''type'', t), (''handle'', h), (''message'', m)])) =
    ret (message_of [(''type'', t), (''message'', m), (''handle'', h)])"
proof -
  let ?kvs = "[(''type'', t), (''handle'', h), (''message'', m)]"
  have kvs: "list_all (\<lambda>(k, v). clean k \<and> clean v) ?kvs" using assms(1-3) by (simp add: clean_def)
  note r = reread_strings [OF kvs]
  then have p: "printable (message_of ?kvs)" by (simp add: message_of_def)
  then have nul: "NUL \<notin> set (text_of ?kvs)" unfolding text_of_def by (rule stringify_no_NUL(1))
  have "parse_into pd (text_of ?kvs) = ret (JsonObject OBJECT []
      (reread_members (map (\<lambda>(k, v). (k, new_string v)) [(''type'', t0), (''message'', m0), (''handle'', h0)])
        (map (\<lambda>(k, v). (k, new_string v)) ?kvs)) [])"
    using parse_into_object [of "[]" "map (\<lambda>(k, v). (k, new_string v)) ?kvs" "[]"
        "map (\<lambda>(k, v). (k, new_string v)) [(''type'', t0), (''message'', m0), (''handle'', h0)]" False 0]
      p unfolding text_of_def pd message_of_def by simp
  then show ?thesis
    using r nul by (simp add: c_str_id) (simp add: message_of_def um_set_def)
qed

lemma chat_reset:
  "assign_members [(''type'', []), (''message'', []), (''handle'', [])]
     (message_of [(''type'', t0), (''message'', m0), (''handle'', h0)]) =
   Inr (message_of [(''type'', []), (''message'', []), (''handle'', [])])"
  by (simp add: assign_member_def message_of_def um_find_Cons um_set_def new_string_def)

lemma chat_line_packet:
  "assign_members [(''type'', ''message''), (''message'', l)]
     (message_of [(''type'', t0), (''handle'', h), (''message'', m0)]) =
   Inr (message_of [(''type'', ''message''), (''handle'', h), (''message'', l)])"
  by (simp add: assign_member_def message_of_def um_find_Cons um_set_def new_string_def)

lemma string_at_members:
  "string_at (message_of [(''type'', t), (''message'', m), (''handle'', h)]) ''type'' = Inr t"
  "string_at (message_of [(''type'', t), (''message'', m), (''handle'', h)]) ''message'' = Inr m"
  "string_at (message_of [(''type'', t), (''message'', m), (''handle'', h)]) ''handle'' = Inr h"
  by (simp_all add: string_at_def message_of_def um_find_Cons new_string_def)

lemma typed_line:
  "LF \<notin> set l \<Longrightarrow> \<exists>shown. cc_run (map Typed l @ inps) c =
    cc_run inps (c\<lparr>line := line c @ l, shown_text := shown\<rparr>)"
proof (induction l arbitrary: c)
  case Nil
  show ?case by (intro exI [of _ "shown_text c"]) simp
next
  case (Cons ch l)
  let ?c = "c\<lparr>line := line c @ [ch], shown_text := shown_text c @ [ch]\<rparr>"
  from Cons.IH [of ?c] Cons.prems obtain shown where
    "cc_run (map Typed l @ inps) ?c = cc_run inps (?c\<lparr>line := line ?c @ l, shown_text := shown\<rparr>)" by auto
  moreover from Cons.prems have "ch \<noteq> LF" by auto
  ultimately show ?case by (intro exI [of _ shown]) (simp add: cc_step_def)
qed

definition sends_lines :: "string \<Rightarrow> string list \<Rightarrow> string list" where
  "sends_lines h ls = text_of [(''type'', ''enter''), (''handle'', h), (''message'', [])]
     # map (\<lambda>l. text_of [(''type'', ''message''), (''handle'', h), (''message'', l)]) ls"

lemma typed_lines:
  assumes "cc_packet c = message_of [(''type'', t0), (''handle'', h), (''message'', m0)]" and "line c = []"
    and "list_all (\<lambda>l. LF \<notin> set l) ls"
  shows "\<exists>c'. cc_run (concat (map (\<lambda>l. map Typed l @ [Typed LF]) ls)) c = Inr (Some c')
    \<and> wrote c' = wrote c @ map (\<lambda>l. text_of [(''type'', ''message''), (''handle'', h), (''message'', l)]) ls"
  using assms
proof (induction ls arbitrary: c t0 m0)
  case (Cons l ls)
  let ?p = "message_of [(''type'', ''message''), (''handle'', h), (''message'', l)]"
  from typed_line [of l "Typed LF # concat (map (\<lambda>l. map Typed l @ [Typed LF]) ls)" c] Cons.prems
  obtain shown where run: "cc_run (concat (map (\<lambda>l. map Typed l @ [Typed LF]) (l # ls))) c =
      cc_run (Typed LF # concat (map (\<lambda>l. map Typed l @ [Typed LF]) ls)) (c\<lparr>line := l, shown_text := shown\<rparr>)"
    by auto
  let ?c = "c\<lparr>line := [], shown_text := shown, cc_packet := ?p, wrote := wrote c @ [stringify False 0 ?p]\<rparr>"
  have "cc_step (Typed LF) (c\<lparr>line := l, shown_text := shown\<rparr>) = Inr (Some ?c)"
    using Cons.prems(1) chat_line_packet [of l t0 h m0] by (simp add: cc_step_def)
  with run have "cc_run (concat (map (\<lambda>l. map Typed l @ [Typed LF]) (l # ls))) c =
      cc_run (concat (map (\<lambda>l. map Typed l @ [Typed LF]) ls)) ?c" by simp
  moreover from Cons.IH [of ?c "''message''" l] Cons.prems(3) obtain c' where
    "cc_run (concat (map (\<lambda>l. map Typed l @ [Typed LF]) ls)) ?c = Inr (Some c')"
    "wrote c' = wrote ?c @ map (\<lambda>l. text_of [(''type'', ''message''), (''handle'', h), (''message'', l)]) ls"
    by auto
  ultimately show ?case by (simp add: text_of_def)
qed simp

section \<open>Directories and songs\<close>

text \<open>The sets below a set, each before those below it.\<close>

fun below :: "songset \<Rightarrow> songset list"
  and below_in :: "(string \<times> songset) list \<Rightarrow> songset list" where
  "below (Songset name ss titles) = below_in ss"
| "below_in [] = []"
| "below_in ((p, s) # ss) = s # below s @ below_in ss"

lemma find_append: "List.find P (xs @ ys) = (case List.find P xs of None \<Rightarrow> List.find P ys | Some x \<Rightarrow> Some x)"
  by (induction xs) auto

lemma find_set_below:
  "find_set s n = List.find (\<lambda>t. set_name t = n) (below s)"
  "find_in ss n = List.find (\<lambda>t. set_name t = n) (below_in ss)"
  by (induction s n and ss n rule: find_set_find_in.induct) (auto simp: find_append split: option.split)

lemma client_writes:
  assumes "list_all (\<lambda>l. LF \<notin> set l) ls"
  shows "\<exists>c. cc_run (concat (map (\<lambda>l. map Typed l @ [Typed LF]) ls)) (new_chat_client h) = Inr (Some c)
    \<and> wrote c = sends_lines h ls"
proof -
  have "cc_packet (new_chat_client h) = message_of [(''type'', ''enter''), (''handle'', h), (''message'', [])]"
    "line (new_chat_client h) = []" by (simp_all add: new_chat_client_def Let_def)
  from typed_lines [OF this assms] show ?thesis
    by (simp add: sends_lines_def) (simp add: new_chat_client_def text_of_def Let_def)
qed

lemma song_list_items:
  "distinct ss \<Longrightarrow> list_all quoteless ss \<Longrightarrow> song_list ss = stringify_items False 0 (map new_string ss)"
proof -
  have "distinct ss \<Longrightarrow> list_all quoteless ss \<Longrightarrow> ss \<noteq> [] \<Longrightarrow> last ss = z \<Longrightarrow>
      concat (map (\<lambda>s. [DQ] @ s @ [DQ] @ (if s = z then [] else '','')) ss) = stringify_items False 0 (map new_string ss)" for z
  proof (induction ss)
    case (Cons s ss)
    show ?case
    proof (cases "ss = []")
      case True
      with Cons.prems show ?thesis by (simp add: flat_text escape_quoteless quoted_def)
    next
      case False
      with Cons.prems have "s \<noteq> z" by (metis distinct.simps(2) last.simps last_in_set)
      with Cons False show ?thesis by (simp add: flat_text escape_quoteless quoted_def)
    qed
  qed simp
  then show "distinct ss \<Longrightarrow> list_all quoteless ss \<Longrightarrow> song_list ss = stringify_items False 0 (map new_string ss)"
    by (cases "ss = []") (simp_all add: song_list_def)
qed

lemma strings_canonical: "list_all clean ss \<Longrightarrow> canonical_items (map new_string ss)"
  by (induction ss) (auto simp: new_string_def)

lemma board_json_eq:
  "board_json ms = JsonObject OBJECT [] [(''result'', JsonObject ARRAY [] [] (map new_string ms))] []"
proof -
  have "foldl (\<lambda>a m. push_arrayValue (new_string m) a) (JsonObject ARRAY [] [] as) ms =
      JsonObject ARRAY [] [] (as @ map new_string ms)" for as
    by (induction ms arbitrary: as) simp_all
  from this [of "[]"] show ?thesis by (simp add: board_json_def new_typed_def)
qed

definition post_all :: "string list \<Rightarrow> string list" where
  "post_all ms = run_steps (\<lambda>board m. case post_message (message_of [(''message'', m)]) board of
      Inl _ \<Rightarrow> board | Inr (_, board) \<Rightarrow> board) [] ms"

lemma post_all_newest: "post_all ms = take 100 (rev ms)"
proof -
  have step: "(case post_message (message_of [(''message'', m)]) (take 100 board) of
      Inl _ \<Rightarrow> take 100 board | Inr (_, b) \<Rightarrow> b) = take 100 (m # board)" for m board
    using newest_take [of 100 m board]
    by (simp add: post_message_def string_at_def message_of_def um_find_Cons new_string_def Let_def)
  have "run_steps (\<lambda>board m. case post_message (message_of [(''message'', m)]) board of
      Inl _ \<Rightarrow> board | Inr (_, board) \<Rightarrow> board) (take 100 board) ms = take 100 (rev ms @ board)" for board
  proof (induction ms arbitrary: board)
    case (Cons m ms)
    show ?case using Cons.IH [of "m # board"] by (simp add: step)
  qed simp
  from this [of "[]"] show ?thesis by (simp add: post_all_def)
qed

section \<open>Claims\<close>

text \<open>
  The chat breaks at its first line.  What the client sends is what the server parses: a handle
  of five characters or more is announced; but for a line that is typed then, the server reads the
  memory of a string that is gone.
\<close>

theorem chat_breaks_at_first_line:
  assumes "clean h" and "5 \<le> length h" and "clean l" and "length l \<le> 128"
  shows "\<exists>c enter first n s.
    cc_run (map Typed l @ [Typed LF]) (new_chat_client h) = Inr (Some c) \<and> wrote c = [enter, first]
    \<and> cs_on_read send_fails fd enter (cs_on_connect fd new_chat_server) = ret (n, s)
    \<and> n = int (length enter) \<and> cs_sent s = [(Broadcast, h @ '' has connected.'')]
    \<and> cs_on_read send_fails fd first s = fail OutOfBounds"
proof -
  let ?enter = "text_of [(''type'', ''enter''), (''handle'', h), (''message'', [])]"
  let ?first = "text_of [(''type'', ''message''), (''handle'', h), (''message'', l)]"
  have "list_all (\<lambda>l. LF \<notin> set l) [l]" using assms(3) by (auto simp: clean_def)
  from client_writes [OF this, of h] obtain c where
    c: "cc_run (map Typed l @ [Typed LF]) (new_chat_client h) = Inr (Some c)" "wrote c = [?enter, ?first]"
    by (auto simp: sends_lines_def)
  let ?s0 = "cs_on_connect fd new_chat_server"
  have pd0: "packet_data ?s0 = message_of [(''type'', []), (''message'', []), (''handle'', [])]"
    by (simp add: cs_on_connect_def new_chat_server_def)
  have words: "clean ''enter''" "clean ''message''" "clean []" by (simp_all add: clean_def)
  have cw: "c_str ''enter'' = ''enter''" "c_str ''message'' = ''message''" by (simp_all add: c_str_def)
  let ?pd1 = "message_of [(''type'', ''enter''), (''message'', []), (''handle'', h)]"
  let ?s1 = "cs_send Broadcast (h @ '' has connected.'') (?s0\<lparr>packet_data := ?pd1,
      client_data := um_set fd h (client_data ?s0)\<rparr>)"
  have one: "cs_on_read send_fails fd ?enter ?s0 = ret (int (length ?enter), ?s1)"
    unfolding cs_on_read_def pd0 chat_reset lift_res_simps bindP_simps
      chat_members [OF words(1) assms(1) words(3) refl]
    using assms(2) by (simp add: cs_packet_def string_at_members cw Let_def)
  have pd1: "packet_data ?s1 = ?pd1" by (simp add: cs_send_def)
  have "cs_on_read send_fails fd ?first ?s1 = fail OutOfBounds"
    unfolding cs_on_read_def pd1 chat_reset lift_res_simps bindP_simps
      chat_members [OF words(2) assms(1,3) refl]
    using assms(4) by (simp add: cs_packet_def string_at_members cw clean_text_def read_pointer_def Let_def)
  moreover have "cs_sent ?s1 = [(Broadcast, h @ '' has connected.'')]"
    by (simp add: cs_send_def cs_on_connect_def new_chat_server_def)
  ultimately show ?thesis using one c by blast
qed

lemma chat_breaks_at_first_line_witness:
  "\<exists>c enter first n s.
    cc_run (map Typed ''hi'' @ [Typed LF]) (new_chat_client ''annie'') = Inr (Some c) \<and> wrote c = [enter, first]
    \<and> cs_on_read False 4 enter (cs_on_connect 4 new_chat_server) = ret (n, s)
    \<and> n = int (length enter) \<and> cs_sent s = [(Broadcast, ''annie'' @ '' has connected.'')]
    \<and> cs_on_read False 4 first s = fail OutOfBounds"
  by (rule chat_breaks_at_first_line) (simp_all add: clean_def)

definition relayed :: "string \<Rightarrow> string \<Rightarrow> bool" where
  "relayed h m \<longleftrightarrow> 5 \<le> length h \<and> length h \<le> 16 \<and> 2 \<le> length m \<and> length m \<le> 256"

text \<open>
  The chat over WebSockets passes a message on, unchanged and to everyone, exactly when the handle
  has 5 to 16 characters and the message 2 to 256; the writer is told so, or what is wrong.
\<close>

theorem chat_relays_valid_messages:
  assumes "clean h" and "clean m" and "d = text_of [(''handle'', h), (''message'', m)]"
  shows "\<exists>status. chat_relay False False fd d = ret (
      (if relayed h m then [(Broadcast, d)] else []) @ [(To fd, status_text status)], int (length d))
    \<and> (status = ''Sent.'' \<longleftrightarrow> relayed h m)"
proof -
  have "plain [(''handle'', h), (''message'', m)]" using assms(1,2) by (simp add: plain_def clean_def)
  from parse_plain [OF this] have p: "parse_into new_empty (c_str d) =
      ret (message_of [(''handle'', h), (''message'', m)])" unfolding assms(3) .
  have g: "GetStr (message_of [(''handle'', h), (''message'', m)]) ''handle'' = Inr h"
      "GetStr (message_of [(''handle'', h), (''message'', m)]) ''message'' = Inr m"
      "HasObj (message_of [(''handle'', h), (''message'', m)]) ''handle'' STRING"
      "HasObj (message_of [(''handle'', h), (''message'', m)]) ''message'' STRING"
    by (simp_all add: message_of_def GetStr_def HasObj_def um_find_Cons new_string_def)
  show ?thesis
    unfolding chat_relay_def p bindP_simps using g
    by (auto simp: relayed_def Let_def)
qed

lemma chat_relays_valid_messages_witness:
  "\<exists>status. chat_relay False False 4 (text_of [(''handle'', ''ann''), (''message'', ''hello'')]) =
    ret ([(To 4, status_text status)], int (length (text_of [(''handle'', ''ann''), (''message'', ''hello'')])))
    \<and> status \<noteq> ''Sent.''"
  using chat_relays_valid_messages [of "''ann''" "''hello''", OF _ _ refl, of 4]
  by (simp add: clean_def relayed_def)

text \<open>
  The message board holds the newest hundred messages, the newest first, after every sequence of
  posts; and what it answers is read as these messages.
\<close>

theorem board_shows_the_newest:
  assumes "list_all clean ms"
  shows "post_all ms = take 100 (rev ms) \<and> parse_into new_empty (get_messages (post_all ms)) =
      ret (JsonObject OBJECT [] [(''result'', JsonObject ARRAY [] [] (map new_string (take 100 (rev ms))))] [])"
proof -
  have "list_all clean (take 100 (rev ms))" using assms by (auto simp: list_all_iff dest: in_set_takeD)
  then have "canonical (board_json (post_all ms))"
    by (simp add: board_json_eq post_all_newest strings_canonical clean_def)
  from parse_stringify_canonical [OF this, of False 0] show ?thesis
    unfolding get_messages_def board_json_eq post_all_newest by (intro conjI refl)
qed

lemma board_shows_the_newest_witness:
  "parse_into new_empty (get_messages (post_all [''a'', ''b''])) =
      ret (JsonObject OBJECT [] [(''result'', JsonObject ARRAY [] [] [new_string ''b'', new_string ''a''])] [])"
proof -
  have "list_all clean [''a'', ''b'']" by (simp add: clean_def)
  note newest = board_shows_the_newest [OF this]
  have "take 100 (rev [''a'', ''b'']) = [''b'', ''a'']" by simp
  with conjunct2 [OF newest] show ?thesis by (simp only: list.map)
qed

text \<open>
  A service is shown only for the password; but no password is set by default, and then an empty
  token shows every service.
\<close>

theorem services_need_the_password:
  assumes "host_service password services json = Inr answer" and "answer \<noteq> []"
  shows "GetStr json ''token'' = Inr password"
  using assms by (cases "GetStr json ''token''") (auto simp: host_service_def split: if_splits)

text \<open>
  The search for a set of songs is the search in the list of all sets, each before those that
  are in it, for the first of that name.
\<close>

theorem find_set_is_preorder: "find_set s n = List.find (\<lambda>t. set_name t = n) (below s)"
  by (rule find_set_below)

text \<open>
  The songs of a set are read back from the answer of the music library as they are stored, when
  no path occurs twice and none holds a quote.
\<close>

theorem songs_are_read_back:
  assumes "GetStr json ''set'' = Inr n" and "find_set library n = Some s" and "distinct (songs s)"
    and "list_all quoteless (songs s)"
  shows "\<exists>answer. get_set library json = Inr answer \<and> parse_into new_empty answer =
    ret (JsonObject OBJECT [] [(''songs'', JsonObject ARRAY [] [] (map new_string (songs s)))] [])"
proof -
  let ?v = "JsonObject OBJECT [] [(''songs'', JsonObject ARRAY [] [] (map new_string (songs s)))] []"
  have "list_all clean (songs s)" using assms(4) by (simp add: list_all_iff quoteless_def)
  then have "canonical ?v" by (simp add: strings_canonical clean_def)
  note parse = parse_stringify_canonical [OF this, of False 0]
  have "quoteless ''songs''" by (simp add: quoteless_def clean_def)
  then have "get_set library json = Inr (stringify False 0 ?v)"
    using assms(1,2) song_list_items [OF assms(3,4)]
    by (simp add: get_set_def flat_text escape_quoteless quoted_def)
  with parse show ?thesis by blast
qed

definition small_library :: "dir_entry list" where
  "small_library = [Regular ''.hidden'', Directory ''rock'' [Regular ''a.mp3'', Regular ''b.mp3''], Special ''s'']"

lemma songs_are_read_back_witness:
  "\<exists>library answer. get_songset ''m'' small_library (Songset [] [] []) = Inr library
    \<and> get_set library (message_of [(''set'', ''rock'')]) = Inr answer \<and> parse_into new_empty answer =
      ret (JsonObject OBJECT [] [(''songs'', JsonObject ARRAY [] []
        [new_string ''m/rock/a.mp3'', new_string ''m/rock/b.mp3''])] [])"
proof -
  let ?rock = "Songset ''rock'' [] [''m/rock/a.mp3'', ''m/rock/b.mp3'']"
  let ?lib = "Songset [] [(''m/rock'', ?rock)] []"
  have l: "get_songset ''m'' small_library (Songset [] [] []) = Inr ?lib"
    by (simp add: small_library_def add_set_def name_set_def Let_def)
  have "GetStr (message_of [(''set'', ''rock'')]) ''set'' = Inr ''rock''"
    by (simp add: message_of_def GetStr_def um_find_Cons new_string_def)
  from songs_are_read_back [OF this, of ?lib ?rock] l show ?thesis
    by (auto simp: quoteless_def clean_def)
qed

text \<open>
  The key reader prints past its array exactly when a key fills it: ten bytes of which none is a
  NUL, and which are neither the key that stops the program nor an arrow.
\<close>

definition arrow :: "string \<Rightarrow> bool" where
  "arrow d \<longleftrightarrow> uchar (d ! 0) = 27 \<and> uchar (d ! 1) = 91 \<and> uchar (d ! 2) \<in> {65, 66, 67, 68}"

theorem full_key_is_printed_past_the_array:
  assumes "length d = STDIN_MAX"
  shows "key_of d = Inl OutOfBounds \<longleftrightarrow> NUL \<notin> set d \<and> uchar (d ! 0) \<noteq> 3 \<and> \<not> arrow d"
  using assms by (auto simp: key_of_def print_chars_def arrow_def Let_def split: if_splits)

lemma full_key_is_printed_past_the_array_witness:
  "key_of ''0123456789'' = Inl OutOfBounds"
  using full_key_is_printed_past_the_array [of "''0123456789''"]
  by (simp add: STDIN_MAX_def arrow_def uchar_def)

lemma services_need_the_password_witness:
  "GetStr (message_of [(''token'', ''pw''), (''host'', ''h''), (''service'', ''s'')]) ''token'' = Inr ''pw''"
proof (rule services_need_the_password)
  show "host_service ''pw'' (JsonObject OBJECT [] [(''h'', message_of [(''s'', ''v'')])] [])
      (message_of [(''token'', ''pw''), (''host'', ''h''), (''service'', ''s'')]) = Inr (escape ''v'')"
    by code_simp
  show "escape ''v'' \<noteq> []" by (simp add: escape_def)
qed

end
