(* ===== verification/Jph2Server.thy ===== *)
theory Jph2Server
  imports Jph2Chat Symmetric
begin

text \<open>
  The web application put together (\<open>examples/jph2.cpp\<close>): its table of routes over \<open>HttpApi\<close>, with
  the functions of \<open>Jph2\<close> and \<open>Jph2Chat\<close> behind them.  The functions capture the database and the
  chat by reference; here they are actions on that state, and one request is a step of the state
  and of the server together.
\<close>

section \<open>Routes as they are declared\<close>

datatype 's handler =
    Open "JsonObject \<Rightarrow> ('s, string) action"
  | Authenticated "JsonObject \<Rightarrow> JsonObject \<Rightarrow> ('s, string) action"
  | Form "JsonObject \<Rightarrow> ('s, view) action"

record 's registration =
  reg_method :: string
  reg_path :: string
  reg_handler :: "'s handler"
  reg_params :: "(string \<times> JsonType) list"
  reg_rate :: int
  reg_human :: bool

definition declare_route ::
  "string \<Rightarrow> string \<Rightarrow> 's handler \<Rightarrow> (string \<times> JsonType) list \<Rightarrow> int \<Rightarrow> 's registration" where
  "declare_route m path h params rate =
     \<lparr>reg_method = m, reg_path = path, reg_handler = h, reg_params = params, reg_rate = rate,
      reg_human = False\<rparr>"

text \<open>What the application is given: the database, the hashes and seals, and the mail service.\<close>

record 'db web =
  w_quote :: "string \<Rightarrow> string"
  w_exec :: "'db executor"
  w_hash :: "string \<Rightarrow> string"
  w_encrypt :: "string \<Rightarrow> string"
  w_dump :: string
  w_admin_email :: string
  w_post :: "string \<Rightarrow> bool res"

type_synonym 'db site = "'db \<times> chat"

section \<open>The handlers written in place\<close>

definition greeting :: string where
  "greeting = ''{'' @ [DQ] @ ''result'' @ [DQ] @ '':'' @ [DQ] @ ''Welcome to the jph2.net API!'' @ [DQ] @ ''}''"

text \<open>The mail of the contact form: what the visitor wrote goes into the JSON text as it comes.\<close>

definition contact_mail :: "string \<Rightarrow> JsonObject \<Rightarrow> string res" where
  "contact_mail email json =
     bindR (GetURLDecodedStr json ''name'') (\<lambda>name.
     bindR (GetURLDecodedStr json ''email'') (\<lambda>sender.
     bindR (GetURLDecodedStr json ''message'') (\<lambda>msg.
       Inr (''{'' @ [DQ] @ ''personalizations'' @ [DQ] @ '': [{'' @ [DQ] @ ''to'' @ [DQ] @ '': [{''
         @ [DQ] @ ''email'' @ [DQ] @ '': '' @ [DQ] @ email @ [DQ] @ ''}]}],'' @ [DQ] @ ''from'' @ [DQ]
         @ '': {'' @ [DQ] @ ''email'' @ [DQ] @ '': '' @ [DQ] @ email @ [DQ] @ ''},'' @ [DQ]
         @ ''subject'' @ [DQ] @ '': '' @ [DQ] @ ''JPH2, '' @ name @ [DQ] @ '','' @ [DQ] @ ''content''
         @ [DQ] @ '': [{'' @ [DQ] @ ''type'' @ [DQ] @ '': '' @ [DQ] @ ''text/html'' @ [DQ] @ '', ''
         @ [DQ] @ ''value'' @ [DQ] @ '': '' @ [DQ] @ ''<h2>'' @ sender @ ''</h2><br>'' @ msg @ [DQ] @ ''}]}''))))"

definition thanks_view :: view where
  "thanks_view = \<lparr>vroute = ''/thanks.html'', vmethod = [], vparameters = [], vsize = 0\<rparr>"

text \<open>A mail that fails is only printed, with the fields as they came.\<close>

definition contact :: "'db web \<Rightarrow> JsonObject \<Rightarrow> view res" where
  "contact w json =
     bindR (contact_mail (w_admin_email w) json) (\<lambda>mail.
     bindR (w_post w mail) (\<lambda>failed.
       if failed then
         bindR (GetStr json ''name'') (\<lambda>_. bindR (GetStr json ''email'') (\<lambda>_.
           bindR (GetStr json ''message'') (\<lambda>_. Inr thanks_view)))
       else Inr thanks_view))"

section \<open>The table of routes\<close>

definition jph2_routes :: "'db web \<Rightarrow> string \<Rightarrow> 'db site registration list" where
  "jph2_routes w routes_string =
     (let q = w_quote w; x = w_exec w; seconds = (\<lambda>n. 1000 * n); reg = declare_route in
      [reg ''GET'' ''/'' (Open (\<lambda>_. retD greeting)) [] 0,
       reg ''GET'' ''/routes'' (Open (\<lambda>_. retD routes_string)) [] 0,
       reg ''POST'' ''/login'' (Open (\<lambda>j. on_db (login q x (w_hash w) (w_encrypt w) j)))
         [(''username'', STRING), (''password'', STRING)] (seconds 1),
       reg ''POST'' ''/token'' (Authenticated (\<lambda>j t. retD (check_token j t))) [] 0,
       reg ''POST'' ''/user'' (Open (\<lambda>j. on_db (create_user q x (w_hash w) j)))
         [(''values'', OBJECT)] (seconds 2),
       reg ''POST'' ''/get/users'' (Authenticated (\<lambda>j t. on_db (read_users q x t))) [] 0,
       reg ''PUT'' ''/user'' (Authenticated (\<lambda>j t. on_db (update_user q x (w_hash w) (w_encrypt w) j t)))
         [(''values'', OBJECT)] (seconds 2),
       reg ''POST'' ''/my/user'' (Authenticated (\<lambda>j t. on_db (read_my_user q x t))) [] 0,
       reg ''POST'' ''/my/access'' (Authenticated (\<lambda>j t. on_db (read_my_access x t))) [] 0,
       reg ''POST'' ''/my/threads'' (Authenticated (\<lambda>j t. on_db (read_my_threads q x t))) [] 0,
       reg ''POST'' ''/my/poi'' (Authenticated (\<lambda>j t. on_db (read_my_poi q x t))) [] 0,
       reg ''POST'' ''/thread'' (Authenticated (\<lambda>j t. on_db (create_thread q x j t)))
         [(''values'', OBJECT)] (seconds 2),
       reg ''GET'' ''/thread'' (Open (\<lambda>j. on_db (read_thread q x j))) [(''id'', STRING)] 0,
       reg ''PUT'' ''/thread'' (Authenticated (\<lambda>j t. on_db (update_thread q x j t)))
         [(''id'', STRING), (''values'', OBJECT)] (seconds 2),
       reg ''DELETE'' ''/thread'' (Authenticated (\<lambda>j t. on_db (delete_thread q x j t)))
         [(''id'', STRING)] 0,
       reg ''POST'' ''/message'' (Authenticated (\<lambda>j t. on_db (create_message q x j t)))
         [(''values'', OBJECT)] (seconds 2),
       reg ''GET'' ''/message'' (Open (\<lambda>j. on_db (read_message q x j))) [(''id'', STRING)] 0,
       reg ''PUT'' ''/message'' (Authenticated (\<lambda>j t. on_db (update_message q x j t)))
         [(''id'', STRING), (''values'', OBJECT)] (seconds 2),
       reg ''DELETE'' ''/message'' (Authenticated (\<lambda>j t. on_db (delete_message q x j t)))
         [(''id'', STRING)] 0,
       reg ''GET'' ''/thread/messages'' (Open (\<lambda>j. on_db (read_thread_messages q x j)))
         [(''id'', STRING)] 0,
       reg ''GET'' ''/thread/messages/by/name'' (Open (\<lambda>j. on_db (read_thread_messages_by_name q x j)))
         [(''name'', STRING)] 0,
       reg ''POST'' ''/poi'' (Authenticated (\<lambda>j t. on_db (create_poi q x j t)))
         [(''values'', OBJECT)] (seconds 2),
       reg ''GET'' ''/poi'' (Open (\<lambda>j. on_db (read_poi q x j))) [(''id'', STRING)] 0,
       reg ''PUT'' ''/poi'' (Authenticated (\<lambda>j t. on_db (update_poi q x j t)))
         [(''id'', STRING), (''values'', OBJECT)] (seconds 2),
       reg ''DELETE'' ''/poi'' (Authenticated (\<lambda>j t. on_db (delete_poi q x j t)))
         [(''id'', STRING)] 0,
       reg ''GET'' ''/poi/by/username'' (Open (\<lambda>j. on_db (read_poi_by_username q x j)))
         [(''username'', STRING)] 0,
       reg ''GET'' ''/chat'' (Open (\<lambda>_. on_chat (\<lambda>c. (read_chat c, c)))) [] 0,
       reg ''POST'' ''/user/chat'' (Authenticated (\<lambda>j t. on_chat (create_authenticated_chat j t)))
         [(''message'', STRING)] (seconds 2),
       reg ''POST'' ''/chat'' (Open (create_chat q x))
         [(''handle'', STRING), (''message'', STRING)] (seconds 2),
       (reg ''POST'' ''/contact.html'' (Form (\<lambda>j. liftD (contact w j)))
         [(''name'', STRING), (''email'', STRING), (''captcha'', STRING), (''message'', STRING)]
         (seconds 5))\<lparr>reg_human := True\<rparr>,
       reg ''POST'' ''/backup'' (Authenticated (\<lambda>j t. on_db (backup q x (w_dump w) t))) [] 0])"

text \<open>Declaring a route on the server, with the functions at a given state.\<close>

definition register :: "'s \<Rightarrow> 's registration \<Rightarrow> http_api \<Rightarrow> http_api res option" where
  "register s r api =
     (let rt = new_route (reg_params r) (reg_rate r) (reg_human r) in
      case reg_handler r of
        Open f \<Rightarrow> Some (add_route (reg_method r) (reg_path r) (\<lambda>j. fst (f j s)) rt api)
      | Authenticated f \<Rightarrow>
          authenticated_route True (reg_method r) (reg_path r) (\<lambda>j t. fst (f j t s)) rt api
      | Form f \<Rightarrow> Some (Inr (form_route (reg_method r) (reg_path r) (\<lambda>j. fst (f j s)) rt api)))"

fun register_all :: "'s \<Rightarrow> 's registration list \<Rightarrow> http_api \<Rightarrow> http_api res option" where
  "register_all s [] api = Some (Inr api)"
| "register_all s (r # rs) api =
     (case register s r api of Some (Inr api) \<Rightarrow> register_all s rs api | x \<Rightarrow> x)"

definition new_api :: "string \<Rightarrow> http_api" where
  "new_api dir = \<lparr>file_cache = [], sessions = [], file_cache_remaining_bytes = 30 * 1024 * 1024,
     public_directory = dir, routemap = [], out = []\<rparr>"

text \<open>The table that \<open>start\<close> publishes depends on the declarations only.\<close>

definition built_api :: "'s registration list \<Rightarrow> string \<Rightarrow> 's \<Rightarrow> http_api" where
  "built_api rs dir s = (case register_all s rs (new_api dir) of Some (Inr api) \<Rightarrow> api | _ \<Rightarrow> new_api dir)"

definition published :: "'db web \<Rightarrow> 'db \<Rightarrow> string" where
  "published w db = print (routes_object (built_api (jph2_routes w []) [] (db, new_chat)))"

definition site_routes :: "'db web \<Rightarrow> 'db \<Rightarrow> 'db site registration list" where
  "site_routes w db = jph2_routes w (published w db)"

section \<open>A request\<close>

text \<open>The name under which a declaration is found.\<close>

definition reg_key :: "'s registration \<Rightarrow> string" where
  "reg_key r =
     (case reg_handler r of
        Form f \<Rightarrow> reg_method r @ '' '' @ reg_path r
      | _ \<Rightarrow> reg_method r @ '' /api''
          @ (if last (reg_path r) \<noteq> CHR ''/'' then reg_path r @ ''/'' else reg_path r))"

definition handlers_of :: "'s registration list \<Rightarrow> (string, 's handler) umap" where
  "handlers_of rs = map (\<lambda>r. (reg_key r, reg_handler r)) rs"

text \<open>The functions of the routes see the state as it is.\<close>

definition with_functions :: "'s \<Rightarrow> 's handler option \<Rightarrow> route \<Rightarrow> route" where
  "with_functions s h rt =
     (case h of
        None \<Rightarrow> rt
      | Some (Open f) \<Rightarrow> rt\<lparr>route_function := Some (\<lambda>j. fst (f j s))\<rparr>
      | Some (Authenticated f) \<Rightarrow> rt\<lparr>token_function := Some (\<lambda>j t. fst (f j t s))\<rparr>
      | Some (Form f) \<Rightarrow> rt\<lparr>form_function := Some (\<lambda>j. fst (f j s))\<rparr>)"

definition at_state :: "'s registration list \<Rightarrow> 's \<Rightarrow> http_api \<Rightarrow> http_api" where
  "at_state rs s api = api\<lparr>routemap :=
     map (\<lambda>(k, rt). (k, with_functions s (um_find (handlers_of rs) k) rt)) (routemap api)\<rparr>"

text \<open>A request that passes all the checks reaches the dispatch with these.\<close>

definition granted ::
  "env \<Rightarrow> RequestResult \<Rightarrow> JsonObject \<Rightarrow> http_api \<Rightarrow>
    (JsonObject \<times> string \<times> view \<times> http_response \<times> http_api) option" where
  "granted env rtype req api =
     (let (req, key, api) = attach_session env req api;
          r = set_header session_name key new_response;
          v = request_view req;
          route_key = request_route_key rtype req
      in if rtype = HTTP \<or> route_key = ''GET /api/captcha/'' then None
         else case um_find (routemap api) route_key of
           None \<Rightarrow> None
         | Some rt \<Rightarrow>
             (case decode_parameters req (required_parameters rt) v of
                Inl e \<Rightarrow> None
              | Inr v \<Rightarrow>
                  (case check_request env req key route_key rt api of
                     (Some text, api) \<Rightarrow> None
                   | (None, api) \<Rightarrow> Some (req, route_key, v, r, api))))"

text \<open>The token of a request, opened and parsed.\<close>

definition request_token :: "env \<Rightarrow> JsonObject \<Rightarrow> JsonObject prog" where
  "request_token env req =
     bindP (lift_res (bindR (GetStr req ''token'') (\<lambda>s. HttpApi.decrypt env (deescape s))))
       (\<lambda>text. parse_into new_empty (c_str text))"

text \<open>What the function behind a route does to the state, when it is called.\<close>

definition run_handler ::
  "env \<Rightarrow> RequestResult \<Rightarrow> JsonObject \<Rightarrow> 's handler \<Rightarrow> 's \<Rightarrow> 's" where
  "run_handler env rtype req h s =
     (case h of
        Open f \<Rightarrow> if rtype = HTTP_API then snd (f req s) else s
      | Authenticated f \<Rightarrow>
          if rtype = HTTP_API \<and> HasObj req ''token'' STRING then
            (case request_token env req of Some (Inr token) \<Rightarrow> snd (f req token s) | _ \<Rightarrow> s)
          else s
      | Form f \<Rightarrow> if rtype = HTTP_FORM then snd (f req s) else s)"

definition state_after ::
  "'s registration list \<Rightarrow> env \<Rightarrow> RequestResult \<Rightarrow> JsonObject \<Rightarrow> http_api \<Rightarrow> 's \<Rightarrow> 's" where
  "state_after rs env rtype req api s =
     (case granted env rtype req api of
        None \<Rightarrow> s
      | Some (req, key, v, r, api) \<Rightarrow>
          (case um_find (handlers_of rs) key of
             None \<Rightarrow> s | Some h \<Rightarrow> run_handler env rtype req h s))"

definition site_request ::
  "'s registration list \<Rightarrow> env \<Rightarrow> string \<Rightarrow> 's \<times> http_api \<Rightarrow> (int \<times> 's \<times> http_api) prog" where
  "site_request rs env text p =
     (case p of (s, api) \<Rightarrow>
        bindP (parse_http_request text (new_typed OBJECT)) (\<lambda>(rtype, req).
        bindP (handle_request env rtype req (at_state rs s api)) (\<lambda>(n, api').
          ret (n, state_after rs env rtype req (at_state rs s api) s, api'))))"

section \<open>Requests that pass the checks\<close>

lemma granted_dispatch:
  assumes "granted env rtype req api = Some (req', key, v, r, api')"
  shows "handle_request env rtype req api
    = dispatch env rtype req' (um_find (routemap api') key) v r api'"
    "rtype \<noteq> HTTP" "key = request_route_key rtype req'"
  using assms
  by (auto simp: granted_def handle_request_def Let_def split: prod.splits if_splits option.splits sum.splits)

section \<open>The table of routes stays as declared\<close>

text \<open>A route but for its functions and its record of calls, and a declaration as such.\<close>

definition shape_of :: "route \<Rightarrow> (string \<times> JsonType) list \<times> int \<times> bool \<times> bool \<times> bool \<times> bool" where
  "shape_of rt = (required_parameters rt, minimum_ms_between_call rt, requires_human rt,
     route_function rt \<noteq> None, token_function rt \<noteq> None, form_function rt \<noteq> None)"

definition shape_reg :: "'s registration \<Rightarrow> (string \<times> JsonType) list \<times> int \<times> bool \<times> bool \<times> bool \<times> bool" where
  "shape_reg r = (reg_params r, reg_rate r, reg_human r,
     (case reg_handler r of Open f \<Rightarrow> True | _ \<Rightarrow> False),
     (case reg_handler r of Authenticated f \<Rightarrow> True | _ \<Rightarrow> False),
     (case reg_handler r of Form f \<Rightarrow> True | _ \<Rightarrow> False))"

definition wired :: "'s registration list \<Rightarrow> http_api \<Rightarrow> bool" where
  "wired rs api \<longleftrightarrow>
     map (\<lambda>(k, rt). (k, shape_of rt)) (routemap api) = map (\<lambda>r. (reg_key r, shape_reg r)) rs"

lemma routemap_respond [simp]: "routemap (snd (respond env r api)) = routemap api"
  by (simp add: respond_def server_send_def)

lemma routemap_respond_404 [simp]: "routemap (snd (respond_404 env api)) = routemap api"
  by (simp add: respond_404_def)

lemma routemap_send_chunks [simp]: "routemap (snd (send_chunks env ss api)) = routemap api"
  using send_chunks_api [of env ss api] by auto

lemma routemap_set_captcha [simp]: "routemap (set_captcha key text api) = routemap api"
  by (simp add: set_captcha_def split: option.split)

lemma routemap_answer_captcha [simp]: "routemap (snd (answer_captcha env req key r api)) = routemap api"
  by (simp add: answer_captcha_def Let_def)

lemma routemap_refresh_cache [simp]: "routemap (refresh_cache path m api) = routemap api"
  by (simp add: refresh_cache_def split: option.split)

lemma routemap_fill_cache [simp]: "routemap (snd (fill_cache env path m c b api)) = routemap api"
  by (simp add: fill_cache_def Let_def)

lemma snd_of_pair: "p = (a, b) \<Longrightarrow> b = snd p"
  by simp

lemma routemap_serve_file:
  assumes "serve_file env v r path n api = ret (k, api')"
  shows "routemap api' = routemap api"
  using assms
  by (auto simp: serve_file_def respond_cached_file_def respond_parameterized_view_def
      respond_view_def Let_def bindP_eq_ret split: option.splits prod.splits if_splits bool.splits
        node.splits dest!: snd_of_pair)

lemma routemap_respond_http:
  assumes "respond_http env v r api = ret (k, api')"
  shows "routemap api' = routemap api"
  using assms
  by (auto simp: respond_http_def Let_def split: if_splits node.splits prod.splits bool.splits
      dest!: snd_of_pair routemap_serve_file)

lemma routemap_refuse:
  assumes "refuse env rtype text v r api = ret (k, api')"
  shows "routemap api' = routemap api"
  using assms by (auto simp: refuse_def split: if_splits dest!: snd_of_pair routemap_respond_http)

lemma routemap_dispatch:
  assumes "dispatch env rtype req rt v r api = ret (k, api')"
  shows "routemap api' = routemap api"
  using assms
  by (auto simp: dispatch_def bindP_eq_ret split: RequestResult.splits option.splits if_splits
      dest!: snd_of_pair routemap_respond_http)

lemma check_request_routes:
  assumes "check_request env req key rk rt api = (x, api')"
  shows "routemap api' = routemap api \<or> routemap api' = routemap (note_call env rk rt api)"
  using assms by (auto simp: check_request_def Let_def split: if_splits option.splits)

lemma handle_request_routes:
  assumes "handle_request env rtype req api = ret (k, api')"
  shows "routemap api' = routemap api \<or> (\<exists>rk rt. um_find (routemap api) rk = Some rt
    \<and> routemap api' = routemap (note_call env rk rt api))"
proof -
  obtain req' key api1 where a: "attach_session env req api = (req', key, api1)"
    by (cases "attach_session env req api")
  note r1 = attach_session_routes [OF a]
  let ?r = "set_header session_name key new_response" and ?v = "request_view req'"
  let ?rk = "request_route_key rtype req'"
  show ?thesis
  proof (cases "rtype = HTTP \<or> ?rk = ''GET /api/captcha/'' \<or> um_find (routemap api1) ?rk = None")
    case True
    then have "routemap api' = routemap api1"
      using assms by (auto simp: handle_request_def a Let_def split: if_splits
          dest!: snd_of_pair routemap_dispatch routemap_refuse)
    with r1 show ?thesis by simp
  next
    case False
    then obtain rt where rt: "um_find (routemap api1) ?rk = Some rt" by auto
    obtain x b where x: "check_request env req' key ?rk rt api1 = (x, b)"
      by (cases "check_request env req' key ?rk rt api1")
    have "routemap api' = routemap b"
      using False rt x assms
      by (cases x) (auto simp: handle_request_def a Let_def bindP_eq_ret
          dest!: routemap_dispatch routemap_refuse)
    with check_request_routes [OF x] rt r1 show ?thesis by (auto simp: note_call_def)
  qed
qed

lemma um_set_shape:
  assumes "um_find m k = Some v" "f v' = f v"
  shows "map (\<lambda>(k, v). (k, f v)) (um_set k v' m) = map (\<lambda>(k, v). (k, f v)) m"
  using assms by (induction m) (auto simp: um_find_def um_set_def)

lemma wired_keeps:
  assumes "wired rs api" "handle_request env rtype req api = ret (k, api')"
  shows "wired rs api'"
  using handle_request_routes [OF assms(2)] assms(1)
proof (elim disjE exE conjE)
  fix rk rt
  assume f: "um_find (routemap api) rk = Some rt"
    and r: "routemap api' = routemap (note_call env rk rt api)"
  show ?thesis
    using assms(1) um_set_shape [OF f, where f = shape_of] r
    by (simp add: wired_def note_call_def shape_of_def)
qed (simp add: wired_def)

lemma wired_reg:
  assumes "wired rs api" "(k, rt) \<in> set (routemap api)"
  obtains r where "r \<in> set rs" "k = reg_key r" "shape_of rt = shape_reg r"
proof -
  have "(k, shape_of rt) \<in> set (map (\<lambda>(k, rt). (k, shape_of rt)) (routemap api))"
    using assms(2) by force
  then have "(k, shape_of rt) \<in> set (map (\<lambda>r. (reg_key r, shape_reg r)) rs)"
    using assms(1) by (simp only: wired_def)
  with that show thesis by auto
qed

lemma wired_find:
  assumes "wired rs api" "r \<in> set rs" "distinct (map reg_key rs)"
  obtains rt where "um_find (routemap api) (reg_key r) = Some rt" "shape_of rt = shape_reg r"
proof -
  have "map_of (map (\<lambda>(k, rt). (k, shape_of rt)) (routemap api)) k
      = map_option shape_of (um_find (routemap api) k)" for k
    by (simp add: um_find_def map_of_map)
  moreover have "map_of (map (\<lambda>r. (reg_key r, shape_reg r)) rs) (reg_key r) = Some (shape_reg r)"
    using assms(2,3) by (intro map_of_is_SomeI) (auto simp: o_def)
  ultimately show thesis using assms(1) that by (auto simp: wired_def)
qed

lemma handlers_find:
  "distinct (map reg_key rs) \<Longrightarrow> r \<in> set rs \<Longrightarrow> um_find (handlers_of rs) (reg_key r) = Some (reg_handler r)"
  unfolding um_find_def handlers_of_def by (intro map_of_is_SomeI) (auto simp: o_def)

lemma handlers_find_Some:
  "um_find (handlers_of rs) k = Some h \<Longrightarrow> \<exists>r \<in> set rs. reg_key r = k \<and> reg_handler r = h"
  unfolding um_find_def handlers_of_def by (drule map_of_SomeD) auto

lemma with_functions_shape:
  "shape_of rt = shape_reg r \<Longrightarrow> shape_of (with_functions s (Some (reg_handler r)) rt) = shape_of rt"
  by (auto simp: shape_of_def shape_reg_def with_functions_def split: handler.splits)

lemma at_state_wired:
  assumes w: "wired rs api" and d: "distinct (map reg_key rs)"
  shows "wired rs (at_state rs s api)"
proof -
  have "shape_of (with_functions s (um_find (handlers_of rs) k) rt) = shape_of rt"
    if "(k, rt) \<in> set (routemap api)" for k rt
    using wired_reg [OF w that] handlers_find [OF d] with_functions_shape by metis
  then have "map ((\<lambda>(k, rt). (k, shape_of rt))
      \<circ> (\<lambda>(k, rt). (k, with_functions s (um_find (handlers_of rs) k) rt))) (routemap api)
    = map (\<lambda>(k, rt). (k, shape_of rt)) (routemap api)"
    by (auto intro!: map_cong)
  with w show ?thesis by (simp add: wired_def at_state_def)
qed

lemma map_of_keyed:
  "map_of (map (\<lambda>(k, v). (k, f k v)) m) k = map_option (f k) (map_of m k)"
  by (induction m) auto

lemma at_state_find:
  "um_find (routemap (at_state rs s api)) k =
    map_option (with_functions s (um_find (handlers_of rs) k)) (um_find (routemap api) k)"
  by (simp add: um_find_def at_state_def map_of_keyed)

section \<open>The declarations are accepted\<close>

lemma register_runs:
  assumes "reg_path r \<noteq> []"
  shows "\<exists>rt. register s r api = Some (Inr (api\<lparr>routemap := um_set (reg_key r) rt (routemap api)\<rparr>))
    \<and> shape_of rt = shape_reg r"
  using assms
  by (cases "reg_handler r")
    (auto simp: register_def add_route_def authenticated_route_def form_route_def slash_terminated_def
      reg_key_def shape_of_def shape_reg_def new_route_def Let_def)

lemma register_all_wired:
  assumes "wired rs0 api" "distinct (map reg_key (rs0 @ rs))" "\<forall>r \<in> set rs. reg_path r \<noteq> []"
  shows "\<exists>api'. register_all s rs api = Some (Inr api') \<and> wired (rs0 @ rs) api'"
  using assms
proof (induction rs arbitrary: rs0 api)
  case (Cons r rs)
  from Cons.prems(3) obtain rt where
    r: "register s r api = Some (Inr (api\<lparr>routemap := um_set (reg_key r) rt (routemap api)\<rparr>))"
      "shape_of rt = shape_reg r"
    using register_runs [of r s api] by auto
  have "map fst (routemap api) = map reg_key rs0"
    using arg_cong [OF Cons.prems(1) [unfolded wired_def], of "map fst"] by (simp add: o_def split_def)
  then have "\<not> um_count (routemap api) (reg_key r)"
    using Cons.prems(2) by (metis append_Cons distinct_append distinct.simps(2) disjoint_iff
        list.set_intros(1) list.simps(9) map_append map_of_eq_None_iff set_map um_count_def)
  then have "wired (rs0 @ [r]) (api\<lparr>routemap := um_set (reg_key r) rt (routemap api)\<rparr>)"
    using Cons.prems(1) r(2) by (simp add: wired_def um_set_append)
  from Cons.IH [OF this] Cons.prems(2,3) r show ?case by simp
qed auto

text \<open>The names of the routes, in the order of their declarations.\<close>

definition site_keys :: "string list" where
  "site_keys =
     [''GET /api/'', ''GET /api/routes/'', ''POST /api/login/'', ''POST /api/token/'', ''POST /api/user/'',
      ''POST /api/get/users/'', ''PUT /api/user/'', ''POST /api/my/user/'', ''POST /api/my/access/'',
      ''POST /api/my/threads/'', ''POST /api/my/poi/'', ''POST /api/thread/'', ''GET /api/thread/'',
      ''PUT /api/thread/'', ''DELETE /api/thread/'', ''POST /api/message/'', ''GET /api/message/'',
      ''PUT /api/message/'', ''DELETE /api/message/'', ''GET /api/thread/messages/'',
      ''GET /api/thread/messages/by/name/'', ''POST /api/poi/'', ''GET /api/poi/'', ''PUT /api/poi/'',
      ''DELETE /api/poi/'', ''GET /api/poi/by/username/'', ''GET /api/chat/'', ''POST /api/user/chat/'',
      ''POST /api/chat/'', ''POST /contact.html'', ''POST /api/backup/'']"

lemma distinct_site_keys: "distinct site_keys"
  by code_simp

lemma site_routes_keys: "map reg_key (site_routes w db) = site_keys"
  by (simp add: site_routes_def jph2_routes_def site_keys_def declare_route_def reg_key_def Let_def)

lemma site_routes_distinct: "distinct (map reg_key (site_routes w db))"
  by (simp only: site_routes_keys distinct_site_keys)

lemma site_routes_paths: "\<forall>r \<in> set (site_routes w db). reg_path r \<noteq> []"
  by (simp add: site_routes_def jph2_routes_def declare_route_def Let_def)

lemma site_routes_params: "\<forall>r \<in> set (site_routes w db). \<forall>(k, t) \<in> set (reg_params r). hd k \<noteq> CHR ''l''"
  by (simp add: site_routes_def jph2_routes_def declare_route_def Let_def)

lemma built_wired: "wired (site_routes w db) (built_api (site_routes w db) dir s)"
proof -
  have "wired [] (new_api dir)" by (simp add: wired_def new_api_def)
  from register_all_wired [OF this, of "site_routes w db" s] show ?thesis
    using site_routes_distinct [of w db] site_routes_paths [of w db] by (auto simp: built_api_def)
qed

section \<open>The running site\<close>

definition start_site :: "'db web \<Rightarrow> 'db \<Rightarrow> string \<Rightarrow> 'db site \<times> http_api" where
  "start_site w db dir = ((db, new_chat), built_api (site_routes w db) dir (db, new_chat))"

definition site_step ::
  "'s registration list \<Rightarrow> 's \<times> http_api \<Rightarrow> env \<times> string \<Rightarrow> 's \<times> http_api" where
  "site_step rs p request =
     (case site_request rs (fst request) (snd request) p of
        Some (Inr (n, s, api)) \<Rightarrow> (s, api) | _ \<Rightarrow> p)"

interpretation site: event_machine "site_step (site_routes w db)"
    "\<lambda>p. wired (site_routes w db) (snd p)" "\<lambda>_ _. True" for w db
proof
  fix p :: "'a site \<times> http_api" and request
  assume w: "wired (site_routes w db) (snd p)"
  obtain s api where p: "p = (s, api)" by (cases p)
  show "wired (site_routes w db) (snd (site_step (site_routes w db) p request))"
  proof (cases "\<exists>q. site_request (site_routes w db) (fst request) (snd request) p = ret q")
    case True
    then obtain n s' api' where
      q: "site_request (site_routes w db) (fst request) (snd request) (s, api) = ret (n, s', api')"
      by (auto simp: p)
    then obtain rtype req where
      "handle_request (fst request) rtype req (at_state (site_routes w db) s api) = ret (n, api')"
      by (auto simp: site_request_def bindP_eq_ret)
    from wired_keeps [OF at_state_wired this] w q site_routes_distinct [of w db] show ?thesis
      by (simp add: p site_step_def ret_def)
  next
    case False
    then have "site_step (site_routes w db) p request = p"
      by (auto simp: site_step_def ret_def split: option.split sum.split)
    with w show ?thesis by simp
  qed
qed

lemma site_wired:
  assumes "run_steps (site_step (site_routes w db)) (start_site w db dir) requests = (s, api)"
  shows "wired (site_routes w db) api"
  using site.run_inv_always [of w db "start_site w db dir" requests] assms
  by (simp add: start_site_def built_wired)

text \<open>The routes that ask for a token: all that change something, and all that concern a user.\<close>

definition protected_keys :: "string list" where
  "protected_keys =
     [''POST /api/token/'', ''POST /api/get/users/'', ''PUT /api/user/'', ''POST /api/my/user/'',
      ''POST /api/my/access/'', ''POST /api/my/threads/'', ''POST /api/my/poi/'', ''POST /api/thread/'',
      ''PUT /api/thread/'', ''DELETE /api/thread/'', ''POST /api/message/'', ''PUT /api/message/'',
      ''DELETE /api/message/'', ''POST /api/poi/'', ''PUT /api/poi/'', ''DELETE /api/poi/'',
      ''POST /api/user/chat/'', ''POST /api/backup/'']"

definition asks_token :: "'s registration \<Rightarrow> bool" where
  "asks_token r = (\<not> reg_human r \<and> (case reg_handler r of Authenticated f \<Rightarrow> True | _ \<Rightarrow> False))"

lemma protected_routes: "map reg_key (filter asks_token (site_routes w db)) = protected_keys"
  by (simp add: site_routes_def jph2_routes_def protected_keys_def declare_route_def reg_key_def
      asks_token_def Let_def)

lemma protected_reg:
  assumes "k \<in> set protected_keys"
  obtains r f where "r \<in> set (site_routes w db)" "reg_key r = k" "reg_handler r = Authenticated f"
    "\<not> reg_human r"
proof -
  from assms have "k \<in> set (map reg_key (filter asks_token (site_routes w db)))"
    by (simp only: protected_routes)
  then obtain r where r: "r \<in> set (site_routes w db)" "reg_key r = k" "asks_token r" by auto
  with that show thesis by (cases "reg_handler r") (auto simp: asks_token_def)
qed

lemma no_protected_captcha: "''GET /api/captcha/'' \<notin> set protected_keys"
  by code_simp

text \<open>What a refused request is told.\<close>

definition refusal :: "string \<Rightarrow> bool" where
  "refusal text \<longleftrightarrow> text = ''Insufficient access.''
     \<or> text = ''This route is rate-limited, wait a bit.''
     \<or> (\<exists>k t. text = [CHR 0x27] @ k @ [CHR 0x27] @ '' requires a '' @ t @ ''.'')"

lemma refusal_access: "refusal ''Insufficient access.''"
  by (simp add: refusal_def)

lemma check_request_refusal:
  assumes "check_request env req key rk rt api = (Some text, b)" "\<not> requires_human rt"
  shows "refusal text"
  using assms by (auto simp: check_request_def Let_def refusal_def split: if_splits option.splits)

lemma token_refusal: "refusal ([CHR 0x27] @ ''token'' @ [CHR 0x27] @ '' requires a string.'')"
  unfolding refusal_def by (intro disjI2 exI [of _ "''token''"] exI [of _ "''string''"]) simp

lemma note_call_functions:
  assumes "check_request env req key rk rt api = (x, b)" "um_find (routemap api) rk = Some rt"
  shows "\<exists>rt'. um_find (routemap b) rk = Some rt' \<and> route_function rt' = route_function rt
    \<and> token_function rt' = token_function rt \<and> form_function rt' = form_function rt"
  using check_request_routes [OF assms(1)] assms(2) by (auto simp: note_call_def)

text \<open>
  A request for an authenticated route: it is refused, or it comes to the function of the route
  with what \<open>call_token_function\<close> makes of it.
\<close>

lemma authenticated_request:
  fixes rs :: "'s registration list"
  assumes w: "wired rs api" and d: "distinct (map reg_key rs)"
    and reg: "reg \<in> set rs" "reg_key reg = request_route_key HTTP_API req"
      "reg_handler reg = Authenticated f" "\<not> reg_human reg"
    and nc: "reg_key reg \<noteq> ''GET /api/captcha/''"
    and h: "handle_request env HTTP_API req (at_state rs s api) = ret (n, api')"
  obtains (refused) r msg b where "granted env HTTP_API req (at_state rs s api) = None"
      "(n, api') = respond env (r\<lparr>body := json_error msg\<rparr>) b" "refusal msg"
  | (granted) req' v r b where
      "granted env HTTP_API req (at_state rs s api) = Some (req', reg_key reg, v, r, b)"
      "\<And>k. k \<noteq> session_name \<Longrightarrow> um_find (objectValues req') k = um_find (objectValues req) k"
      "(if \<not> HasObj req' ''token'' STRING then
          ret (respond env (r\<lparr>body := json_error ([CHR 0x27] @ ''token'' @ [CHR 0x27]
            @ '' requires a string.'')\<rparr>) b)
        else bindP (call_token_function env (\<lambda>j t. fst (f j t s)) req')
          (\<lambda>t. ret (respond env (r\<lparr>body := t\<rparr>) b))) = ret (n, api')"
proof -
  let ?api = "at_state rs s api"
  obtain req' key api1 where a: "attach_session env req ?api = (req', key, api1)"
    by (cases "attach_session env req ?api")
  obtain rt0 where rt0: "um_find (routemap api) (reg_key reg) = Some rt0" "shape_of rt0 = shape_reg reg"
    using wired_find [OF w reg(1) d] .
  let ?rt = "with_functions s (Some (Authenticated f)) rt0"
  have rt: "um_find (routemap api1) (reg_key reg) = Some ?rt"
    using rt0(1) attach_session_routes [OF a] handlers_find [OF d reg(1)] reg(3)
    by (simp add: at_state_find)
  have k: "request_route_key HTTP_API req' = reg_key reg"
    using attach_session_route_key [OF a] reg(2) by simp
  have human: "\<not> requires_human ?rt"
    using rt0(2) reg(4) by (simp add: with_functions_def shape_of_def shape_reg_def)
  let ?r = "set_header session_name key new_response" and ?v = "request_view req'"
  obtain v where v: "decode_parameters req' (required_parameters ?rt) ?v = Inr v"
    using h rt k nc by (cases "decode_parameters req' (required_parameters ?rt) ?v")
      (auto simp: handle_request_def a)
  obtain x b where c: "check_request env req' key (reg_key reg) ?rt api1 = (x, b)"
    by (cases "check_request env req' key (reg_key reg) ?rt api1")
  show thesis
  proof (cases x)
    case (Some msg)
    have "granted env HTTP_API req ?api = None"
      using rt k nc v c Some by (simp add: granted_def a)
    moreover have "(n, api') = respond env (?r\<lparr>body := json_error msg\<rparr>) b"
      using h rt k nc v c Some by (simp add: handle_request_def a refuse_def)
    ultimately show thesis
      using refused check_request_refusal [OF c [unfolded Some] human] by blast
  next
    case None
    from note_call_functions [OF c rt] obtain rt' where rt': "um_find (routemap b) (reg_key reg) = Some rt'"
      "route_function rt' = route_function ?rt" "token_function rt' = token_function ?rt" by blast
    have fs: "route_function rt' = None" "token_function rt' = Some (\<lambda>j t. fst (f j t s))"
      using rt' rt0(2) reg(3) by (simp_all add: with_functions_def shape_of_def shape_reg_def)
    show thesis
    proof (rule granted [of req' v ?r b])
      show "granted env HTTP_API req ?api = Some (req', reg_key reg, v, ?r, b)"
        using rt k nc v c None by (simp add: granted_def a)
      show "(if \<not> HasObj req' ''token'' STRING then
          ret (respond env (?r\<lparr>body := json_error ([CHR 0x27] @ ''token'' @ [CHR 0x27]
            @ '' requires a string.'')\<rparr>) b)
        else bindP (call_token_function env (\<lambda>j t. fst (f j t s)) req')
          (\<lambda>t. ret (respond env (?r\<lparr>body := t\<rparr>) b))) = ret (n, api')"
        using h rt k nc v c None fs rt'(1)
        by (simp add: handle_request_def a dispatch_def Let_def split: if_split_asm)
    qed (rule attach_session_keeps [OF a])
  qed
qed

lemma token_no_session: "''token'' \<noteq> session_name" and id_no_session: "''id'' \<noteq> session_name"
  by (simp_all add: session_name_def)

lemma request_token_cong:
  "um_find (objectValues req') ''token'' = um_find (objectValues req) ''token'' \<Longrightarrow>
    request_token env req' = request_token env req \<and> HasObj req' ''token'' STRING = HasObj req ''token'' STRING"
  by (simp add: request_token_def HasObj_def GetStr_def)

text \<open>The function of the route runs with the token that the request carries.\<close>

lemma call_token_function_eq:
  "call_token_function env g req =
     (case bindP (request_token env req) (\<lambda>token. lift_res (g req token)) of
        Some (Inl e) \<Rightarrow> if caught e then ret (json_error ''Insufficient access.'') else fail e
      | r \<Rightarrow> r)"
proof -
  have "bindP (bindP m f) g' = bindP m (\<lambda>x. bindP (f x) g')" for m f g'
    by (cases m) (auto simp: bindP_def split: sum.split)
  then show ?thesis by (simp add: call_token_function_def request_token_def)
qed

lemma call_token_function_bad:
  assumes "call_token_function env g req = ret b" "\<nexists>token. request_token env req = ret token"
  shows "b = json_error ''Insufficient access.''"
proof (cases "request_token env req")
  case None
  with assms(1) show ?thesis by (simp add: call_token_function_eq)
next
  case (Some y)
  with assms show ?thesis
    by (cases y) (auto simp: call_token_function_eq fail_def ret_def split: if_splits)
qed

section \<open>What the site promises\<close>

text \<open>
  C32. Nothing that concerns a user is done without a token: whatever requests came before, a request
  for one of the eighteen authenticated routes whose token is missing, does not open under the
  key of the server or is no readable text leaves database and chat as they are, and is answered
  with one of the fixed refusals.
\<close>

theorem no_service_without_token:
  assumes "run_steps (site_step (site_routes w db)) (start_site w db dir) requests = (s, api)"
    "site_request (site_routes w db) env text (s, api) = ret (n, s', api')"
    "parse_http_request text (new_typed OBJECT) = ret (HTTP_API, req)"
    "request_route_key HTTP_API req \<in> set protected_keys"
    "\<nexists>token. request_token env req = ret token"
  shows "s' = s \<and> (\<exists>r msg b. (n, api') = respond env (r\<lparr>body := json_error msg\<rparr>) b \<and> refusal msg)"
proof -
  let ?rs = "site_routes w db" and ?api = "at_state (site_routes w db) s api"
  from assms(4) obtain reg f where reg: "reg \<in> set ?rs" "reg_key reg = request_route_key HTTP_API req"
    "reg_handler reg = Authenticated f" "\<not> reg_human reg" by (rule protected_reg)
  have nc: "reg_key reg \<noteq> ''GET /api/captcha/''"
    using reg(2) assms(4) no_protected_captcha by metis
  have h: "handle_request env HTTP_API req ?api = ret (n, api')"
    and s': "s' = state_after ?rs env HTTP_API req ?api s"
    using assms(2,3) by (auto simp: site_request_def bindP_eq_ret)
  from site_wired [OF assms(1)] site_routes_distinct reg nc h show ?thesis
  proof (cases rule: authenticated_request)
    case (refused r msg b)
    with s' show ?thesis by (auto simp: state_after_def)
  next
    case (granted req' v r b)
    note cong = request_token_cong [OF granted(2) [OF token_no_session], of env]
    have "s' = s"
      using s' granted(1) handlers_find [OF site_routes_distinct reg(1)] reg(3) cong assms(5)
      by (auto simp: state_after_def run_handler_def ret_def split: option.splits sum.splits)
    moreover have "\<exists>msg. (n, api') = respond env (r\<lparr>body := json_error msg\<rparr>) b \<and> refusal msg"
    proof (cases "HasObj req' ''token'' STRING")
      case True
      with granted(3) obtain t where "call_token_function env (\<lambda>j t. fst (f j t s)) req' = ret t"
        "(n, api') = respond env (r\<lparr>body := t\<rparr>) b" by (auto simp: bindP_eq_ret)
      with call_token_function_bad [of env _ req' t] cong assms(5) refusal_access show ?thesis by auto
    next
      case False
      with granted(3) token_refusal show ?thesis by (metis ret_inject)
    qed
    ultimately show ?thesis by blast
  qed
qed

section \<open>Rows over HTTP\<close>

lemma granted_keeps:
  assumes "granted env rtype req api = Some (req', key, v, r, b)"
  shows "key = request_route_key rtype req"
    "k \<noteq> session_name \<Longrightarrow> um_find (objectValues req') k = um_find (objectValues req) k"
proof -
  obtain req1 key1 api1 where a: "attach_session env req api = (req1, key1, api1)"
    by (cases "attach_session env req api")
  with assms have "req' = req1" "key = request_route_key rtype req1"
    by (auto simp: granted_def Let_def split: if_splits option.splits sum.splits prod.splits)
  then show "key = request_route_key rtype req"
    "k \<noteq> session_name \<Longrightarrow> um_find (objectValues req') k = um_find (objectValues req) k"
    using attach_session_route_key [OF a] attach_session_keeps [OF a] by simp_all
qed

text \<open>What an authenticated route can do to the state.\<close>

lemma authenticated_state:
  assumes "site_request rs env text (s, api) = ret (n, s', api')"
    "parse_http_request text (new_typed OBJECT) = ret (rtype, req)"
    "um_find (handlers_of rs) (request_route_key rtype req) = Some (Authenticated f)"
  obtains (same) "s' = s"
  | (called) req' token where "request_token env req = ret token" "s' = snd (f req' token s)"
      "\<And>k. k \<noteq> session_name \<Longrightarrow> um_find (objectValues req') k = um_find (objectValues req) k"
proof -
  have s': "s' = state_after rs env rtype req (at_state rs s api) s"
    using assms(1,2) by (auto simp: site_request_def bindP_eq_ret)
  show thesis
  proof (cases "granted env rtype req (at_state rs s api)")
    case None
    with s' same show thesis by (simp add: state_after_def)
  next
    case (Some g)
    obtain req' key v r b where g: "g = (req', key, v, r, b)" by (cases g)
    note keeps = granted_keeps [OF Some [unfolded g]]
    have run: "s' = run_handler env rtype req' (Authenticated f) s"
      using s' Some g assms(3) keeps(1) by (simp add: state_after_def)
    show thesis
    proof (cases "\<exists>token. request_token env req' = ret token")
      case True
      then obtain token where token: "request_token env req' = ret token" ..
      then have "request_token env req = ret token"
        using request_token_cong [OF keeps(2) [OF token_no_session], of env] by simp
      moreover have "s' = s \<or> s' = snd (f req' token s)"
        using run token by (auto simp: run_handler_def ret_def)
      ultimately show thesis using same called [of token req'] keeps(2) by blast
    next
      case False
      then have "s' = s"
        using run by (auto simp: run_handler_def ret_def split: if_splits option.splits sum.splits)
      then show thesis by (rule same)
    qed
  qed
qed

definition owned_routes :: "(string \<times> PgSqlModel) list" where
  "owned_routes =
     [(''PUT /api/thread/'', threads_model), (''DELETE /api/thread/'', threads_model),
      (''PUT /api/message/'', messages_model), (''DELETE /api/message/'', messages_model),
      (''PUT /api/poi/'', poi_model), (''DELETE /api/poi/'', poi_model)]"

definition guards_owner :: "'db web \<Rightarrow> PgSqlModel \<Rightarrow> 'db site handler \<Rightarrow> bool" where
  "guards_owner w m h \<longleftrightarrow>
     (\<exists>act. h = Authenticated (\<lambda>j t. on_db (if_owner (w_quote w) (w_exec w) m j t (act j t))))"

lemma owner_handlers:
  "guards_owner w m (Authenticated (\<lambda>j t. on_db (update_owned (w_quote w) (w_exec w) m j t)))"
  "guards_owner w m (Authenticated (\<lambda>j t. on_db (delete_owned (w_quote w) (w_exec w) m j t)))"
  by (auto simp: guards_owner_def update_owned_def delete_owned_def)

lemma owned_declared:
  assumes "(k, m) \<in> set owned_routes"
  obtains r where "r \<in> set (site_routes w db)" "reg_key r = k" "guards_owner w m (reg_handler r)"
proof -
  define at where "at n k m \<longleftrightarrow> n < length (site_routes w db) \<and> reg_key (site_routes w db ! n) = k
    \<and> guards_owner w m (reg_handler (site_routes w db ! n))" for n k m
  have "at 13 ''PUT /api/thread/'' threads_model" "at 14 ''DELETE /api/thread/'' threads_model"
    "at 17 ''PUT /api/message/'' messages_model" "at 18 ''DELETE /api/message/'' messages_model"
    "at 23 ''PUT /api/poi/'' poi_model" "at 24 ''DELETE /api/poi/'' poi_model"
    by (simp_all add: at_def site_routes_def jph2_routes_def declare_route_def reg_key_def Let_def
        update_thread_def delete_thread_def update_message_def delete_message_def update_poi_def
        delete_poi_def owner_handlers)
  with assms have "\<exists>n. at n k m" unfolding owned_routes_def by auto
  with that show thesis by (auto simp: at_def intro: nth_mem)
qed

lemma owned_has_id: "(k, m) \<in> set owned_routes \<Longrightarrow> HasColumn m ''id''"
  by (auto simp: owned_routes_def threads_model_def messages_model_def poi_model_def HasColumn_def
      auto_column_def)

text \<open>
  C33. A request for the update or the deletion of a thread, a message or a point of interest changes
  nothing but the database, and nothing beyond looking the row up unless its token opens and the
  user in it is the owner of the row that the request names.
\<close>

theorem only_the_owner_changes_rows:
  assumes "site_request (site_routes w db0) env text (s, api) = ret (n, s', api')"
    "parse_http_request text (new_typed OBJECT) = ret (rtype, req)"
    "(request_route_key rtype req, m) \<in> set owned_routes" "GetStr req ''id'' = Inr i"
  shows "s' = s \<or> (\<exists>token. request_token env req = ret token \<and> snd s' = snd s
    \<and> (fst s' = snd (w_exec w (where_sql (w_quote w) m ''id'' i) (fst s))
       \<or> owns (w_quote w) (w_exec w) m i token (fst s)))"
proof -
  obtain r where r: "r \<in> set (site_routes w db0)" "reg_key r = request_route_key rtype req"
    "guards_owner w m (reg_handler r)" using owned_declared [OF assms(3)] .
  then obtain act where "um_find (handlers_of (site_routes w db0)) (request_route_key rtype req) =
      Some (Authenticated (\<lambda>j t. on_db (if_owner (w_quote w) (w_exec w) m j t (act j t))))"
    using handlers_find [OF site_routes_distinct r(1)] by (auto simp: guards_owner_def)
  from assms(1,2) this show ?thesis
  proof (cases rule: authenticated_state)
    case (called req' token)
    have "GetStr req' ''id'' = Inr i"
      using called(3) [OF id_no_session] assms(4) by (simp add: GetStr_def)
    from if_owner_owns [OF owned_has_id [OF assms(3)] this refl, where exec = "w_exec w"
        and quote = "w_quote w" and db = "fst s" and token = token and act = "act req' token"] called
    show ?thesis by (cases s) (auto simp: on_db_def split: prod.splits)
  qed simp
qed

section \<open>The way of a token\<close>

text \<open>
  What is documented of the base-64 coding: its text has letters, digits and line breaks, and
  reading it skips the line breaks.
\<close>

definition coding_ok :: "crypto \<Rightarrow> bool" where
  "coding_ok cr \<longleftrightarrow> (\<forall>x. NUL \<notin> set (base64 cr x) \<and> BSL \<notin> set (base64 cr x))
     \<and> (\<forall>x. unbase64 cr (strip_controls x) = unbase64 cr x)"

lemma deescape_no_backslash: "BSL \<notin> set s \<Longrightarrow> deescape s = s"
  by (induction s rule: deescape.induct) auto

lemma in_strip_controls: "c \<notin> {LF, CR, TAB} \<Longrightarrow> c \<in> set (strip_controls s) \<longleftrightarrow> c \<in> set s"
  by (auto simp: strip_controls_def)

lemma strip_controls_twice [simp]: "strip_controls (strip_controls s) = strip_controls s"
  by (simp add: strip_controls_def)

lemma decrypt_stripped:
  "coding_ok cr \<Longrightarrow> strip_controls s = strip_controls s' \<Longrightarrow> Symmetric.decrypt cr s = Symmetric.decrypt cr s'"
  unfolding Symmetric.decrypt_def coding_ok_def by metis

lemma canonical_um_set:
  "canonical_members m \<Longrightarrow> clean k \<Longrightarrow> canonical v \<Longrightarrow> canonical_members (um_set k v m)"
  by (induction m) (auto simp: um_set_def)

lemma distinct_um_set: "distinct (map fst m) \<Longrightarrow> distinct (map fst (um_set k v m))"
  by (simp add: um_set_def distinct_update)

lemma row_members_canonical:
  assumes "row_members r cs j = Inr j'" "canonical j" "jtype j = OBJECT"
    "\<forall>c \<in> set cs. clean (col_name c)" "\<And>k v. map_of r k = Some (Some v) \<Longrightarrow> clean v"
  shows "canonical j'"
  using assms(1-4)
proof (induction cs arbitrary: j)
  case (Cons c cs)
  have step: "canonical (set_objectValue (col_name c) (new_string v) j)
      \<and> jtype (set_objectValue (col_name c) (new_string v) j) = OBJECT"
    if "map_of r (col_name c) = Some (Some v)" for v
    using that Cons.prems(2-4) assms(5)
    by (cases j) (auto simp: new_string_def intro!: canonical_um_set distinct_um_set)
  show ?case
    using Cons.prems Cons.IH step by (auto split: if_splits option.splits)
qed simp

lemma row_canonical:
  assumes "row_to_json users_model r = Inr j" "\<And>k v. map_of r k = Some (Some v) \<Longrightarrow> clean v"
  shows "canonical j"
proof -
  have "\<forall>c \<in> set (cols users_model). clean (col_name c)"
    by (simp add: users_model_def column_def auto_column_def times_def clean_def)
  moreover have "canonical (new_typed OBJECT)" "jtype (new_typed OBJECT) = OBJECT"
    by (simp_all add: new_typed_def)
  ultimately show ?thesis
    using row_members_canonical assms unfolding row_to_json_def by blast
qed

text \<open>
  C34. A token that a login has given is accepted: a request that carries it, with or without its
  line breaks, calls an authenticated route with exactly the visible fields of the row of that
  user, whose password has the hash of the one that was given.
\<close>

theorem login_token_is_accepted:
  assumes "crypto_ok cr" "coding_ok cr" "HttpApi.decrypt env = Symmetric.decrypt cr"
    and "login quote exec hash (Symmetric.encrypt cr) json db = (Inr answer, db')"
    and "GetStr json ''username'' = Inr u" "GetStr json ''password'' = Inr p"
    and "answer \<notin> set login_errors"
    and "\<And>rows r k v. fst (exec (access_sql quote users_model ''username'' u) db) = Inr rows \<Longrightarrow>
      r \<in> set rows \<Longrightarrow> map_of r k = Some (Some v) \<Longrightarrow> clean v"
    and "parse_into new_empty answer = ret j" "GetStr j ''token'' = Inr given"
    and "GetStr req ''token'' = Inr carried" "strip_controls carried = strip_controls given"
  shows "\<exists>row rows token. fst (exec (access_sql quote users_model ''username'' u) db) = Inr (row # rows)
    \<and> map_of row ''password'' = Some (Some (hash p)) \<and> request_token env req = ret token
    \<and> um_find (objectValues token) = shown users_model row"
proof -
  let ?seal = "Symmetric.encrypt cr"
  have plain: "NUL \<notin> set (?seal s)" "BSL \<notin> set (?seal s)" for s
    using assms(2) by (simp_all add: coding_ok_def Symmetric.encrypt_def Let_def)
  obtain row rows token j' where row:
    "fst (exec (access_sql quote users_model ''username'' u) db) = Inr (row # rows)"
    "map_of row ''password'' = Some (Some (hash p))" "row_to_json users_model row = Inr token"
    and read: "parse_into new_empty answer = ret j'"
      "GetStr j' ''token'' = Inr (strip_controls (?seal (print token)))"
    using login_answer [OF assms(4-6) plain(1) assms(7)] by blast
  have same: "strip_controls carried = strip_controls (?seal (print token))"
    using read assms(9,10,12) strip_controls_twice by auto
  then have "BSL \<notin> set carried"
    using plain(2) in_strip_controls [of BSL carried] in_strip_controls [of BSL "?seal (print token)"]
    by simp
  moreover have "Symmetric.decrypt cr carried = Inr (print token)"
    using decrypt_stripped [OF assms(2) same] decrypt_encrypt [OF assms(1)] by simp
  moreover have c: "canonical token"
    using row_canonical [OF row(3)] assms(8) [OF row(1)] by auto
  ultimately have "request_token env req = ret token"
    using assms(3,11) parse_stringify_canonical [OF c]
      stringify_no_NUL(1) [OF canonical_reread(1) [OF c, THEN conjunct1]]
    by (simp add: request_token_def deescape_no_backslash c_str_id)
  with row row_to_json_find [OF row(3)] show ?thesis by blast
qed

text \<open>
  C35. Anybody can stop the site: whatever requests came before, a request for a route that is declared
  with a parameter it does not carry ends the program with an exception that nothing catches, and no
  token is asked for first.
\<close>

theorem missing_parameter_stops_the_site:
  assumes "run_steps (site_step (site_routes w db)) (start_site w db dir) requests = (s, api)"
    "parse_http_request text (new_typed OBJECT) = ret (rtype, req)" "rtype \<noteq> HTTP"
    "reg \<in> set (site_routes w db)" "reg_key reg = request_route_key rtype req"
    "(k, t) \<in> set (reg_params reg)" "um_find (objectValues req) k = None"
  shows "\<exists>e. site_request (site_routes w db) env text (s, api) = fail e"
proof -
  let ?rs = "site_routes w db"
  note d = site_routes_distinct [of w db]
  obtain rt where rt: "um_find (routemap (at_state ?rs s api)) (reg_key reg) = Some rt"
    "shape_of rt = shape_reg reg"
    using wired_find [OF at_state_wired [OF site_wired [OF assms(1)] d] assms(4) d] .
  have "(k, t) \<in> set (required_parameters rt)"
    using rt(2) assms(6) by (simp add: shape_of_def shape_reg_def)
  moreover have "reg_key reg \<in> set site_keys"
    using assms(4) site_routes_keys [of w db] by (metis image_eqI set_map)
  then have "reg_key reg \<noteq> ''GET /api/captcha/''" by (auto simp: site_keys_def)
  moreover have "k \<noteq> session_name"
    using bspec [OF bspec [OF site_routes_params assms(4)] assms(6)] by (auto simp: session_name_def)
  ultimately obtain e where "handle_request env rtype req (at_state ?rs s api) = fail e"
    using missing_parameter_is_fatal [where k = k and t = t and rt = rt and rtype = rtype and req = req
        and api = "at_state ?rs s api" and env = env] assms(3,5,7) rt(1) by auto
  with assms(2) show ?thesis by (simp add: site_request_def)
qed

section \<open>Examples\<close>

definition sample_web :: "string list web" where
  "sample_web = \<lparr>w_quote = id, w_exec = logs [], w_hash = id, w_encrypt = id, w_dump = ''dump'',
     w_admin_email = ''a'', w_post = (\<lambda>_. Inr False)\<rparr>"

definition api_call :: "string \<Rightarrow> string \<Rightarrow> string" where
  "api_call line json =
     line @ '' HTTP/1.1'' @ [CR, LF] @ ''Content-Type: application/json'' @ [CR, LF, CR, LF] @ json"

declare parse_loop.simps [code]

definition delete_text :: string where
  "delete_text = api_call ''DELETE /api/thread''
     (''{'' @ escape ''id'' @ '':'' @ escape ''5'' @ '','' @ escape ''token'' @ '':'' @ escape ''t'' @ ''}'')"

definition delete_request :: JsonObject where
  "delete_request = JsonObject OBJECT []
     [(''method'', new_string ''DELETE''), (''route'', new_string ''/api/thread''),
      (''protocol'', new_string ''HTTP/1.1''), (''Content-Type'', new_string ''application/json''),
      (''id'', new_string ''5''), (''token'', new_string ''t'')] []"

lemma delete_parsed: "parse_http_request delete_text (new_typed OBJECT) = ret (HTTP_API, delete_request)"
  by code_simp

lemma delete_key: "request_route_key HTTP_API delete_request = ''DELETE /api/thread/''"
  by code_simp

lemma delete_id: "GetStr delete_request ''id'' = Inr ''5''"
  by code_simp

lemma delete_token: "request_token sample_env delete_request = fail (RuntimeError ''bad'')"
  by (simp add: request_token_def delete_request_def sample_env_def GetStr_def um_find_Cons new_string_def)

lemma register_sessions: "register s r api = Some (Inr api') \<Longrightarrow> sessions api' = sessions api"
  by (auto simp: register_def add_route_def authenticated_route_def form_route_def Let_def bindR_eq_Inr
      split: handler.splits if_splits)

lemma register_all_sessions: "register_all s rs api = Some (Inr api') \<Longrightarrow> sessions api' = sessions api"
  by (induction rs arbitrary: api) (auto split: option.splits sum.splits dest: register_sessions)

lemma built_sessions: "sessions (built_api rs dir s) = []"
  by (auto simp: built_api_def new_api_def split: option.splits sum.splits dest: register_all_sessions)

text \<open>The request to delete a thread, with a token that does not open, on the site as it starts.\<close>

lemma delete_answered:
  "\<exists>n api'. site_request (site_routes sample_web []) sample_env delete_text (start_site sample_web [] ''www'')
    = ret (n, ([], new_chat), api')"
proof -
  let ?rs = "site_routes sample_web []" and ?s = "([], new_chat) :: string list site"
  let ?api = "at_state ?rs ?s (built_api ?rs ''www'' ?s)"
  have d: "distinct (map reg_key ?rs)" by (rule site_routes_distinct)
  have r: "?rs ! 14 \<in> set ?rs" "reg_key (?rs ! 14) = ''DELETE /api/thread/''"
    "shape_reg (?rs ! 14) = ([(''id'', STRING)], 0, False, False, True, False)"
    by (simp_all add: site_routes_def jph2_routes_def Let_def declare_route_def reg_key_def shape_reg_def)
  obtain rt where rt: "um_find (routemap ?api) ''DELETE /api/thread/'' = Some rt"
    "shape_of rt = ([(''id'', STRING)], 0, False, False, True, False)"
    using wired_find [OF at_state_wired [OF built_wired d] r(1) d] r(2,3) by metis
  then obtain f where f: "route_function rt = None" "token_function rt = Some f"
    "required_parameters rt = [(''id'', STRING)]" "minimum_ms_between_call rt = 0" "\<not> requires_human rt"
    by (auto simp: shape_of_def)
  let ?req = "set_objectValue session_name (new_string ''h1.2.3.4'') delete_request"
  have a: "attach_session sample_env delete_request ?api =
      (?req, ''h1.2.3.4'', ?api\<lparr>sessions := [(''h1.2.3.4'', \<lparr>captcha = [], created = 5\<rparr>)]\<rparr>)"
    by (simp add: attach_session_def delete_request_def sample_env_def HasObj_def GetStr_def um_find_Cons
        session_name_def string_or_empty_def new_string_def at_state_def built_sessions Let_def)
  have "GetURLDecodedStr ?req ''id'' = Inr ''5''" by code_simp
  then have v: "decode_parameters ?req [(''id'', STRING)] v =
      Inr (v\<lparr>vparameters := um_set ''id'' ''5'' (vparameters v)\<rparr>)" for v by simp
  have m: "missing_parameter ?req [(''id'', STRING)] = None" by code_simp
  have t: "call_token_function sample_env f ?req = ret (json_error ''Insufficient access.'')"
    using request_token_cong [of ?req delete_request sample_env] delete_token
    by (simp add: call_token_function_eq token_no_session caught_def fail_def)
  have "HasObj ?req ''token'' STRING" by code_simp
  then obtain n api' where "handle_request sample_env HTTP_API delete_request ?api = ret (n, api')"
    using rt(1) f v m t attach_session_route_key [OF a] delete_key
    by (cases "respond sample_env ((set_header session_name ''h1.2.3.4'' new_response)
        \<lparr>body := json_error ''Insufficient access.''\<rparr>)
        (?api\<lparr>sessions := [(''h1.2.3.4'', \<lparr>captcha = [], created = 5\<rparr>)]\<rparr>)")
      (simp add: handle_request_def a check_request_def dispatch_def Let_def)
  then obtain s' where q: "site_request ?rs sample_env delete_text (?s, built_api ?rs ''www'' ?s) = ret (n, s', api')"
    by (simp add: site_request_def delete_parsed)
  obtain h where "reg_handler (?rs ! 14) = Authenticated h"
    using r(3) by (auto simp: shape_reg_def split: handler.splits)
  then have "um_find (handlers_of ?rs) (request_route_key HTTP_API delete_request) = Some (Authenticated h)"
    using handlers_find [OF d r(1)] r(2) delete_key by simp
  from q delete_parsed this have "s' = ?s"
    by (cases rule: authenticated_state) (simp_all add: delete_token)
  with q show ?thesis by (auto simp: start_site_def)
qed

lemma no_service_without_token_witness:
  "\<exists>n s api r msg b. site_request (site_routes sample_web []) sample_env delete_text
      (start_site sample_web [] ''www'') = ret (n, s, api)
    \<and> (n, api) = respond sample_env (r\<lparr>body := json_error msg\<rparr>) b \<and> refusal msg"
proof -
  obtain n api' where q: "site_request (site_routes sample_web []) sample_env delete_text
      (start_site sample_web [] ''www'') = ret (n, ([], new_chat), api')" using delete_answered by blast
  obtain s api where s: "start_site sample_web [] ''www'' = (s, api)" by (cases "start_site sample_web [] ''www''")
  have "\<nexists>token. request_token sample_env delete_request = ret token" by (simp add: delete_token)
  moreover have "''DELETE /api/thread/'' \<in> set protected_keys" by code_simp
  ultimately show ?thesis
    using no_service_without_token [where requests = "[]" and w = sample_web and db = "[]" and dir = "''www''",
        OF _ q [unfolded s] delete_parsed] q s delete_key by auto
qed

lemma only_the_owner_changes_rows_witness:
  "\<exists>n s api. site_request (site_routes sample_web []) sample_env delete_text
      (start_site sample_web [] ''www'') = ret (n, s, api) \<and> s = ([], new_chat)"
proof -
  obtain n api' where q: "site_request (site_routes sample_web []) sample_env delete_text
      (start_site sample_web [] ''www'') = ret (n, ([], new_chat), api')" using delete_answered by blast
  obtain s api where s: "start_site sample_web [] ''www'' = (s, api)" by (cases "start_site sample_web [] ''www''")
  have "(request_route_key HTTP_API delete_request, threads_model) \<in> set owned_routes"
    by (simp add: delete_key owned_routes_def)
  from only_the_owner_changes_rows [OF q [unfolded s] delete_parsed this delete_id]
  have "s = ([], new_chat)" by (simp add: delete_token)
  with q show ?thesis by blast
qed

lemma missing_parameter_stops_the_site_witness:
  "\<exists>e. site_request (site_routes sample_web []) sample_env (api_call ''GET /api/thread'' ''{}'')
    (start_site sample_web [] ''www'') = fail e"
proof -
  let ?rs = "site_routes sample_web []"
  let ?req = "JsonObject OBJECT [] [(''method'', new_string ''GET''), (''route'', new_string ''/api/thread''),
    (''protocol'', new_string ''HTTP/1.1''), (''Content-Type'', new_string ''application/json'')] []"
  have parsed: "parse_http_request (api_call ''GET /api/thread'' ''{}'') (new_typed OBJECT) = ret (HTTP_API, ?req)"
    by code_simp
  have key: "request_route_key HTTP_API ?req = ''GET /api/thread/''" by code_simp
  have r: "?rs ! 12 \<in> set ?rs" "reg_key (?rs ! 12) = ''GET /api/thread/''"
    "reg_params (?rs ! 12) = [(''id'', STRING)]"
    by (simp_all add: site_routes_def jph2_routes_def Let_def declare_route_def reg_key_def)
  obtain s api where s: "start_site sample_web [] ''www'' = (s, api)" by (cases "start_site sample_web [] ''www''")
  show ?thesis
    unfolding s
    by (rule missing_parameter_stops_the_site [where requests = "[]" and dir = "''www''" and reg = "?rs ! 12"
          and k = "''id''" and t = STRING, OF _ parsed])
      (simp_all add: s r(1-3) key um_find_def)
qed

text \<open>A coding for the example: two letters for a byte.\<close>

definition letter :: "nat \<Rightarrow> char" where "letter n = char_of (65 + n)"

definition two_letters :: "string \<Rightarrow> string" where
  "two_letters s = concat (map (\<lambda>c. [letter (uchar c div 16), letter (uchar c mod 16)]) s)"

fun from_letters :: "string \<Rightarrow> string" where
  "from_letters (a # b # s) = char_of (16 * (uchar a - 65) + (uchar b - 65)) # from_letters s"
| "from_letters _ = []"

definition letter_crypto :: crypto where
  "letter_crypto = \<lparr>aes_encrypt = id, aes_decrypt = Inr, hmac = (\<lambda>_. replicate 32 (CHR ''h'')),
     base64 = two_letters, unbase64 = (\<lambda>s. from_letters (strip_controls s))\<rparr>"

lemma letter_bounds: "n < 16 \<Longrightarrow> uchar (letter n) = 65 + n"
  by (simp add: letter_def uchar_char_of)

lemma letter_plain: "n < 16 \<Longrightarrow> letter n \<notin> {NUL, BSL, LF, CR, TAB}"
proof -
  assume "n < 16"
  then have "65 \<le> uchar (letter n)" "uchar (letter n) \<le> 80" by (simp_all add: letter_bounds)
  then show ?thesis by (auto simp: uchar_def)
qed

lemma two_letters_Cons:
  "two_letters (c # s) = letter (uchar c div 16) # letter (uchar c mod 16) # two_letters s"
  by (simp add: two_letters_def)

lemma nibbles: "uchar c div 16 < 16" "uchar c mod 16 < 16"
  using uchar_lt [of c] by (simp_all add: less_mult_imp_div_less)

lemma two_letters_plain: "c \<in> set (two_letters s) \<Longrightarrow> c \<notin> {NUL, BSL, LF, CR, TAB}"
proof (induction s)
  case (Cons d s)
  then show ?case
    using letter_plain [OF nibbles(1), of d] letter_plain [OF nibbles(2), of d]
    by (auto simp: two_letters_Cons)
qed (simp add: two_letters_def)

lemma strip_two_letters: "strip_controls (two_letters s) = two_letters s"
  using two_letters_plain [of _ s] by (auto simp: strip_controls_def filter_id_conv)

lemma from_two_letters: "from_letters (two_letters s) = s"
proof (induction s)
  case (Cons c s)
  then show ?case by (simp add: two_letters_Cons letter_bounds nibbles char_of_uchar)
qed (simp add: two_letters_def)

lemma letter_crypto_ok: "crypto_ok letter_crypto" "coding_ok letter_crypto"
  using two_letters_plain
  by (auto simp: crypto_ok_def coding_ok_def letter_crypto_def strip_two_letters from_two_letters)

lemma sample_login:
  obtains answer db where "login id (logs [a_user]) (\<lambda>_. ''hash'') (Symmetric.encrypt letter_crypto)
    login_request [] = (Inr answer, db)" "answer \<notin> set login_errors"
proof -
  let ?acc = "Access id (logs [a_user]) users_model ''username'' ''ann'' ''hash'' []"
  have "case fst ?acc of Inr token \<Rightarrow> \<not> um_count (objectValues token) ''error'' | _ \<Rightarrow> False"
    by code_simp
  then obtain token db where a: "?acc = (Inr token, db)" "\<not> um_count (objectValues token) ''error''"
    by (cases ?acc) (auto split: sum.splits)
  have g: "GetStr login_request ''username'' = Inr ''ann''" "GetStr login_request ''password'' = Inr ''secret''"
    by code_simp+
  have e: "\<forall>x \<in> set login_errors. take 3 x \<noteq> ''{'' @ [DQ] @ ''t''" by code_simp
  let ?answer = "''{'' @ [DQ] @ ''token'' @ [DQ] @ '':'' @ escape (Symmetric.encrypt letter_crypto (print token)) @ ''}''"
  have "?answer \<notin> set login_errors" using e by (force simp: numeral_3_eq_3)
  moreover have "login id (logs [a_user]) (\<lambda>_. ''hash'') (Symmetric.encrypt letter_crypto) login_request []
      = (Inr ?answer, db)"
    using a g by (simp add: login_def bindD_eqs)
  ultimately show thesis using that by blast
qed

lemma login_token_is_accepted_witness:
  "\<exists>req token. request_token (sample_env\<lparr>decrypt := Symmetric.decrypt letter_crypto\<rparr>) req = ret token
    \<and> um_find (objectValues token) = shown users_model a_user"
proof -
  obtain answer db where l: "login id (logs [a_user]) (\<lambda>_. ''hash'') (Symmetric.encrypt letter_crypto)
    login_request [] = (Inr answer, db)" "answer \<notin> set login_errors" by (rule sample_login)
  have g: "GetStr login_request ''username'' = Inr ''ann''" "GetStr login_request ''password'' = Inr ''secret''"
    by code_simp+
  have plain: "NUL \<notin> set (Symmetric.encrypt letter_crypto s)" for s
    using letter_crypto_ok(2) by (simp add: coding_ok_def Symmetric.encrypt_def Let_def)
  obtain j given where j: "parse_into new_empty answer = ret j" "GetStr j ''token'' = Inr given"
    using login_answer [OF l(1) g plain l(2)] by blast
  let ?req = "JsonObject OBJECT [] [(''token'', new_string given)] []"
  have carried: "GetStr ?req ''token'' = Inr given" by (simp add: GetStr_def um_find_Cons)
  have rows: "clean v" if "fst (logs [a_user] (access_sql id users_model ''username'' ''ann'') []) = Inr rows"
    "r \<in> set rows" "map_of r k = Some (Some v)" for rows r k v
    using that by (auto simp: logs_def a_user_def row_of_def clean_def split: if_splits)
  let ?env = "sample_env\<lparr>decrypt := Symmetric.decrypt letter_crypto\<rparr>"
  have env: "HttpApi.decrypt ?env = Symmetric.decrypt letter_crypto" by simp
  have "\<exists>row rows token. fst (logs [a_user] (access_sql id users_model ''username'' ''ann'') [])
      = Inr (row # rows) \<and> map_of row ''password'' = Some (Some ''hash'')
      \<and> request_token ?env ?req = ret token \<and> um_find (objectValues token) = shown users_model row"
    by (rule login_token_is_accepted [OF letter_crypto_ok env l(1) g l(2) _ j carried refl]) (rule rows)
  then show ?thesis by (auto simp: logs_def)
qed

end
