(* ===== verification/Terminal.thy ===== *)
theory Terminal
  imports Comd Services
begin

text \<open>
  The modes of the terminal: what the key reader (\<open>examples/read-stdin-tty.cpp\<close>) and the client of
  the remote shell (\<open>examples/com.cpp\<close>) do to them from their start to each of their ends, signals
  included; and the blocking mode of a descriptor (\<open>Util::set_non_blocking\<close>, \<open>set_blocking\<close>).
  The numbers of the flags are those of Linux.  Results of system calls are arguments.
\<close>

unbundle bit_operations_syntax

section \<open>Modes\<close>

record termios =
  c_iflag :: "32 word"
  c_oflag :: "32 word"
  c_cflag :: "32 word"
  c_lflag :: "32 word"
  c_cc :: "8 word list"

definition ISIG :: "32 word" where "ISIG = 0x1"
definition ICANON :: "32 word" where "ICANON = 0x2"
definition ECHO :: "32 word" where "ECHO = 0x8"
definition IEXTEN :: "32 word" where "IEXTEN = 0x8000"
definition BRKINT :: "32 word" where "BRKINT = 0x2"
definition INPCK :: "32 word" where "INPCK = 0x10"
definition ISTRIP :: "32 word" where "ISTRIP = 0x20"
definition ICRNL :: "32 word" where "ICRNL = 0x100"
definition IXON :: "32 word" where "IXON = 0x400"
definition CSIZE :: "32 word" where "CSIZE = 0x30"
definition CS8 :: "32 word" where "CS8 = 0x30"
definition PARENB :: "32 word" where "PARENB = 0x100"
definition OPOST :: "32 word" where "OPOST = 0x1"
definition VTIME :: nat where "VTIME = 5"
definition VMIN :: nat where "VMIN = 6"
definition O_NONBLOCK :: "32 word" where "O_NONBLOCK = 0x800"

lemmas flag_defs = ISIG_def ICANON_def ECHO_def IEXTEN_def BRKINT_def INPCK_def ISTRIP_def ICRNL_def
  IXON_def CSIZE_def CS8_def PARENB_def OPOST_def VTIME_def VMIN_def O_NONBLOCK_def

text \<open>The new modes of the two programs.\<close>

definition com_modes :: "termios \<Rightarrow> termios" where
  "com_modes t = t\<lparr>c_lflag := c_lflag t AND NOT ICANON\<rparr>"

definition reader_modes :: "termios \<Rightarrow> termios" where
  "reader_modes t = t\<lparr>
     c_lflag := c_lflag t AND NOT (ECHO OR ICANON OR IEXTEN OR ISIG),
     c_iflag := c_iflag t AND NOT (BRKINT OR ICRNL OR INPCK OR ISTRIP OR IXON),
     c_cflag := (c_cflag t AND NOT (CSIZE OR PARENB)) OR CS8,
     c_oflag := c_oflag t AND NOT OPOST,
     c_cc := (c_cc t)[VMIN := 1, VTIME := 0]\<rparr>"

text \<open>A static variable is zero until it is written.\<close>

definition zero_termios :: termios where
  "zero_termios = \<lparr>c_iflag = 0, c_oflag = 0, c_cflag = 0, c_lflag = 0, c_cc = replicate 32 0\<rparr>"

record tty =
  modes :: termios
  saved :: termios

definition open_tty :: "termios \<Rightarrow> tty" where
  "open_tty t = \<lparr>modes = t, saved = zero_termios\<rparr>"

text \<open>\<open>ttyraw\<close> and \<open>ttyreset\<close>, by whether the modes can be read and written; \<open>True\<close> on error.\<close>

definition ttyraw :: "(termios \<Rightarrow> termios) \<Rightarrow> bool \<Rightarrow> bool \<Rightarrow> tty \<Rightarrow> bool \<times> tty" where
  "ttyraw raw got_ok set_ok t =
     (if \<not> got_ok then (True, t)
      else (let t = t\<lparr>saved := modes t\<rparr> in
            if \<not> set_ok then (True, t) else (False, t\<lparr>modes := raw (saved t)\<rparr>)))"

definition ttyreset :: "bool \<Rightarrow> tty \<Rightarrow> bool \<times> tty" where
  "ttyreset set_ok t = (if \<not> set_ok then (True, t) else (False, t\<lparr>modes := saved t\<rparr>))"

section \<open>Blocking\<close>

definition set_non_blocking :: "32 word \<Rightarrow> 32 word" where
  "set_non_blocking flags = flags OR O_NONBLOCK"

definition set_blocking :: "32 word \<Rightarrow> 32 word" where
  "set_blocking flags = flags AND NOT O_NONBLOCK"

lemma bit_O_NONBLOCK: "bit O_NONBLOCK n \<longleftrightarrow> n = 11"
proof -
  have flag: "O_NONBLOCK = 2 ^ 11" by (simp add: O_NONBLOCK_def)
  show ?thesis unfolding flag bit_exp_iff by auto
qed

lemma blocking_bits:
  "bit (set_non_blocking f) n \<longleftrightarrow> n = 11 \<or> bit f n"
  "bit (set_blocking f) n \<longleftrightarrow> n \<noteq> 11 \<and> bit f n"
  by (auto simp: set_non_blocking_def set_blocking_def bit_or_iff bit_and_iff bit_not_iff
      bit_O_NONBLOCK dest: bit_imp_le_length)

lemma blocking_restored: "\<not> bit f 11 \<Longrightarrow> set_blocking (set_non_blocking f) = f"
  by (rule bit_eqI) (auto simp: blocking_bits)

section \<open>The key reader\<close>

record reader =
  reader_tty :: tty
  catches :: bool
  exited :: "int option"

definition start_reader :: "termios \<Rightarrow> reader" where
  "start_reader t = \<lparr>reader_tty = open_tty t, catches = False, exited = None\<rparr>"

text \<open>
  The steps of \<open>main\<close>: the handlers of the signals are installed, then the modes are changed, then
  keys are read until one stops the reader or \<open>read\<close> fails, then the modes are put back.  A
  signal may come between any two of them; without a handler it ends the program at once.
\<close>

datatype reader_event =
    Install
  | Make_raw bool bool
  | Keys "string option list" bool
  | Signal bool

definition reset_and_exit :: "bool \<Rightarrow> int \<Rightarrow> int \<Rightarrow> reader \<Rightarrow> reader" where
  "reset_and_exit set_ok good bad r =
     (case ttyreset set_ok (reader_tty r) of
        (failed, t) \<Rightarrow> r\<lparr>reader_tty := t, exited := Some (if failed then bad else good)\<rparr>)"

definition reader_step :: "reader \<Rightarrow> reader_event \<Rightarrow> reader" where
  "reader_step r e =
     (if exited r \<noteq> None then r
      else (case e of
        Install \<Rightarrow> r\<lparr>catches := True\<rparr>
      | Make_raw got_ok set_ok \<Rightarrow>
          (case ttyraw reader_modes got_ok set_ok (reader_tty r) of
             (failed, t) \<Rightarrow> r\<lparr>reader_tty := t, exited := (if failed then Some 1 else None)\<rparr>)
      | Keys ds set_ok \<Rightarrow>
          (case read_keys ds of
             Inl fault \<Rightarrow> r\<lparr>exited := Some (- 1)\<rparr>
           | Inr ks \<Rightarrow>
               if Stop \<in> set ks \<or> None \<in> set ds then reset_and_exit set_ok 0 1 r else r)
      | Signal set_ok \<Rightarrow>
          if catches r then reset_and_exit set_ok 0 0 r else r\<lparr>exited := Some (- 1)\<rparr>))"

text \<open>The order of \<open>main\<close>, with the signals that come before and after.\<close>

definition reader_main ::
  "reader_event list \<Rightarrow> bool \<Rightarrow> bool \<Rightarrow> reader_event list \<Rightarrow> termios \<Rightarrow> reader" where
  "reader_main early got_ok set_ok late t =
     run_steps reader_step (start_reader t) (Install # early @ Make_raw got_ok set_ok # late)"

text \<open>The events behind the change of the modes, when the modes can be put back.\<close>

fun settled :: "reader_event \<Rightarrow> bool" where
  "settled (Keys ds set_ok) = set_ok"
| "settled (Signal set_ok) = set_ok"
| "settled _ = False"

definition reader_inv :: "termios \<Rightarrow> reader \<Rightarrow> bool" where
  "reader_inv t r \<longleftrightarrow> saved (reader_tty r) = t \<and> catches r
     \<and> modes (reader_tty r) = (if exited r = Some 0 then t else reader_modes t)
     \<and> exited r \<in> {None, Some 0, Some (- 1)}"

interpretation reader: event_machine reader_step "reader_inv t" "\<lambda>_. settled" for t
proof
  fix r e
  assume "reader_inv t r" "settled e"
  then show "reader_inv t (reader_step r e)"
    by (cases e) (auto simp: reader_inv_def reader_step_def reset_and_exit_def ttyreset_def split: sum.split)
qed

lemma admissible_settled: "list_all settled es \<Longrightarrow> admissible_run step (\<lambda>_. settled) s es"
  by (induction es arbitrary: s) auto

text \<open>
  The key reader leaves the terminal as it was, by a key that stops it, by a failing read and by a
  signal, and reads it raw until then; only a key that overruns its array leaves it raw.
\<close>

theorem reader_restores_modes:
  assumes "list_all settled late"
  shows "reader_inv t (reader_main [] True True late t)"
proof -
  let ?r = "run_steps reader_step (start_reader t) [Install, Make_raw True True]"
  have "reader_inv t ?r"
    by (simp add: reader_inv_def reader_step_def start_reader_def open_tty_def ttyraw_def)
  from reader.run_inv [OF this admissible_settled [OF assms]] show ?thesis
    by (simp add: reader_main_def)
qed

lemma reader_restores_modes_witness:
  "reader_inv zero_termios (reader_main [] True True [Keys [Some ''a''] True, Keys [Some [char_of (3::nat)]] True] zero_termios)"
  by (rule reader_restores_modes) simp

text \<open>
  The handlers are installed before the modes are saved: a signal in between writes the zeros of
  the static variable to the terminal.
\<close>

theorem early_signal_zeroes_modes:
  "modes (reader_tty (reader_main (Signal True # early) got_ok set_ok late t)) = zero_termios
   \<and> exited (reader_main (Signal True # early) got_ok set_ok late t) = Some 0"
proof -
  have stays: "exited r \<noteq> None \<Longrightarrow> run_steps reader_step r es = r" for r es
    by (induction es arbitrary: r) (auto simp: reader_step_def)
  let ?r = "run_steps reader_step (start_reader t) [Install, Signal True]"
  have "exited ?r = Some 0" "modes (reader_tty ?r) = zero_termios"
    by (simp_all add: reader_step_def start_reader_def open_tty_def reset_and_exit_def ttyreset_def)
  moreover from this have "run_steps reader_step ?r es = ?r" for es by (intro stays) simp
  then have "reader_main (Signal True # early) got_ok set_ok late t = ?r"
    unfolding reader_main_def by (metis append_Cons append_Nil run_steps_append)
  ultimately show ?thesis by simp
qed

section \<open>The client of the remote shell\<close>

text \<open>
  The terminal, the flags of standard input (which the shell that started the client shares with
  it), and the protocol of \<open>Comd\<close>.
\<close>

record com_process =
  com_tty :: tty
  stdin_flags :: "32 word"
  com_catches :: bool
  client :: com
  com_exited :: "int option"

datatype com_event =
    Com_connected bool
  | Com_data bool int string
  | Com_turn "string option" bool bool
  | Com_returns bool
  | Com_signal bool

text \<open>The start: without a connection to make the program ends, then the modes are changed.\<close>

definition start_com ::
  "ComdRoutine \<Rightarrow> bool \<Rightarrow> bool \<Rightarrow> bool \<Rightarrow> bool \<Rightarrow> termios \<Rightarrow> 32 word \<Rightarrow> com_process" where
  "start_com r connection_given got_ok set_ok reset_ok t flags =
     (let p = \<lparr>com_tty = open_tty t, stdin_flags = flags, com_catches = False, client = new_com r,
        com_exited = None\<rparr> in
      if \<not> connection_given then p\<lparr>com_exited := Some 1\<rparr>
      else if r = SHELL then
        (case ttyraw com_modes got_ok set_ok (com_tty p) of
           (True, y) \<Rightarrow> p\<lparr>com_tty := snd (ttyreset reset_ok y), com_exited := Some (- 1)\<rparr>
         | (False, y) \<Rightarrow> p\<lparr>com_tty := y\<rparr>)
      else p)"

text \<open>When the shell is entered, standard input stops blocking and signals are caught.\<close>

definition enter_shell :: "com \<Rightarrow> com_process \<Rightarrow> com_process" where
  "enter_shell before p =
     (if com_state before = SELECT_ROUTINE \<and> com_routine before = SHELL
      then p\<lparr>stdin_flags := set_non_blocking (stdin_flags p), com_catches := True\<rparr> else p)"

definition com_finish :: "bool \<Rightarrow> com_process \<Rightarrow> com_process" where
  "com_finish reset_ok p =
     p\<lparr>com_tty := (if com_routine (client p) = SHELL then snd (ttyreset reset_ok (com_tty p))
         else com_tty p), com_exited := Some 0\<rparr>"

text \<open>A turn of the loop that fails ends \<open>run\<close>, as does the end of the last connection.\<close>

definition com_step :: "com_process \<Rightarrow> com_event \<Rightarrow> com_process" where
  "com_step p e =
     (if com_exited p \<noteq> None then p
      else (case e of
        Com_connected ok \<Rightarrow> p\<lparr>client := snd (com_on_connect ok (client p))\<rparr>
      | Com_data ok fd d \<Rightarrow> enter_shell (client p) (p\<lparr>client := snd (com_on_read ok fd d (client p))\<rparr>)
      | Com_turn typed ok reset_ok \<Rightarrow>
          (case com_event_loop typed ok (client p) of
             Inl fault \<Rightarrow> p\<lparr>com_exited := Some (- 1)\<rparr>
           | Inr (ends, c) \<Rightarrow>
               if ends then com_finish reset_ok (p\<lparr>client := c\<rparr>) else p\<lparr>client := c\<rparr>)
      | Com_returns reset_ok \<Rightarrow> com_finish reset_ok p
      | Com_signal reset_ok \<Rightarrow>
          if com_catches p then p\<lparr>com_tty := snd (ttyreset reset_ok (com_tty p)), com_exited := Some 0\<rparr>
          else p\<lparr>com_exited := Some (- 1)\<rparr>))"

fun com_settled :: "com_event \<Rightarrow> bool" where
  "com_settled (Com_turn typed ok reset_ok) = reset_ok"
| "com_settled (Com_returns reset_ok) = reset_ok"
| "com_settled (Com_signal reset_ok) = reset_ok"
| "com_settled _ = True"

lemma com_keeps:
  "com_routine (snd (com_send ok d c)) = com_routine c"
  "com_state (snd (com_send ok d c)) = com_state c"
  "com_routine (snd (com_on_connect ok c)) = com_routine c"
  "com_state (snd (com_on_connect ok c)) = com_state c"
  "forwards_stdin (snd (com_on_connect ok c)) = forwards_stdin c"
  "com_routine (snd (com_on_read ok fd d c)) = com_routine c"
  "com_event_loop typed ok c = Inr (ends, c') \<Longrightarrow>
    com_routine c' = com_routine c \<and> com_state c' = com_state c \<and> forwards_stdin c' = forwards_stdin c"
  by (auto simp: com_send_def com_on_connect_def com_on_read_def com_event_loop_def Let_def
      split: ComdState.splits option.splits if_splits prod.splits)

lemma com_on_read_forwards:
  "forwards_stdin (snd (com_on_read ok fd d c)) \<longleftrightarrow>
    forwards_stdin c \<or> com_state c = SELECT_ROUTINE \<and> com_routine c = SHELL"
  by (auto simp: com_on_read_def com_send_def Let_def split: ComdState.splits prod.splits)

text \<open>
  While it runs as a shell the client keeps the modes it found; standard input blocks, and signals
  end the program without being caught, exactly until the shell is entered.
\<close>

definition com_inv :: "termios \<Rightarrow> 32 word \<Rightarrow> com_process \<Rightarrow> bool" where
  "com_inv t flags p \<longleftrightarrow> com_routine (client p) = SHELL \<and> saved (com_tty p) = t
     \<and> modes (com_tty p) = (if com_exited p = Some 0 then t else com_modes t)
     \<and> (com_catches p \<longleftrightarrow> forwards_stdin (client p))
     \<and> stdin_flags p = (if com_catches p then set_non_blocking flags else flags)
     \<and> com_exited p \<in> {None, Some 0, Some (- 1)}"

lemma set_non_blocking_twice [simp]: "set_non_blocking (set_non_blocking f) = set_non_blocking f"
  by (rule bit_eqI) (auto simp: blocking_bits)

interpretation com: event_machine com_step "com_inv t flags" "\<lambda>_. com_settled" for t flags
proof
  fix p e
  assume "com_inv t flags p" "com_settled e"
  then show "com_inv t flags (com_step p e)"
    by (cases e) (auto simp: com_inv_def com_step_def com_finish_def ttyreset_def enter_shell_def com_keeps
        com_on_read_forwards dest: com_keeps(7) split: sum.split)
qed

lemma admissible_com: "list_all com_settled es \<Longrightarrow> admissible_run step (\<lambda>_. com_settled) s es"
  by (induction es arbitrary: s) auto

lemma started_com: "com_inv t flags (start_com SHELL True True True reset_ok t flags)"
  by (simp add: com_inv_def start_com_def ttyraw_def open_tty_def new_com_def)




text \<open>
  Before the shell is entered nothing catches a signal, although the modes are changed: an
  interruption while the client connects leaves the terminal without line editing.
\<close>

theorem interrupted_com_leaves_modes:
  assumes "list_all com_settled es"
    "\<not> forwards_stdin (client (run_steps com_step (start_com SHELL True True True reset_ok t flags) es))"
    "com_exited (run_steps com_step (start_com SHELL True True True reset_ok t flags) es) = None"
  shows "modes (com_tty (run_steps com_step (start_com SHELL True True True reset_ok t flags)
    (es @ [Com_signal signal_ok]))) = com_modes t"
proof -
  let ?p = "run_steps com_step (start_com SHELL True True True reset_ok t flags) es"
  have "com_inv t flags ?p" by (rule com.run_inv [OF started_com admissible_com [OF assms(1)]])
  with assms(2,3) show ?thesis by (simp add: com_inv_def com_step_def)
qed

lemma interrupted_com_leaves_modes_witness:
  "modes (com_tty (run_steps com_step (start_com SHELL True True True True zero_termios 0)
    ([Com_connected True] @ [Com_signal True]))) = com_modes zero_termios"
  by (rule interrupted_com_leaves_modes)
    (simp_all add: com_step_def start_com_def ttyraw_def open_tty_def new_com_def com_on_connect_def com_send_def)

end
