(* ===== verification/Programs.thy ===== *)
theory Programs
  imports Args EventClient Containers JsonRoundtrip Util
begin

text \<open>
  What the programs under \<open>examples\<close> declare on the command line (\<open>Util::define_argument\<close> in their
  \<open>main\<close> functions), and the small programs that only exercise one class: the echo server, the
  event client, the client with a thread for each connection, and the tests of the queue and of
  JSON.
\<close>

section \<open>Declared arguments\<close>

fun declare_all ::
  "(ArgumentType \<times> string \<times> string \<times> string list) list \<Rightarrow> Argument list \<Rightarrow> Argument list" where
  "declare_all [] args = args"
| "declare_all ((t, n, v, as) # ds) args = declare_all ds (define_argument t n v as None False args)"

definition jph2_arguments :: "Argument list" where
  "jph2_arguments = declare_all
     [(ARG_STRING, ''hostname'', ''hostname'', [''-hn'']),
      (ARG_STRING, ''admin'', ''hostname'', [''-a'']),
      (ARG_STRING, ''public_directory'', ''public_directory'', [''-pd'']),
      (ARG_STRING, ''ssl_certificate'', ''ssl_certificate'', [''-crt'']),
      (ARG_STRING, ''ssl_private_key'', ''ssl_private_key'', [''-key'']),
      (ARG_INTEGER, ''http_port'', ''http_port'', [''-p'']),
      (ARG_INTEGER, ''https_port'', ''https_port'', [''-sp'']),
      (ARG_INTEGER, ''tanks_port'', ''tanks_port'', [''-tp'']),
      (ARG_INTEGER, ''cache_megabytes'', ''cache_megabytes'', [''-cm'']),
      (ARG_STRING, ''admin_email'', ''admin_email'', [''-ae'']),
      (ARG_STRING, ''sendgrid_key'', ''sendgrid_key'', [''-sk'']),
      (ARG_STRING, ''postgresql_connection'', ''connection_string'', [''-pcs''])] []"

definition bwackwat_arguments :: "Argument list" where
  "bwackwat_arguments = declare_all
     [(ARG_STRING, ''public_directory'', ''public_directory'', [''-pd'']),
      (ARG_STRING, ''ssl_certificate'', ''ssl_certificate'', [''-crt'']),
      (ARG_STRING, ''ssl_private_key'', ''ssl_private_key'', [''-key'']),
      (ARG_STRING, ''database_ip'', ''database_ip'', [''-dbip'']),
      (ARG_STRING, ''keyfile'', ''keyfile'', [''-k'']),
      (ARG_INTEGER, ''port'', ''port'', []),
      (ARG_BOOLEAN, ''http'', ''http'', []),
      (ARG_INTEGER, ''cache_megabytes'', ''cache_megabytes'', [''-cm''])] []"

definition provider_arguments :: "Argument list" where
  "provider_arguments = declare_all
     [(ARG_STRING, ''keyfile'', ''keyfile'', [''-k'']),
      (ARG_STRING, ''postgresql_connection'', ''connection_string'', [''-pcs'']),
      (ARG_STRING, ''admin'', ''admin'', [''-a''])] []"

definition api_arguments :: "Argument list" where
  "api_arguments = declare_all
     [(ARG_STRING, ''public_directory'', ''public_directory'', [''-pd'']),
      (ARG_STRING, ''ssl_certificate'', ''ssl_certificate'', [''-crt'']),
      (ARG_STRING, ''ssl_private_key'', ''ssl_private_key'', [''-key'']),
      (ARG_INTEGER, ''port'', ''port'', [''-p'']),
      (ARG_BOOLEAN, ''http'', ''http'', []),
      (ARG_INTEGER, ''cache_megabytes'', ''cache_megabytes'', [''-cm'']),
      (ARG_STRING, ''password'', ''password'', [''-pw'']),
      (ARG_STRING, ''services_file'', ''services_path'', [''-sf''])] []"

definition music_arguments :: "Argument list" where
  "music_arguments = declare_all
     [(ARG_STRING, ''public_directory'', ''public_directory'', [''-pd'']),
      (ARG_STRING, ''ssl_certificate'', ''ssl_certificate'', [''-crt'']),
      (ARG_STRING, ''ssl_private_key'', ''ssl_private_key'', [''-key'']),
      (ARG_INTEGER, ''port'', ''port'', [''-p'']),
      (ARG_BOOLEAN, ''http'', ''http'', []),
      (ARG_INTEGER, ''cache_megabytes'', ''cache_megabytes'', [''-cm'']),
      (ARG_STRING, ''password'', ''password'', [''-pw''])] []"

definition chat_arguments :: "Argument list" where
  "chat_arguments = declare_all
     [(ARG_STRING, ''ssl_certificate'', ''ssl_certificate'', [''-crt'']),
      (ARG_STRING, ''ssl_private_key'', ''ssl_private_key'', [''-key'']),
      (ARG_INTEGER, ''port'', ''port'', [''-p'']),
      (ARG_BOOLEAN, ''http'', ''http'', [])] []"

definition chat_client_arguments :: "Argument list" where
  "chat_client_arguments = declare_all
     [(ARG_INTEGER, ''port'', ''port'', [''-p'']),
      (ARG_STRING, ''hostname'', ''hostname'', [''-hn'']),
      (ARG_STRING, ''handle'', ''handle'', [])] []"

definition port_argument_only :: "Argument list" where
  "port_argument_only = declare_all [(ARG_INTEGER, ''port'', ''port'', [''-p''])] []"

definition echo_arguments :: "Argument list" where
  "echo_arguments = declare_all
     [(ARG_INTEGER, ''port'', ''port'', [''-p'']),
      (ARG_INTEGER, ''max_connections'', ''max_connections'', [''-c''])] []"

definition comd_arguments :: "Argument list" where
  "comd_arguments = declare_all
     [(ARG_INTEGER, ''port'', ''port'', [''-p'']),
      (ARG_STRING, ''keyfile'', ''keyfile'', [''-k''])] []"

definition redirecter_arguments :: "Argument list" where
  "redirecter_arguments = declare_all
     [(ARG_STRING, ''hostname'', ''hostname'', [''-hn'']),
      (ARG_INTEGER, ''port'', ''port'', [''-p''])] []"

definition ponal_client_arguments :: "Argument list" where
  "ponal_client_arguments = declare_all
     [(ARG_STRING, ''hostname'', ''hostname'', [''-hn'']),
      (ARG_INTEGER, ''port'', ''port'', [''-p''])] []"

definition tcp_client_arguments :: "Argument list" where
  "tcp_client_arguments = declare_all
     [(ARG_STRING, ''hostname'', ''hostname'', [''-hn'']),
      (ARG_INTEGER, ''port'', ''port'', [''-p'']),
      (ARG_INTEGER, ''connections'', ''connections'', [''-c'']),
      (ARG_INTEGER, ''requests'', ''requests'', [''-r''])] []"

text \<open>Two clients have a variable \<open>verbose\<close> of their own under the option of the library's.\<close>

definition event_client_arguments :: "Argument list" where
  "event_client_arguments = declare_all
     [(ARG_STRING, ''hostname'', ''hostname'', [''-hn'']),
      (ARG_INTEGER, ''port'', ''port'', [''-p'']),
      (ARG_INTEGER, ''connections'', ''connections'', [''-c'']),
      (ARG_INTEGER, ''requests'', ''requests'', [''-r'']),
      (ARG_BOOLEAN, ''verbose'', ''main.verbose'', [''-v''])] []"

definition poll_client_arguments :: "Argument list" where
  "poll_client_arguments = declare_all
     [(ARG_STRING, ''hostname'', ''hostname'', [''-hn'']),
      (ARG_INTEGER, ''port'', ''port'', [''-p'']),
      (ARG_INTEGER, ''connections'', ''connections'', [''-c'']),
      (ARG_INTEGER, ''requests'', ''requests'', [''-r'']),
      (ARG_BOOLEAN, ''verbose'', ''main.verbose'', [''-v''])] []"

text \<open>The client of the remote shell has callbacks; an enumeration is kept as its number.\<close>

definition com_arguments :: "Argument list" where
  "com_arguments =
     define_argument ARG_STRING ''recv-file'' ''file_path'' [''-rf'']
         (Some (\<lambda>st. st\<lparr>integers := (integers st)(''routine'' := 2)\<rparr>)) False
       (define_argument ARG_STRING ''send-file'' ''file_path'' [''-sf'']
           (Some (\<lambda>st. st\<lparr>integers := (integers st)(''routine'' := 1)\<rparr>)) False
         (declare_all [(ARG_INTEGER, ''port'', ''port'', [''-p'']),
             (ARG_STRING, ''keyfile'', ''keyfile'', [''-k''])]
           (define_argument ARG_STRING ''ip_address'' ''ip_address'' [''-ip'']
               (Some (\<lambda>st. st\<lparr>booleans := (booleans st)(''use_ip'' := True)\<rparr>)) False
             (declare_all [(ARG_STRING, ''hostname'', ''hostname'', [''-hn''])] []))))"

text \<open>Which connection it makes.\<close>

definition com_target :: "bool \<Rightarrow> string \<Rightarrow> string \<Rightarrow> int \<Rightarrow> connection option" where
  "com_target use_ip host ip p =
     (let p = nat (p mod 2 ^ 16) in
      if \<not> use_ip then Some (named_connection host p)
      else if ip \<noteq> [] then Some (ip_connection p ip)
      else None)"

text \<open>The programs whose options do not disturb each other.\<close>

definition programs :: "(string \<times> Argument list) list" where
  "programs =
     [(''bwackwat'', bwackwat_arguments), (''pgsql-provider'', provider_arguments),
      (''libjaypea-api'', api_arguments), (''music'', music_arguments), (''chat'', chat_arguments),
      (''chat-client'', chat_client_arguments), (''chat-server'', port_argument_only),
      (''ponal-server'', port_argument_only), (''tcp-poll-server'', port_argument_only),
      (''echo-server'', echo_arguments), (''comd'', comd_arguments),
      (''http-redirecter'', redirecter_arguments), (''ponal-client'', ponal_client_arguments),
      (''tcp-client'', tcp_client_arguments), (''read-stdin-tty'', [])]"

text \<open>\<open>apart\<close> of every argument, so that it can be computed.\<close>

definition undisturbed :: "Argument list \<Rightarrow> bool" where
  "undisturbed args \<longleftrightarrow>
     list_all (\<lambda>a. callback a = None) args \<and> distinct (map target args)
     \<and> list_all (\<lambda>(b, a). target b = target a \<or> c_str (''--'' @ arg_name b) \<notin> spelled_as a) (List.product args args)"

lemma undisturbed_apart:
  assumes "undisturbed (pre @ a # post)"
  shows "apart pre a post"
proof -
  let ?args = "pre @ a # post"
  have split: "(\<forall>b \<in> set ?args. callback b = None) \<and> distinct (map target ?args)
      \<and> (\<forall>p \<in> set ?args \<times> set ?args. case p of (b, a) \<Rightarrow>
        target b = target a \<or> c_str (''--'' @ arg_name b) \<notin> spelled_as a)"
    using assms unfolding undisturbed_def list_all_iff set_product .
  note all = split [THEN conjunct1] and d = split [THEN conjunct2, THEN conjunct1]
    and pairs = split [THEN conjunct2, THEN conjunct2]
  have pre: "target b = target a \<or> c_str (''--'' @ arg_name b) \<notin> spelled_as a" if "b \<in> set pre" for b
    using bspec [OF pairs, of "(b, a)"] that by simp
  from d have "target a \<notin> target ` set pre" "target a \<notin> target ` set post" by auto
  then have "\<forall>b \<in> set pre \<union> set post. target b \<noteq> target a" by (auto simp: image_iff)
  with all pre show ?thesis by (auto simp: apart_def)
qed

lemma programs_undisturbed: "list_all (\<lambda>(p, args). undisturbed (own_arguments args)) programs"
  by code_simp

text \<open>
  C13. The options of fifteen of the programs do what they say: whichever option of the program or of
  the library is looked at, if words of the command line set it, then its variable has the value of
  the last of them when \<open>main\<close> goes on, whatever the configuration file says.
\<close>

theorem options_of_programs:
  assumes "(p, args) \<in> set programs" "a \<in> set (own_arguments args)"
    "parse_arguments file argv args st = ret (Starts args' st')"
    "settings a argv [0..<length argv] \<noteq> []"
  shows "value_at (target a) st' = last (settings a argv [0..<length argv])"
proof -
  obtain pre post where a: "own_arguments args = pre @ a # post"
    using split_list [OF assms(2)] by blast
  have "undisturbed (own_arguments args)"
    using programs_undisturbed assms(1) by (auto simp: list_all_iff)
  then have "apart pre a post" by (simp add: a undisturbed_apart)
  from last_setting_wins [OF a this assms(3,4)] show ?thesis .
qed

lemma options_of_programs_witness:
  "\<exists>args' st'. parse_arguments (\<lambda>_. None) [''comd'', ''-p'', ''10000'', ''--port'', ''10001''] comd_arguments
      no_store = ret (Starts args' st') \<and> integers st' ''port'' = 10001"
proof -
  let ?argv = "[''comd'', ''-p'', ''10000'', ''--port'', ''10001'']"
  let ?a = "\<lparr>arg_name = ''port'', alts = [''-p''], callback = None, required = False,
    arg_set = False, arg_type = ARG_INTEGER, string_value = None, integer_value = Some ''port'',
    boolean_value = None\<rparr>"
  have "case parse_arguments (\<lambda>_. None) ?argv comd_arguments no_store of
      Some (Inr (Starts args' st')) \<Rightarrow> True | _ \<Rightarrow> False" by code_simp
  then obtain args' st' where s: "parse_arguments (\<lambda>_. None) ?argv comd_arguments no_store =
      ret (Starts args' st')"
    by (auto simp: ret_def split: option.splits sum.splits start.splits)
  have l: "settings ?a ?argv [0..<length ?argv] = [IntegerValue 10000, IntegerValue 10001]" by code_simp
  have "?a \<in> set (own_arguments comd_arguments)"
    by (simp add: own_arguments_def comd_arguments_def define_argument_def)
  from options_of_programs [OF _ this s, of "''comd''"] s l show ?thesis
    by (auto simp: programs_def target_def pointer_def)
qed

text \<open>
  In the event client and the client with \<open>poll\<close> the long spelling of \<open>verbose\<close> is taken by the
  program's own argument, and the library stays silent; the short one sets both.
\<close>

lemma verbose_is_shadowed:
  "\<exists>args'. parse_arguments (\<lambda>_. None) [''tcp-event-client'', ''--verbose''] event_client_arguments st =
     ret (Starts args' (st\<lparr>booleans := (booleans st)(''main.verbose'' := True)\<rparr>))"
  "\<exists>args'. parse_arguments (\<lambda>_. None) [''tcp-event-client'', ''-v''] event_client_arguments st =
     ret (Starts args' (st\<lparr>booleans := (booleans st)(''main.verbose'' := True, ''verbose'' := True)\<rparr>))"
  by (simp_all add: parse_arguments_def asks_help_def own_arguments_def event_client_arguments_def
      define_argument_def check_lambda_def c_str_def run_callback_def upt_rec write_boolean_def)

text \<open>The argument for the administrator of the web application writes the name of the host.\<close>

lemma admin_sets_hostname:
  "\<exists>args'. parse_arguments (\<lambda>_. None) [''jph2'', ''-hn'', ''jph2.net'', ''-a'', ''ann''] jph2_arguments st =
     ret (Starts args' (st\<lparr>strings := (strings st)(''hostname'' := ''ann'')\<rparr>))"
  by (simp add: parse_arguments_def asks_help_def own_arguments_def jph2_arguments_def
      define_argument_def check_lambda_def c_str_def run_callback_def upt_rec write_string_def)

section \<open>The echo server\<close>

text \<open>\<open>on_read\<close>, where \<open>write\<close> returns \<open>len\<close>.\<close>

definition echo_on_read :: "int \<Rightarrow> string \<Rightarrow> int \<Rightarrow> thread \<Rightarrow> int \<times> thread" where
  "echo_on_read fd packet len t =
     (case send_raw fd packet len t of (e, t') \<Rightarrow> (if e then - 1 else int (length packet), t'))"

text \<open>
  What is echoed is a first part of the packet, and the server goes on as if it were the whole of
  it: a write that is cut short loses the rest.
\<close>

lemma echo_is_a_prefix:
  "echo_on_read fd packet len t =
     (if len < 0 then (- 1, t)
      else (int (length packet), t\<lparr>write_counter := um_set fd (fst (um_index fd (write_counter t)) + 1)
          (write_counter t), calls := calls t @ [Wrote fd (take (nat len) packet)]\<rparr>))"
  by (simp add: echo_on_read_def send_raw_def Let_def)

section \<open>The event client of many requests\<close>

text \<open>
  \<open>examples/tcp-event-client.cpp\<close>: \<open>client_data\<close> is the table the callbacks share, \<open>exchanged\<close>
  records what happens on the descriptors, the latest first.
\<close>

datatype exchange = Opened int | Requested int

record requester =
  client_data :: "(int, int) umap"
  exchanged :: "exchange list"

definition new_requester :: requester where
  "new_requester = \<lparr>client_data = [], exchanged = []\<rparr>"

text \<open>\<open>on_connect\<close>, where \<open>write\<close> returns \<open>len\<close>; \<open>True\<close> closes the connection.\<close>

definition req_on_connect :: "int \<Rightarrow> int \<Rightarrow> requester \<Rightarrow> bool \<times> requester" where
  "req_on_connect fd len r =
     (let r = r\<lparr>exchanged := Opened fd # exchanged r\<rparr> in
      if len < 0 then (True, r)
      else (False, r\<lparr>client_data := um_set fd 1 (client_data r),
        exchanged := Requested fd # exchanged r\<rparr>))"

text \<open>The callback of \<open>run\<close>; both subscripts of \<open>client_data\<close> insert what is missing.\<close>

definition req_on_read :: "int \<Rightarrow> int \<Rightarrow> string \<Rightarrow> int \<Rightarrow> requester \<Rightarrow> int \<times> requester" where
  "req_on_read requests fd d len r =
     (case um_index fd (client_data r) of (n, m) \<Rightarrow>
        let r = r\<lparr>client_data := m\<rparr> in
        if requests \<le> n then (- 1, r)
        else if len < 0 then (- 1, r)
        else (int (length d), r\<lparr>client_data := um_set fd (n + 1) m,
          exchanged := Requested fd # exchanged r\<rparr>))"

datatype requester_event = Connected int int | Response int string int

definition req_step :: "int \<Rightarrow> requester \<Rightarrow> requester_event \<Rightarrow> requester" where
  "req_step requests r e =
     (case e of
        Connected fd len \<Rightarrow> snd (req_on_connect fd len r)
      | Response fd d len \<Rightarrow> snd (req_on_read requests fd d len r))"

text \<open>The requests on a descriptor since it was last opened.\<close>

definition requests_since :: "int \<Rightarrow> exchange list \<Rightarrow> nat" where
  "requests_since fd es = length (filter ((=) (Requested fd)) (takeWhile ((\<noteq>) (Opened fd)) es))"

lemma requests_since_simps [simp]:
  "requests_since fd [] = 0"
  "requests_since fd (Opened fd' # es) = (if fd' = fd then 0 else requests_since fd es)"
  "requests_since fd (Requested fd' # es) = (if fd' = fd then 1 else 0) + requests_since fd es"
  by (simp_all add: requests_since_def)

definition req_inv :: "int \<Rightarrow> requester \<Rightarrow> bool" where
  "req_inv requests r \<longleftrightarrow>
     (\<forall>fd. int (requests_since fd (exchanged r)) \<le> fst (um_index fd (client_data r))
       \<and> 0 \<le> fst (um_index fd (client_data r))
       \<and> fst (um_index fd (client_data r)) \<le> max 1 requests)"

lemma um_index_set: "fst (um_index fd (um_set fd' v m)) = (if fd = fd' then v else fst (um_index fd m))"
  by (simp add: um_index_def split: option.splits)

lemma um_index_again: "fst (um_index fd (snd (um_index fd' m))) = fst (um_index fd m)"
  by (simp add: um_index_def split: option.splits)

interpretation requester: event_machine "req_step requests" "req_inv requests" "\<lambda>_ _. True"
  for requests
proof
  fix r e
  assume inv: "req_inv requests r"
  show "req_inv requests (req_step requests r e)"
  proof (cases e)
    case (Connected fd len)
    with inv show ?thesis
      by (auto simp: req_inv_def req_step_def req_on_connect_def Let_def um_index_set)
  next
    case (Response fd d len)
    obtain n m where nm: "um_index fd (client_data r) = (n, m)" by (meson surj_pair)
    from inv have all: "\<forall>fd. int (requests_since fd (exchanged r)) \<le> fst (um_index fd (client_data r))
        \<and> 0 \<le> fst (um_index fd (client_data r)) \<and> fst (um_index fd (client_data r)) \<le> max 1 requests"
      by (simp add: req_inv_def)
    have m: "fst (um_index fd' m) = fst (um_index fd' (client_data r))" for fd'
      using um_index_again [of fd' fd "client_data r"] nm by simp
    from all [THEN spec, of fd] nm have "int (requests_since fd (exchanged r)) \<le> n" "0 \<le> n"
      "n \<le> max 1 requests" by simp_all
    with all show ?thesis
      by (auto simp: Response req_inv_def req_step_def req_on_read_def Let_def nm m um_index_set)
  qed
qed

text \<open>
  Whatever the servers answer and whichever descriptors the connections get, the event client
  makes no more than the requested number of requests on a connection, and at least one is allowed:
  the first one is made before the number is looked at.
\<close>

theorem requests_are_bounded:
  "int (requests_since fd (exchanged (run_steps (req_step requests) new_requester events)))
    \<le> max 1 requests"
proof -
  have "req_inv requests new_requester"
    by (simp add: req_inv_def new_requester_def um_index_def)
  from requester.run_inv_always [OF this] show ?thesis
    unfolding req_inv_def by (meson order_trans)
qed

section \<open>The client with threads\<close>

text \<open>
  \<open>handle_connection\<close> of \<open>examples/tcp-client.cpp\<close>: an exchange is what \<open>write\<close> and \<open>read\<close> return
  for it, the list has one for each of the \<open>requests\<close> rounds.  \<open>response\<close> has \<open>PACKET_LIMIT\<close> bytes,
  so the terminator of a full packet is written behind it.  What is recorded is what the thread
  prints, an answer only when it is verbose.
\<close>

datatype shown = Shown_response string | Shown_kicked | Shown_error string

fun handle_connection ::
  "bool \<Rightarrow> (nat \<Rightarrow> bool) \<Rightarrow> (int \<times> read_result) list \<Rightarrow> int \<Rightarrow> shown list prog" where
  "handle_connection linked attempts [] served = ret []"
| "handle_connection linked attempts ((written, r) # rounds) served =
     (case communicate linked attempts written r served of
        None \<Rightarrow> None
      | Some (Inl (RuntimeError what)) \<Rightarrow>
          bindP (handle_connection linked attempts rounds served) (\<lambda>out. ret (Shown_error what # out))
      | Some (Inl e) \<Rightarrow> fail e
      | Some (Inr (alive, d, served)) \<Rightarrow>
          if PACKET_LIMIT \<le> int (length d) then fail OutOfBounds
          else if \<not> alive then ret [Shown_kicked]
          else bindP (handle_connection linked attempts rounds served)
                 (\<lambda>out. ret (Shown_response d # out)))"

text \<open>What a linked client shows, while no packet fills the buffer.\<close>

fun shown_of :: "int \<times> read_result \<Rightarrow> shown" where
  "shown_of (written, r) =
     (if written < 0 then Shown_error ''SimpleTcpClient write''
      else case r of Read_data d \<Rightarrow> Shown_response d | Read_eof \<Rightarrow> Shown_kicked
         | _ \<Rightarrow> Shown_error ''SimpleTcpClient read'')"

fun upto_kick :: "shown list \<Rightarrow> shown list" where
  "upto_kick [] = []"
| "upto_kick (s # ss) = (if s = Shown_kicked then [s] else s # upto_kick ss)"

definition small_packet :: "int \<times> read_result \<Rightarrow> bool" where
  "small_packet round = (case snd round of Read_data d \<Rightarrow> int (length d) < PACKET_LIMIT | _ \<Rightarrow> True)"

lemma communicate_linked:
  "communicate True attempts written r n =
     (if written < 0 then fail (RuntimeError ''SimpleTcpClient write'')
      else case r of Read_data d \<Rightarrow> ret (True, d, n + 1) | Read_eof \<Rightarrow> ret (False, [], n + 1)
         | _ \<Rightarrow> fail (RuntimeError ''SimpleTcpClient read''))"
  by (simp add: communicate_def await_connection.simps)

lemma handle_connection_linked:
  "list_all small_packet rounds \<Longrightarrow>
    handle_connection True attempts rounds served = ret (upto_kick (map shown_of rounds))"
proof (induction True attempts rounds served rule: handle_connection.induct)
  case (2 attempts written r rounds served)
  show ?case
  proof (cases "written < 0")
    case True
    with 2 show ?thesis by (simp add: communicate_linked fail_def)
  next
    case False
    with 2 show ?thesis
      by (cases r) (simp_all add: communicate_linked fail_def ret_def small_packet_def PACKET_LIMIT_def)
  qed
qed simp

lemma handle_connection_unlinked:
  "rounds \<noteq> [] \<Longrightarrow> handle_connection False attempts rounds served = None"
  by (cases rounds) (auto simp: communicate_def await_connection_stuck)

text \<open>
  A connection that was made is used for the requests in turn until the server closes it, errors
  do not end it; a thread whose connection was not made at once never ends.
\<close>

lemma threads_of_the_client:
  "list_all small_packet rounds \<Longrightarrow>
    handle_connection linked attempts rounds 0 =
      (if linked \<or> rounds = [] then ret (upto_kick (map shown_of rounds)) else None)"
  by (cases linked) (auto simp: handle_connection_linked handle_connection_unlinked)

text \<open>
  The three constructors of \<open>SimpleTcpClient\<close>: whether \<open>connected\<close> is set, by what \<open>gethostbyname\<close>
  finds and what \<open>reconnect\<close> returns for an address.
\<close>

definition client_of_hostname :: "(string \<Rightarrow> nat option) \<Rightarrow> (nat \<Rightarrow> bool) \<Rightarrow> string \<Rightarrow> bool" where
  "client_of_hostname resolve_name reconnects host =
     (case resolve_name host of None \<Rightarrow> False | Some addr \<Rightarrow> reconnects addr)"

definition client_of_address :: "(nat \<Rightarrow> bool) \<Rightarrow> nat \<Rightarrow> bool" where
  "client_of_address reconnects addr = reconnects addr"

definition client_of_ip :: "(string \<Rightarrow> nat) \<Rightarrow> (nat \<Rightarrow> bool) \<Rightarrow> string \<Rightarrow> bool" where
  "client_of_ip inet_addr reconnects ip = reconnects (inet_addr ip)"

text \<open>
  \<open>main\<close>: a thread for each connection, the first argument of a thread is what \<open>reconnect\<close> returns
  for it; all are joined.
\<close>

fun join_threads :: "shown list prog list \<Rightarrow> shown list list prog" where
  "join_threads [] = ret []"
| "join_threads (t # ts) = bindP t (\<lambda>out. bindP (join_threads ts) (\<lambda>outs. ret (out # outs)))"

definition tcp_client_main ::
  "(string \<Rightarrow> nat option) \<Rightarrow> string \<Rightarrow> (bool \<times> (int \<times> read_result) list) list \<Rightarrow>
    (int \<times> shown list list) prog" where
  "tcp_client_main resolve_name host threads =
     (case resolve_name host of
        None \<Rightarrow> ret (1, [])
      | Some addr \<Rightarrow>
          bindP (join_threads (map (\<lambda>(links, rounds).
              handle_connection (client_of_address (\<lambda>_. links) addr) (\<lambda>_. links) rounds 0) threads))
            (\<lambda>outs. ret (0, outs)))"

lemma join_linked:
  "list_all (\<lambda>(links, rounds). links \<and> list_all small_packet rounds) threads \<Longrightarrow>
    join_threads (map (\<lambda>(links, rounds). handle_connection links (\<lambda>_. links) rounds 0) threads)
      = ret (map (\<lambda>(links, rounds). upto_kick (map shown_of rounds)) threads)"
proof (induction threads)
  case (Cons t ts)
  then show ?case by (cases t) (simp add: handle_connection_linked)
qed simp

lemma join_unlinked:
  "(False, rounds) \<in> set threads \<Longrightarrow> rounds \<noteq> [] \<Longrightarrow>
    list_all (\<lambda>(links, rounds). list_all small_packet rounds) threads \<Longrightarrow>
    join_threads (map (\<lambda>(links, rounds). handle_connection links (\<lambda>_. links) rounds 0) threads) = None"
proof (induction threads)
  case (Cons t ts)
  obtain l r where t: "t = (l, r)" by (cases t)
  show ?case
  proof (cases "l \<or> r = []")
    case True
    with Cons t have "(False, rounds) \<in> set ts" by auto
    with Cons True t show ?thesis
      by (cases l) (simp_all add: handle_connection_linked bindP_def ret_def)
  next
    case False
    with t show ?thesis by (simp add: handle_connection_unlinked bindP_def)
  qed
qed simp

text \<open>
  The client with threads ends exactly when each connection was made at once: then every thread
  shows what its server answered, up to a close of the connection; one connection that was not
  there at the first attempt keeps the whole program from ending.
\<close>

theorem tcp_client_ends_iff_linked:
  assumes "resolve_name host = Some addr" "list_all (\<lambda>(links, rounds). rounds \<noteq> []) threads"
    "list_all (\<lambda>(links, rounds). list_all small_packet rounds) threads"
  shows "tcp_client_main resolve_name host threads =
    (if list_all fst threads then ret (0, map (\<lambda>(links, rounds). upto_kick (map shown_of rounds)) threads)
     else None)"
proof (cases "list_all fst threads")
  case True
  with assms(3) have "list_all (\<lambda>(links, rounds). links \<and> list_all small_packet rounds) threads"
    by (auto simp: list_all_iff)
  with True assms(1) show ?thesis by (simp add: tcp_client_main_def client_of_address_def join_linked)
next
  case False
  then obtain rounds where r: "(False, rounds) \<in> set threads" by (auto simp: list_all_iff)
  with assms(2) have "rounds \<noteq> []" by (auto simp: list_all_iff)
  from join_unlinked [OF r this assms(3)] False assms(1) show ?thesis
    by (simp add: tcp_client_main_def client_of_address_def bindP_def)
qed

lemma tcp_client_ends_iff_linked_witness:
  "tcp_client_main (\<lambda>_. Some 1) ''host'' [(True, [(1, Read_data ''ok''), (1, Read_eof), (1, Read_eof)])]
    = ret (0, [[Shown_response ''ok'', Shown_kicked]])"
  "tcp_client_main (\<lambda>_. Some 1) ''host'' [(True, [(1, Read_eof)]), (False, [(1, Read_eof)])] = None"
  using tcp_client_ends_iff_linked [of "\<lambda>_. Some 1" "''host''" 1
      "[(True, [(1, Read_data ''ok''), (1, Read_eof), (1, Read_eof)])]"]
    tcp_client_ends_iff_linked [of "\<lambda>_. Some 1" "''host''" 1 "[(True, [(1, Read_eof)]), (False, [(1, Read_eof)])]"]
  by (simp_all add: small_packet_def PACKET_LIMIT_def)

lemma full_packet_overruns_response:
  "int (length d) = PACKET_LIMIT \<Longrightarrow>
    handle_connection True attempts [(1, Read_data d)] 0 = fail OutOfBounds"
  by (simp add: communicate_linked ret_def)

section \<open>The tests\<close>

text \<open>\<open>operator<<\<close> of a queue of numbers, and the program \<open>examples/queue-test.cpp\<close>.\<close>

definition show_queue :: "nat queue \<Rightarrow> string prog" where
  "show_queue q =
     bindP (walk (q_heap q) (q_head q)) (\<lambda>xs.
       ret (''('' @ to_string (unat (q_size q)) @ '') '' @ concat (map (\<lambda>x. to_string x @ '', '') xs)))"

datatype queue_command = Enqueue nat | Dequeue_print | Print_queue

fun run_queue :: "queue_command list \<Rightarrow> nat queue \<Rightarrow> string list prog" where
  "run_queue [] q = ret []"
| "run_queue (Enqueue x # cs) q = bindP (lift_res (enqueue x q)) (run_queue cs)"
| "run_queue (Dequeue_print # cs) q =
     bindP (lift_res (dequeue q)) (\<lambda>(x, q). bindP (run_queue cs q) (\<lambda>out. ret (to_string x # out)))"
| "run_queue (Print_queue # cs) q =
     bindP (show_queue q) (\<lambda>s. bindP (run_queue cs q) (\<lambda>out. ret (s # out)))"

definition queue_test :: "string list prog" where
  "queue_test = run_queue
     [Print_queue, Enqueue 11, Enqueue 12, Enqueue 13, Print_queue, Enqueue 100, Dequeue_print,
      Print_queue, Dequeue_print, Print_queue, Dequeue_print, Print_queue, Dequeue_print,
      Print_queue, Enqueue 10000, Print_queue, Dequeue_print, Print_queue] new_queue"

lemma queue_test_prints:
  "queue_test = ret [''(0) '', ''(3) 13, 12, 11, '', ''11'', ''(3) 100, 13, 12, '', ''12'',
     ''(2) 100, 13, '', ''13'', ''(1) 100, '', ''100'', ''(0) '', ''(1) 10000, '', ''10000'', ''(0) '']"
  by (simp add: queue_test_def show_queue_def new_queue_def empty_heap_def enqueue_def dequeue_def
      alloc_def load_def store_def free_def walk.simps to_string.simps) code_simp

text \<open>
  \<open>test\<close> of \<open>examples/json-test.cpp\<close>: the verdict, and the two texts.  The texts are compared with
  the default count, \<open>- 1\<close>.
\<close>

datatype verdict = Failure | Failure_length | Success

definition json_test :: "string \<Rightarrow> (verdict \<times> string \<times> string) prog" where
  "json_test str =
     bindP (parse_into new_empty (c_str str)) (\<lambda>object.
       let objectString = stringify False 0 object in
       bindP (parse_into new_empty (c_str objectString)) (\<lambda>verify.
         let verifyString = stringify False 0 verify in
         bindP (lift_res (strict_compare_inequal (c_str objectString) (c_str verifyString) (- 1))) (\<lambda>d.
           ret (if d then Failure
                else if length objectString \<noteq> length verifyString then Failure_length
                else Success, objectString, verifyString))))"

text \<open>The comparison never sees a difference: only the lengths decide.\<close>

lemma json_test_compares_lengths:
  "json_test str = ret (v, a, b) \<Longrightarrow> v = (if length a \<noteq> length b then Failure_length else Success)"
  by (auto simp: json_test_def bindP_eq_ret Let_def strict_compare_inequal_def)

text \<open>What the library prints passes the test.\<close>

lemma json_test_of_printed:
  assumes "canonical v"
  shows "json_test (stringify pretty depth v) = ret (Success, stringify False 0 v, stringify False 0 v)"
proof -
  have n: "c_str (stringify p d v) = stringify p d v" for p d
    using stringify_no_NUL canonical_reread(1) [OF assms] by (simp add: c_str_id)
  show ?thesis
    by (simp add: json_test_def n parse_stringify_canonical [OF assms] Let_def
        strict_compare_inequal_def)
qed

end
