(* ===== verification/Setup.thy ===== *)
theory Setup
  imports Args Symmetric EpollServer Terminal Util
begin

text \<open>
  What the programs do around their loops: files, commands and the text of \<open>--help\<close>
  (\<open>cpp-source/util.cpp\<close>), the key file (\<open>examples/keyfile-gen.cpp\<close> and the constructor of
  \<open>SymmetricEncryptor\<close>), and the constructors of \<open>EpollServer\<close> and \<open>TlsEpollServer\<close>.  Results of
  system calls are arguments; Crypto++'s hexadecimal encoder and argon2 are parameters.
\<close>

section \<open>Files and commands\<close>

text \<open>A file system by its contents; \<open>writable\<close> tells whether a file can be opened for writing.\<close>

type_synonym files = "string \<Rightarrow> string option"

definition write_file :: "(string \<Rightarrow> bool) \<Rightarrow> string \<Rightarrow> string \<Rightarrow> files \<Rightarrow> files res" where
  "write_file writable filename content fs =
     (if \<not> writable filename then Inl (RuntimeError (''Could not write '' @ filename))
      else Inr (fs(filename \<mapsto> content)))"

definition is_space :: "char \<Rightarrow> bool" where
  "is_space c = (c = CHR '' '' \<or> 9 \<le> uchar c \<and> uchar c \<le> 13)"

text \<open>\<open>file >> data\<close> reads one word.\<close>

definition read_file :: "string \<Rightarrow> files \<Rightarrow> string res" where
  "read_file filename fs =
     (case fs filename of
        None \<Rightarrow> Inl (RuntimeError (''Could not read '' @ filename))
      | Some content \<Rightarrow>
          Inr (takeWhile (\<lambda>c. \<not> is_space c) (dropWhile is_space content)))"

lemma word_of_id: "takeWhile (\<lambda>c. \<not> P c) (dropWhile P s) = s \<longleftrightarrow> (\<forall>c \<in> set s. \<not> P c)"
proof
  assume "takeWhile (\<lambda>c. \<not> P c) (dropWhile P s) = s"
  then show "\<forall>c \<in> set s. \<not> P c" by (metis set_takeWhileD)
next
  assume "\<forall>c \<in> set s. \<not> P c"
  then have "dropWhile P s = s" "takeWhile (\<lambda>c. \<not> P c) s = s"
    by (cases s, simp_all add: takeWhile_eq_all_conv)
  then show "takeWhile (\<lambda>c. \<not> P c) (dropWhile P s) = s" by simp
qed

text \<open>A file is read back as it was written exactly when it has no white space in it.\<close>

lemma file_read_back:
  "write_file writable f content fs = Inr fs' \<Longrightarrow>
    read_file f fs' = Inr content \<longleftrightarrow> (\<forall>c \<in> set content. \<not> is_space c)"
  by (auto simp: write_file_def read_file_def word_of_id split: if_splits)

text \<open>
  \<open>fgets(buffer, 128, pipe)\<close> on what the pipe still holds: up to 127 characters, a line break
  included, what is left, and no result at the end.
\<close>

definition fgets :: "nat \<Rightarrow> string \<Rightarrow> (string \<times> string) option" where
  "fgets n s =
     (if s = [] then None
      else (let line = take n s; body = takeWhile (\<lambda>c. c \<noteq> LF) line;
                k = (if length body < length line then length body + 1 else length body)
            in Some (take k s, drop k s)))"

text \<open>The loop; \<open>result += buffer.data()\<close> stops at a terminator within the piece.\<close>

function read_pipe :: "string \<Rightarrow> string \<Rightarrow> string" where
  "read_pipe output result =
     (case fgets 127 output of
        None \<Rightarrow> result
      | Some (piece, rest) \<Rightarrow> read_pipe rest (result @ c_str piece))"
  by pat_completeness auto

lemma fgets_Some:
  assumes "fgets n s = Some (piece, rest)" "0 < n"
  shows "piece @ rest = s" "length rest < length s"
  using assms by (cases s; cases n; auto simp: fgets_def Let_def split: if_splits)+

termination read_pipe
  by (relation "measure (length \<circ> fst)") (auto dest: fgets_Some)

definition exec_and_wait :: "(string \<Rightarrow> string option) \<Rightarrow> string \<Rightarrow> string res" where
  "exec_and_wait popen cmd =
     (case popen cmd of
        None \<Rightarrow> Inl (RuntimeError ''popen() failed!'')
      | Some output \<Rightarrow> Inr (read_pipe output []))"

declare read_pipe.simps [simp del]

lemma read_pipe_step: "fgets 127 s = Some (piece, rest) \<Longrightarrow> read_pipe s r = read_pipe rest (r @ c_str piece)"
  by (simp only: read_pipe.simps [of s r] option.case prod.case)

lemma read_pipe_end: "read_pipe [] r = r"
  by (simp add: read_pipe.simps [of "[]"] fgets_def)

lemma read_pipe_text: "NUL \<notin> set s \<Longrightarrow> read_pipe s r = r @ s"
proof (induction "length s" arbitrary: s r rule: less_induct)
  case less
  show ?case
  proof (cases "fgets 127 s")
    case None
    then have "s = []" by (simp add: fgets_def Let_def split: if_splits)
    then show ?thesis by (simp add: read_pipe_end)
  next
    case (Some p)
    then obtain piece rest where p: "fgets 127 s = Some (piece, rest)" by (cases p) simp
    then have s: "s = piece @ rest" and l: "length rest < length s" using fgets_Some by force+
    from less.prems s have "NUL \<notin> set rest" "c_str piece = piece" by (simp_all add: c_str_id)
    with less.hyps [OF l, of "r @ c_str piece"] s read_pipe_step [OF p, of r] show ?thesis by simp
  qed
qed

text \<open>What a command prints as text is returned whole, in whatever lines.\<close>

lemma exec_returns_output:
  "popen cmd = Some output \<Longrightarrow> NUL \<notin> set output \<Longrightarrow> exec_and_wait popen cmd = Inr output"
  by (simp add: exec_and_wait_def read_pipe_text)

section \<open>Where the program is\<close>

text \<open>\<open>readlink\<close> gives at most 128 characters of the link, or fails.\<close>

definition get_exe_path :: "string option \<Rightarrow> string" where
  "get_exe_path link = (case link of None \<Rightarrow> [] | Some s \<Rightarrow> take 128 s)"

text \<open>\<open>s.substr(0, s.find_last_of('/'))\<close>: without a slash it is all of \<open>s\<close>.\<close>

definition parent :: "string \<Rightarrow> string" where
  "parent s =
     (if CHR ''/'' \<in> set s then rev (tl (dropWhile (\<lambda>c. c \<noteq> CHR ''/'') (rev s))) else s)"

definition libjaypea_path :: "string option \<Rightarrow> string" where
  "libjaypea_path link = parent (parent (get_exe_path link)) @ ''/''"

lemma parent_of: "CHR ''/'' \<notin> set name \<Longrightarrow> parent (dir @ ''/'' @ name) = dir"
  by (simp add: parent_def dropWhile_append)

text \<open>The directory above the one of the program is found when its path has at most 128 characters.\<close>

lemma libjaypea_path_found:
  assumes "CHR ''/'' \<notin> set bin" "CHR ''/'' \<notin> set name"
    "length (dir @ ''/'' @ bin @ ''/'' @ name) \<le> 128"
  shows "libjaypea_path (Some (dir @ ''/'' @ bin @ ''/'' @ name)) = dir @ ''/''"
proof -
  have "get_exe_path (Some (dir @ ''/'' @ bin @ ''/'' @ name)) = (dir @ ''/'' @ bin) @ ''/'' @ name"
    using assms(3) by (simp add: get_exe_path_def)
  then show ?thesis
    using parent_of [OF assms(2), of "dir @ ''/'' @ bin"] parent_of [OF assms(1), of dir]
    by (simp add: libjaypea_path_def)
qed

section \<open>The text of the help\<close>

definition show_int :: "int \<Rightarrow> string" where
  "show_int n = (if n < 0 then ''-'' @ to_string (nat (- n)) else to_string (nat n))"

definition usage_of :: "store \<Rightarrow> Argument \<Rightarrow> string list res" where
  "usage_of st arg =
     (let head = (if required arg then [''     REQUIRED''] else []) in
      case arg_type arg of
        ARG_STRING \<Rightarrow>
          (case string_value arg of
             None \<Rightarrow> Inl NullDeref
           | Some v \<Rightarrow> Inr (head
              @ [''     --'' @ arg_name arg @ '' <string>''] @ map (\<lambda>alt. ''  OR '' @ alt @ '' <string>'') (alts arg)
              @ [''     (Default value: '' @ strings st v @ '')'' @ [LF]]))
      | ARG_INTEGER \<Rightarrow>
          (case integer_value arg of
             None \<Rightarrow> Inl NullDeref
           | Some v \<Rightarrow> Inr (head
              @ [''     --'' @ arg_name arg @ '' <integer>''] @ map (\<lambda>alt. ''  OR '' @ alt @ '' <integer>'') (alts arg)
              @ [''     (Default value: '' @ show_int (integers st v) @ '')'' @ [LF]]))
      | ARG_BOOLEAN \<Rightarrow>
          Inr (head @ [''     --'' @ arg_name arg] @ map (\<lambda>alt. ''  OR '' @ alt) (alts arg)
            @ [''     (Disabled by default.)'' @ [LF]]))"

fun usage_of_all :: "store \<Rightarrow> Argument list \<Rightarrow> string list res" where
  "usage_of_all st [] = Inr []"
| "usage_of_all st (arg # args) =
     bindR (usage_of st arg) (\<lambda>ls. bindR (usage_of_all st args) (\<lambda>rest. Inr (ls @ rest)))"

text \<open>The lines that are printed before the program exits.\<close>

definition usage :: "string list \<Rightarrow> Argument list \<Rightarrow> store \<Rightarrow> string \<Rightarrow> string list res option" where
  "usage argv args st description =
     (if asks_help argv
      then Some (bindR (usage_of_all st (own_arguments args)) (\<lambda>ls.
        Inr ([''Usage: '' @ argv ! 0, ''     --help'', ''  OR -h'' @ [LF]] @ ls @ [description])))
      else None)"

definition value_hint :: "ArgumentType \<Rightarrow> string" where
  "value_hint t = (case t of ARG_STRING \<Rightarrow> '' <string>'' | ARG_INTEGER \<Rightarrow> '' <integer>'' | ARG_BOOLEAN \<Rightarrow> [])"

text \<open>The help names every spelling of every option, with the kind of value it takes.\<close>

lemma usage_of_all_lines:
  "usage_of_all st args = Inr ls \<Longrightarrow> a \<in> set args \<Longrightarrow>
    \<exists>own. usage_of st a = Inr own \<and> set own \<subseteq> set ls"
  by (induction args arbitrary: ls) (fastforce simp: bindR_eq_Inr)+

lemma usage_names_every_option:
  assumes "usage argv args st d = Some (Inr lines)" "a \<in> set (own_arguments args)"
  shows "''     --'' @ arg_name a @ value_hint (arg_type a) \<in> set lines"
    and "alt \<in> set (alts a) \<Longrightarrow> ''  OR '' @ alt @ value_hint (arg_type a) \<in> set lines"
proof -
  obtain own where own: "usage_of st a = Inr own" "set own \<subseteq> set lines"
    using assms usage_of_all_lines [OF _ assms(2)]
    by (fastforce simp: usage_def bindR_eq_Inr split: if_splits)
  have "''     --'' @ arg_name a @ value_hint (arg_type a) \<in> set own"
    using own(1) by (auto simp: usage_of_def value_hint_def Let_def split: ArgumentType.splits option.splits)
  with own(2) show "''     --'' @ arg_name a @ value_hint (arg_type a) \<in> set lines" by blast
  have "alt \<in> set (alts a) \<Longrightarrow> ''  OR '' @ alt @ value_hint (arg_type a) \<in> set own"
    using own(1) by (auto simp: usage_of_def value_hint_def Let_def split: ArgumentType.splits option.splits)
  with own(2) show "alt \<in> set (alts a) \<Longrightarrow> ''  OR '' @ alt @ value_hint (arg_type a) \<in> set lines" by blast
qed

section \<open>The bits of a packet\<close>

definition show_bits :: "char \<Rightarrow> string" where
  "show_bits c = map (\<lambda>i. if odd (uchar c div 2 ^ (7 - i)) then CHR ''1'' else CHR ''0'') [0..<8]"

text \<open>Four bytes to a line.\<close>

definition print_bits :: "string \<Rightarrow> string" where
  "print_bits d =
     concat (map (\<lambda>i. show_bits (d ! i) @ '' '' @ (if i mod 4 = 3 then [LF] else [])) [0..<length d]) @ [LF]"

lemma print_bits_example: "print_bits ''a!'' = ''01100001 00100001 '' @ [LF]"
  by code_simp

section \<open>Hashes of passwords\<close>

text \<open>
  \<open>argon2_hash\<close> by the cost in time and memory, the threads, the password and the salt: an error
  code, or the encoded hash.
\<close>

type_synonym argon2 = "nat \<Rightarrow> nat \<Rightarrow> nat \<Rightarrow> string \<Rightarrow> string \<Rightarrow> int + string"

definition hash_value_argon2d :: "argon2 \<Rightarrow> string \<Rightarrow> string" where
  "hash_value_argon2d argon2_hash password =
     (case argon2_hash 5 (2 ^ 16) 1 password ''itmyepicsalt!@12'' of
        Inl code \<Rightarrow> []
      | Inr encoded \<Rightarrow> c_str encoded)"

text \<open>
  An error gives the empty hash, whatever the password: then all passwords that fail have the
  same one.
\<close>

lemma failed_hashes_agree:
  "argon2_hash 5 (2 ^ 16) 1 p ''itmyepicsalt!@12'' = Inl e \<Longrightarrow>
    argon2_hash 5 (2 ^ 16) 1 q ''itmyepicsalt!@12'' = Inl e' \<Longrightarrow>
    hash_value_argon2d argon2_hash p = hash_value_argon2d argon2_hash q"
  by (simp add: hash_value_argon2d_def)

section \<open>The key file\<close>

definition MAX_KEYLENGTH :: nat where "MAX_KEYLENGTH = 32"
definition BLOCKSIZE :: nat where "BLOCKSIZE = 16"

text \<open>\<open>keyfile-gen\<close>: what it writes for the random key and initial vector.\<close>

definition keyfile_gen :: "(string \<Rightarrow> string) \<Rightarrow> string \<Rightarrow> string \<Rightarrow> string" where
  "keyfile_gen hex key iv = hex (key @ iv)"

record key_material =
  aes_key :: string
  aes_iv :: string
  mac_key :: string

text \<open>An \<open>ArraySink\<close> of \<open>n\<close> bytes over \<open>garbage\<close>: what does not arrive stays as it was.\<close>

definition array_sink :: "string \<Rightarrow> nat \<Rightarrow> string \<Rightarrow> string" where
  "array_sink garbage n d = take n d @ drop (length d) (take n garbage)"

text \<open>
  The constructor of \<open>SymmetricEncryptor\<close>: \<open>random\<close> is the block of the given number that the pool
  generates, \<open>unhex\<close> the decoder, \<open>close_ok\<close> the answer of \<open>close\<close>.
\<close>

definition load_keys ::
  "(nat \<Rightarrow> string) \<Rightarrow> (string \<Rightarrow> string) \<Rightarrow> string \<Rightarrow> bool \<Rightarrow> files \<Rightarrow> string \<Rightarrow> key_material res" where
  "load_keys random unhex garbage close_ok fs keyfile =
     (if keyfile = []
      then Inr \<lparr>aes_key = random 0, aes_iv = random 1, mac_key = random 2\<rparr>
      else case fs (c_str keyfile) of
        None \<Rightarrow> Inl (RuntimeError ''SymmetricEncryptor open keyfile'')
      | Some content \<Rightarrow>
          (let hex_key_length = (MAX_KEYLENGTH + BLOCKSIZE) * 2;
               hex_key = take hex_key_length content in
           if length hex_key < hex_key_length
           then Inl (RuntimeError ''SymmetricEncryptor read keyfile'')
           else if \<not> close_ok then Inl (RuntimeError ''SymmetricEncryptor close keyfile'')
           else (let key = array_sink (take MAX_KEYLENGTH garbage) MAX_KEYLENGTH
                       (unhex (take (MAX_KEYLENGTH * 2) hex_key));
                     iv = array_sink (drop MAX_KEYLENGTH garbage) BLOCKSIZE
                       (unhex (take (BLOCKSIZE * 2) (drop (MAX_KEYLENGTH * 2) hex_key)))
                 in Inr \<lparr>aes_key = key, aes_iv = iv, mac_key = key\<rparr>)))"

text \<open>What is assumed of the hexadecimal encoder and its decoder.\<close>

definition hex_ok :: "(string \<Rightarrow> string) \<Rightarrow> (string \<Rightarrow> string) \<Rightarrow> bool" where
  "hex_ok hex unhex \<longleftrightarrow>
     (\<forall>x. unhex (hex x) = x \<and> length (hex x) = 2 * length x) \<and> (\<forall>x y. hex (x @ y) = hex x @ hex y)"

lemma load_generated:
  assumes "hex_ok hex unhex" "length key = MAX_KEYLENGTH" "length iv = BLOCKSIZE" "keyfile \<noteq> []"
    "fs (c_str keyfile) = Some (keyfile_gen hex key iv)" "close_ok"
  shows "load_keys random unhex garbage close_ok fs keyfile =
    Inr \<lparr>aes_key = key, aes_iv = iv, mac_key = key\<rparr>"
  using assms by (simp add: load_keys_def keyfile_gen_def hex_ok_def array_sink_def
      MAX_KEYLENGTH_def BLOCKSIZE_def Let_def)

text \<open>
  Two programs that read one generated key file open what the other has sealed, whatever their
  memory held and their random numbers are; \<open>cipher\<close> makes the functions of the library from keys.
\<close>

theorem key_file_is_shared:
  assumes "hex_ok hex unhex" "length key = MAX_KEYLENGTH" "length iv = BLOCKSIZE" "keyfile \<noteq> []"
    "fs (c_str keyfile) = Some (keyfile_gen hex key iv)" "\<And>k. crypto_ok (cipher k)"
  shows "\<exists>k1 k2. load_keys random1 unhex garbage1 True fs keyfile = Inr k1
    \<and> load_keys random2 unhex garbage2 True fs keyfile = Inr k2
    \<and> decrypt (cipher k2) (encrypt (cipher k1) d) = Inr d"
  using load_generated [of hex unhex key iv keyfile fs True] assms by (simp add: decrypt_encrypt)

text \<open>Hexadecimal digits as the encoder writes them.\<close>

definition sample_hex :: "string \<Rightarrow> string" where
  "sample_hex s = concat (map (\<lambda>c. [hex_digit (uchar c div 16), hex_digit (uchar c mod 16)]) s)"

fun sample_unhex :: "string \<Rightarrow> string" where
  "sample_unhex (a # b # s) = char_of (16 * hex_value a + hex_value b) # sample_unhex s"
| "sample_unhex s = []"

lemma hex_value_digit: "n < 16 \<Longrightarrow> hex_value (hex_digit n) = n"
  by (auto simp: hex_value_def hex_digit_def is_digit_def uchar_char_of)

lemma sample_hex_ok: "hex_ok sample_hex sample_unhex"
proof -
  have "sample_unhex (sample_hex s) = s \<and> length (sample_hex s) = 2 * length s" for s
  proof (induction s)
    case (Cons c s)
    have "uchar c div 16 < 16" using uchar_lt [of c] by simp
    with Cons show ?case by (simp add: sample_hex_def hex_value_digit)
  qed (simp add: sample_hex_def)
  then show ?thesis by (simp add: hex_ok_def sample_hex_def)
qed

lemma key_file_is_shared_witness:
  "\<exists>k1 k2. load_keys (\<lambda>_. []) sample_unhex [] True
       [''keyfile'' \<mapsto> keyfile_gen sample_hex (replicate 32 (CHR ''k'')) (replicate 16 (CHR ''i''))] ''keyfile'' = Inr k1
    \<and> load_keys (\<lambda>n. ''r'') sample_unhex ''x'' True
       [''keyfile'' \<mapsto> keyfile_gen sample_hex (replicate 32 (CHR ''k'')) (replicate 16 (CHR ''i''))] ''keyfile'' = Inr k2
    \<and> decrypt sample_crypto (encrypt sample_crypto ''hi'') = Inr ''hi''"
  by (rule key_file_is_shared [where cipher = "\<lambda>_. sample_crypto", OF sample_hex_ok])
    (simp_all add: MAX_KEYLENGTH_def BLOCKSIZE_def sample_crypto_ok c_str_def)

section \<open>The constructors of the servers\<close>

record listener =
  l_name :: string
  l_port :: "16 word"
  l_max_connections :: "64 word"
  l_timeout :: int
  l_running :: bool
  l_server_fd :: int
  l_pipe :: "int \<times> int"
  l_flags :: "32 word"

text \<open>What its system calls give: \<open>socket\<close>, the flags of it, \<open>pipe2\<close>, and whether the rest succeed.\<close>

record setup_results =
  sr_socket :: int
  sr_flags :: "32 word"
  sr_pipe :: "(int \<times> int) option"
  sr_option :: bool
  sr_bind :: bool
  sr_listen :: bool

text \<open>The constructor: the server or an exception, and the descriptors it has opened by then.\<close>

definition new_epoll_server ::
  "16 word \<Rightarrow> 64 word \<Rightarrow> string \<Rightarrow> setup_results \<Rightarrow> listener res \<times> int list" where
  "new_epoll_server new_port new_max new_name sr =
     (let failed = (\<lambda>what. Inl (RuntimeError (new_name @ what))) in
      if sr_socket sr < 0 then (failed '' socket'', [])
      else case sr_pipe sr of
        None \<Rightarrow> (failed '' pipe2'', [sr_socket sr])
      | Some (r, w) \<Rightarrow>
          (let fds = [sr_socket sr, r, w] in
           if \<not> sr_option sr then (failed '' setsockopt SO_REUSEADDR'', fds)
           else if \<not> sr_bind sr then (failed '' bind'', fds)
           else if \<not> sr_listen sr then (failed '' listen'', fds)
           else (Inr \<lparr>l_name = new_name, l_port = new_port, l_max_connections = new_max, l_timeout = 10,
                  l_running = True, l_server_fd = sr_socket sr, l_pipe = (r, w),
                  l_flags = set_non_blocking (sr_flags sr)\<rparr>, fds)))"

text \<open>\<open>static_cast<uint16_t>(port)\<close> and \<open>static_cast<size_t>(max_connections)\<close> of an \<open>int\<close>.\<close>

definition server_of_options :: "int \<Rightarrow> int \<Rightarrow> string \<Rightarrow> setup_results \<Rightarrow> listener res \<times> int list" where
  "server_of_options p n name sr = new_epoll_server (word_of_int p) (word_of_int n) name sr"

definition broadcast_fd :: "listener \<Rightarrow> int" where "broadcast_fd l = snd (l_pipe l)"

definition set_timeout :: "int \<Rightarrow> listener \<Rightarrow> listener" where
  "set_timeout seconds l = l\<lparr>l_timeout := seconds\<rparr>"

text \<open>What a thread of the server works with; \<open>tfd\<close> is the descriptor of its timers.\<close>

definition config_of :: "listener \<Rightarrow> int \<Rightarrow> bool \<Rightarrow> bool \<Rightarrow> (int \<Rightarrow> string \<Rightarrow> int) \<Rightarrow> config" where
  "config_of l tfd connects disconnects reader =
     \<lparr>server_fd = l_server_fd l, timeout_epoll_fd = tfd, broadcast_pipe0 = fst (l_pipe l),
      max_connections = l_max_connections l, has_on_connect = connects,
      has_on_disconnect = disconnects, on_read = reader\<rparr>"

text \<open>A server that was constructed does not block, and starts its threads as their invariant wants.\<close>

lemma constructed_server_starts:
  assumes "new_epoll_server p n name sr = (Inr l, fds)" "distinct (tfd # fds)" "0 < n"
  shows "bit (l_flags l) 11"
    and "thread_inv (config_of l tfd c d r) (start_thread (config_of l tfd c d r))"
proof -
  from assms(1) obtain a b where l: "l_server_fd l = sr_socket sr" "l_pipe l = (a, b)"
      "l_max_connections l = n" "l_flags l = set_non_blocking (sr_flags sr)"
      and fds: "fds = [sr_socket sr, a, b]"
    by (auto simp: new_epoll_server_def Let_def split: if_splits option.splits)
  from l show "bit (l_flags l) 11" by (simp add: blocking_bits)
  have "distinct (special_fds (config_of l tfd c d r))" "0 < max_connections (config_of l tfd c d r)"
    using assms(2,3) l fds by (auto simp: special_fds_def config_of_def)
  from start_thread_inv [OF this]
  show "thread_inv (config_of l tfd c d r) (start_thread (config_of l tfd c d r))" .
qed

text \<open>A port is taken modulo \<open>2 ^ 16\<close>, and a negative number of connections is a very large one.\<close>

lemma options_wrap:
  assumes "server_of_options p n name sr = (Inr l, fds)"
  shows "uint (l_port l) = p mod 65536"
    and "- (2 ^ 31) \<le> n \<Longrightarrow> n < 0 \<Longrightarrow> uint (l_max_connections l) = 2 ^ 64 + n"
proof -
  from assms have l: "l_port l = word_of_int p" "l_max_connections l = word_of_int n"
    by (auto simp: server_of_options_def new_epoll_server_def Let_def split: if_splits option.splits)
  then show "uint (l_port l) = p mod 65536" by (simp add: uint_word_of_int)
  assume "- (2 ^ 31) \<le> n" "n < 0"
  then have "(2 ^ 64 + n) mod 2 ^ 64 = 2 ^ 64 + n" by (intro mod_pos_pos_trivial) simp_all
  with l show "uint (l_max_connections l) = 2 ^ 64 + n" by (simp add: uint_word_of_int)
qed

text \<open>
  An exception after the socket was made leaves it open, and the pipe as well: nobody closes them.
\<close>

lemma failed_server_keeps_descriptors:
  "new_epoll_server p n name sr = (Inl e, fds) \<Longrightarrow>
    fds = (if sr_socket sr < 0 then [] else case sr_pipe sr of None \<Rightarrow> [sr_socket sr]
      | Some (r, w) \<Rightarrow> [sr_socket sr, r, w])"
  by (auto simp: new_epoll_server_def Let_def split: if_splits option.splits)

text \<open>\<open>TlsEpollServer\<close>: the base first, then the context with its certificate, key and ciphers.\<close>

record tls_results =
  tr_context :: bool
  tr_certificate :: bool
  tr_private_key :: bool
  tr_ciphers :: bool

definition new_tls_server ::
  "16 word \<Rightarrow> 64 word \<Rightarrow> string \<Rightarrow> setup_results \<Rightarrow> tls_results \<Rightarrow> listener res \<times> int list" where
  "new_tls_server new_port new_max new_name sr tr =
     (case new_epoll_server new_port new_max new_name sr of
        (Inl e, fds) \<Rightarrow> (Inl e, fds)
      | (Inr l, fds) \<Rightarrow>
          (let failed = (\<lambda>what. Inl (RuntimeError (new_name @ what))) in
           if \<not> tr_context tr then (failed ''SSL_CTX_new'', fds)
           else if \<not> tr_certificate tr then (failed ''SSL_CTX_use_certificate_file'', fds)
           else if \<not> tr_private_key tr then (failed ''SSL_CTX_use_PrivateKey_file'', fds)
           else if \<not> tr_ciphers tr then (failed ''SSL_CTX_set_cipher_list'', fds)
           else (Inr l, fds)))"

lemma tls_server_is_a_server:
  "new_tls_server p n name sr tr = (Inr l, fds) \<longleftrightarrow>
    new_epoll_server p n name sr = (Inr l, fds) \<and> tr_context tr \<and> tr_certificate tr
    \<and> tr_private_key tr \<and> tr_ciphers tr"
  by (auto simp: new_tls_server_def Let_def split: prod.splits sum.splits)
section \<open>The start of the echo server with \<open>poll\<close>\<close>

text \<open>\<open>examples/tcp-poll-server.cpp\<close> up to its loop: the exit code, or the loop is entered.\<close>

definition poll_server_start :: "bool \<Rightarrow> bool \<Rightarrow> bool \<Rightarrow> bool \<Rightarrow> int option" where
  "poll_server_start socket_ok option_ok bind_ok listen_ok =
     (if \<not> socket_ok then Some 1
      else if \<not> option_ok then Some 1
      else if \<not> bind_ok then Some 1
      else if \<not> listen_ok then Some 1
      else None)"

lemma poll_server_starts: "poll_server_start a b c d = None \<longleftrightarrow> a \<and> b \<and> c \<and> d"
  by (simp add: poll_server_start_def)

end
