(* ===== verification/Sites.thy ===== *)
theory Sites
  imports Jph2Server Services Provider
begin

text \<open>
  The other servers of \<open>HttpApi\<close>, put together as the web application is: the tables of routes of
  \<open>examples/libjaypea-api.cpp\<close>, \<open>examples/bwackwat.cpp\<close> and \<open>examples/music.cpp\<close>, over the functions of
  \<open>Services\<close> and \<open>Provider\<close>.  All of their routes are open ones.
\<close>

section \<open>Tables of open routes\<close>

definition open_route ::
  "string \<Rightarrow> string \<Rightarrow> (JsonObject \<Rightarrow> ('s, string) action) \<Rightarrow> (string \<times> JsonType) list \<Rightarrow> int \<Rightarrow>
    's registration" where
  "open_route m path f params rate = declare_route m path (Open f) params rate"

definition all_open :: "'s registration list \<Rightarrow> bool" where
  "all_open rs = list_all (\<lambda>r. case reg_handler r of Open f \<Rightarrow> True | _ \<Rightarrow> False) rs"

definition routes_text :: "(string \<Rightarrow> 's registration list) \<Rightarrow> 's \<Rightarrow> string" where
  "routes_text rs s = print (routes_object (built_api (rs []) [] s))"

definition welcome_text :: "string \<Rightarrow> string \<Rightarrow> string" where
  "welcome_text greet routes_string =
     ''{'' @ quoted ''result'' @ '':'' @ quoted greet @ '','' @ [LF] @ quoted ''routes'' @ '':'' @ routes_string
       @ ''}''"

section \<open>The message board\<close>

text \<open>The file of services, when it can be opened, is read when the program starts.\<close>

definition load_services :: "string option \<Rightarrow> JsonObject prog" where
  "load_services file =
     (case file of None \<Rightarrow> ret new_empty | Some d \<Rightarrow> parse_into new_empty (c_str d))"

text \<open>A function that changes the board also when it returns only a text.\<close>

definition post_action :: "JsonObject \<Rightarrow> (string list, string) action" where
  "post_action json messages =
     (case post_message json messages of
        Inl e \<Rightarrow> (Inl e, messages) | Inr (answer, messages') \<Rightarrow> (Inr answer, messages'))"

definition board_routes :: "string \<Rightarrow> JsonObject \<Rightarrow> string \<Rightarrow> string list registration list" where
  "board_routes password services routes_string =
     [open_route ''GET'' ''/'' (\<lambda>_. retD (welcome_text ''Welcome to the API! V1'' routes_string)) [] 0,
      open_route ''GET'' ''/message'' (\<lambda>_ messages. (Inr (get_messages messages), messages)) [] 0,
      open_route ''POST'' ''/message'' post_action [(''message'', STRING)] 0,
      open_route ''GET'' ''/host-service'' (\<lambda>j. liftD (host_service password services j))
        [(''token'', STRING), (''host'', STRING), (''service'', STRING)] 0]"

section \<open>The music library\<close>

definition music_routes :: "songset \<Rightarrow> unit registration list" where
  "music_routes library =
     [open_route ''GET'' ''/set'' (\<lambda>j. liftD (get_set library j)) [(''token'', STRING), (''set'', STRING)] 0]"

section \<open>The web application of the database service\<close>

text \<open>
  The state is what the connection to the service keeps, and whether the server runs; \<open>ask\<close> is a
  call of \<open>provider.communicate\<close>.
\<close>

definition ask_service ::
  "(string \<Rightarrow> ('p, string) action) \<Rightarrow> string \<Rightarrow> JsonObject \<Rightarrow> ('p \<times> bool, string) action" where
  "ask_service ask name json =
     (\<lambda>(p, running). case bwackwat_request name json of
        None \<Rightarrow> (Inr [], (p, running))
      | Some (Inl e) \<Rightarrow> (Inl e, (p, running))
      | Some (Inr d) \<Rightarrow> (case ask d p of (r, p) \<Rightarrow> (r, (p, running))))"

definition end_action :: "string \<Rightarrow> JsonObject \<Rightarrow> ('p \<times> bool, string) action" where
  "end_action token json =
     (\<lambda>(p, running). case bwackwat_end token json of
        Inl e \<Rightarrow> (Inl e, (p, running)) | Inr (answer, go_on) \<Rightarrow> (Inr answer, (p, running \<and> go_on)))"

definition bwackwat_routes ::
  "(string \<Rightarrow> ('p, string) action) \<Rightarrow> string \<Rightarrow> string \<Rightarrow> ('p \<times> bool) registration list" where
  "bwackwat_routes ask token routes_string =
     (let reg = (\<lambda>m path. open_route m path (ask_service ask (m @ '' '' @ path)));
          seconds = (\<lambda>n. 1000 * n) in
      [open_route ''GET'' ''/'' (\<lambda>_. retD (welcome_text ''Welcome to the API V1!'' routes_string)) [] 0,
       open_route ''POST'' ''/end'' (end_action token) [(''token'', STRING)] 0,
       reg ''GET'' ''/users'' [(''token'', STRING)] 0,
       reg ''GET'' ''/user'' [(''username'', STRING), (''token'', STRING)] 0,
       reg ''POST'' ''/user'' [(''values'', ARRAY)] (seconds (6 * 3600)),
       reg ''PUT'' ''/user'' [(''id'', STRING), (''values'', OBJECT), (''token'', STRING)] 0,
       reg ''POST'' ''/login'' [(''username'', STRING), (''password'', STRING)] (seconds 1),
       reg ''GET'' ''/blog'' [(''username'', STRING)] 0,
       reg ''POST'' ''/blog'' [(''values'', ARRAY), (''token'', STRING)] 0,
       reg ''PUT'' ''/blog'' [(''id'', STRING), (''values'', OBJECT), (''token'', STRING)] 0,
       reg ''GET'' ''/poi'' [(''key'', STRING), (''value'', STRING)] 0,
       reg ''POST'' ''/poi'' [(''values'', ARRAY), (''token'', STRING)] 0,
       reg ''PUT'' ''/poi'' [(''id'', STRING), (''values'', OBJECT), (''token'', STRING)] 0])"

section \<open>What a request can do\<close>

lemma board_open: "all_open (board_routes pw services rts)"
  by (simp add: all_open_def board_routes_def open_route_def declare_route_def)

lemma bwackwat_open: "all_open (bwackwat_routes ask token rts)"
  by (simp add: all_open_def bwackwat_routes_def open_route_def declare_route_def Let_def)

text \<open>The request that a text is, when it is one for a function of the table.\<close>

definition api_request :: "string \<Rightarrow> JsonObject option" where
  "api_request input =
     (case parse_http_request input (new_typed OBJECT) of
        Some (Inr (HTTP_API, req)) \<Rightarrow> Some req | _ \<Rightarrow> None)"

lemma open_site_state:
  assumes "all_open rs" "site_step rs (s, api) (env, input) = (s', api')"
  obtains (same) "s' = s"
  | (called) req req' r f where "api_request input = Some req" "r \<in> set rs"
      "reg_key r = request_route_key HTTP_API req" "reg_handler r = Open f" "s' = snd (f req' s)"
      "\<And>k. k \<noteq> session_name \<Longrightarrow> um_find (objectValues req') k = um_find (objectValues req) k"
proof (cases "\<exists>n. site_request rs env input (s, api) = ret (n, s', api') \<and> s' \<noteq> s")
  case True
  then obtain n where q: "site_request rs env input (s, api) = ret (n, s', api')" and "s' \<noteq> s" by blast
  then obtain rtype req where req: "parse_http_request input (new_typed OBJECT) = ret (rtype, req)"
    and s': "s' = state_after rs env rtype req (at_state rs s api) s"
    by (auto simp: site_request_def bindP_eq_ret)
  with \<open>s' \<noteq> s\<close> obtain req' key v r b h where
    g: "granted env rtype req (at_state rs s api) = Some (req', key, v, r, b)"
      "um_find (handlers_of rs) key = Some h" and run: "s' = run_handler env rtype req' h s"
    by (auto simp: state_after_def split: option.splits)
  obtain reg where reg: "reg \<in> set rs" "reg_key reg = key" "reg_handler reg = h"
    using handlers_find_Some [OF g(2)] by blast
  then obtain f where f: "h = Open f"
    using assms(1) by (cases h) (auto simp: all_open_def list_all_iff split: handler.splits)
  with run \<open>s' \<noteq> s\<close> have api: "rtype = HTTP_API" "s' = snd (f req' s)"
    by (auto simp: run_handler_def split: if_splits)
  show thesis
  proof (rule called [where f = f and req' = req'])
    show "api_request input = Some req" using req api by (simp add: api_request_def ret_def)
    show "reg_key reg = request_route_key HTTP_API req" using granted_keeps(1) [OF g(1)] reg api by simp
  qed (use reg f api granted_keeps(2) [OF g(1)] in auto)
next
  case False
  then have "s' = s"
    using assms(2) by (auto simp: site_step_def ret_def split: option.splits sum.splits)
  then show thesis by (rule same)
qed

section \<open>The board over HTTP\<close>

text \<open>
  The text that a request posts: that of a call of \<open>POST /message\<close> with a string that is not empty
  for a message.  All other requests post nothing.
\<close>

definition posted_text :: "env \<times> string \<Rightarrow> string option" where
  "posted_text request =
     (case api_request (snd request) of
        None \<Rightarrow> None
      | Some req \<Rightarrow>
          if request_route_key HTTP_API req \<noteq> ''POST /api/message/'' \<or> \<not> HasObj req ''message'' STRING
          then None
          else (case GetStr req ''message'' of Inr m \<Rightarrow> if m = [] then None else Some m | Inl _ \<Rightarrow> None))"

text \<open>The requests one after the other, as long as each of them is answered.\<close>

fun site_run ::
  "'s registration list \<Rightarrow> (env \<times> string) list \<Rightarrow> 's \<times> http_api \<Rightarrow> ('s \<times> http_api) prog" where
  "site_run rs [] p = ret p"
| "site_run rs ((env, input) # requests) p =
     bindP (site_request rs env input p) (\<lambda>(n, p). site_run rs requests p)"

definition newest :: "string option \<Rightarrow> string list \<Rightarrow> string list" where
  "newest posted board = (case posted of None \<Rightarrow> board | Some m \<Rightarrow> take 100 (m # board))"

lemma board_distinct: "distinct (map reg_key (board_routes pw services rts))"
  by (simp add: board_routes_def open_route_def declare_route_def reg_key_def)

lemma board_wired: "wired (board_routes pw services rts) (built_api (board_routes pw services rts) dir s)"
proof -
  have "wired [] (new_api dir)" by (simp add: wired_def new_api_def)
  from register_all_wired [OF this, of "board_routes pw services rts" s] board_distinct [of pw services rts]
  show ?thesis by (auto simp: built_api_def board_routes_def open_route_def declare_route_def)
qed

lemma posted_keys:
  assumes "r \<in> set (board_routes pw services rts)" "reg_handler r = Open f" "snd (f j s) \<noteq> s"
  shows "reg_key r = ''POST /api/message/''"
  using assms
  by (auto simp: board_routes_def open_route_def declare_route_def reg_key_def)

text \<open>A request for the route of messages that is answered: it posts its message or changes nothing.\<close>

lemma message_request:
  assumes w: "wired (board_routes pw services rts) api"
    and find: "um_find (handlers_of (board_routes pw services rts)) ''POST /api/message/'' = Some (Open post_action)"
    and q: "handle_request env HTTP_API req api = ret (n, api')"
    and key: "request_route_key HTTP_API req = ''POST /api/message/''"
  shows "state_after (board_routes pw services rts) env HTTP_API req api (take 100 board) =
    newest (if HasObj req ''message'' STRING \<and> GetStr req ''message'' \<noteq> Inr []
      then Some (stringValue (the (um_find (objectValues req) ''message''))) else None) (take 100 board)"
proof -
  let ?rs = "board_routes pw services rts" and ?key = "''POST /api/message/''"
  have r: "?rs ! 2 \<in> set ?rs" "reg_key (?rs ! 2) = ?key"
    "shape_reg (?rs ! 2) = ([(''message'', STRING)], 0, False, True, False, False)"
    by (simp_all add: board_routes_def open_route_def declare_route_def reg_key_def shape_reg_def)
  from wired_find [OF w r(1) board_distinct] r(2,3) obtain rt where
    rt: "um_find (routemap api) ?key = Some rt" "required_parameters rt = [(''message'', STRING)]"
      "minimum_ms_between_call rt = 0" "\<not> requires_human rt"
    by (auto simp: shape_of_def)
  obtain req1 key1 api1 where a: "attach_session env req api = (req1, key1, api1)"
    by (cases "attach_session env req api")
  have key1: "request_route_key HTTP_API req1 = ?key" using attach_session_route_key [OF a] key by simp
  have same: "um_find (objectValues req1) ''message'' = um_find (objectValues req) ''message''"
    by (rule attach_session_keeps [OF a]) (simp add: session_name_def)
  have routes: "um_find (routemap api1) ?key = Some rt" using attach_session_routes [OF a] rt(1) by simp
  from q a key1 routes rt(2) obtain v where
    v: "decode_parameters req1 [(''message'', STRING)] (request_view req1) = Inr v"
    by (cases "decode_parameters req1 [(''message'', STRING)] (request_view req1)")
      (simp_all add: handle_request_def)
  let ?ok = "HasObj req ''message'' STRING \<and> GetStr req ''message'' \<noteq> Inr []"
  have check: "check_request env req1 key1 ?key rt api1 =
      (if ?ok then (None, api1) else (Some ([CHR 0x27] @ ''message'' @ [CHR 0x27] @ '' requires a ''
        @ typeString STRING @ ''.''), api1))"
    using rt(2-4) same by (auto simp: check_request_def HasObj_def GetStr_def split: option.splits)
  show ?thesis
  proof (cases ?ok)
    case False
    with a key1 routes rt(2) v check have "granted env HTTP_API req api = None"
      by (simp add: granted_def)
    with False show ?thesis by (simp only: state_after_def newest_def if_False option.case)
  next
    case True
    with a key1 routes rt(2) v check have g: "granted env HTTP_API req api =
        Some (req1, ?key, v, set_header session_name key1 new_response, api1)"
      by (simp add: granted_def)
    from True obtain j where j: "um_find (objectValues req) ''message'' = Some j"
      by (auto simp: HasObj_def split: option.splits)
    have "snd (post_action req1 (take 100 board)) = take 100 (stringValue j # take 100 board)"
      using newest_take [of 100 "stringValue j" board] j same
      by (simp add: post_action_def post_message_def string_at_def Let_def)
    with True g find j show ?thesis by (simp add: state_after_def run_handler_def newest_def)
  qed
qed

lemma board_request:
  assumes w: "wired (board_routes pw services rts) api"
    and q: "site_request (board_routes pw services rts) env input (take 100 board, api) = ret (n, board', api')"
  shows "board' = newest (posted_text (env, input)) (take 100 board)
    \<and> wired (board_routes pw services rts) api'"
proof -
  let ?rs = "board_routes pw services rts" and ?b = "take 100 board"
  from q obtain rtype req where req: "parse_http_request input (new_typed OBJECT) = ret (rtype, req)"
    and h: "handle_request env rtype req (at_state ?rs ?b api) = ret (n, api')"
    and b: "board' = state_after ?rs env rtype req (at_state ?rs ?b api) ?b"
    by (auto simp: site_request_def bindP_eq_ret)
  note w' = at_state_wired [OF w board_distinct, of ?b]
  have find: "um_find (handlers_of ?rs) ''POST /api/message/'' = Some (Open post_action)"
    using handlers_find [OF board_distinct, of "?rs ! 2" pw services rts]
    by (simp add: board_routes_def open_route_def declare_route_def reg_key_def)
  have "board' = newest (posted_text (env, input)) ?b"
  proof (cases "rtype = HTTP_API \<and> request_route_key HTTP_API req = ''POST /api/message/''")
    case True
    with message_request [OF w' find, of env req n api' board] h b req show ?thesis
      by (auto simp: posted_text_def api_request_def ret_def HasObj_def GetStr_def newest_def
          split: option.splits)
  next
    case False
    then have none: "posted_text (env, input) = None"
      using req by (cases rtype) (auto simp: posted_text_def api_request_def ret_def)
    have "site_step ?rs (?b, api) (env, input) = (board', api')" using q by (simp add: site_step_def ret_def)
    with board_open have "board' = ?b"
    proof (rule open_site_state)
      fix req' req'' r f
      assume r: "api_request input = Some req'" "r \<in> set ?rs" "reg_key r = request_route_key HTTP_API req'"
        "reg_handler r = Open f" "board' = snd (f req'' ?b)"
      from r(1) req have "rtype = HTTP_API" "req' = req"
        by (cases rtype; auto simp: api_request_def ret_def)+
      with False r(3) posted_keys [OF r(2,4)] r(5) show "board' = ?b" by metis
    qed
    with none show ?thesis by (simp add: newest_def)
  qed
  with wired_keeps [OF w' h] show ?thesis by blast
qed

lemma board_run:
  assumes "wired (board_routes pw services rts) api"
    "site_run (board_routes pw services rts) requests (take 100 (rev ms), api) = ret (board, api')"
  shows "board = take 100 (rev (ms @ List.map_filter posted_text requests))"
  using assms
proof (induction requests arbitrary: ms api)
  case (Cons request requests)
  obtain env input where e: "request = (env, input)" by (cases request)
  with Cons.prems(2) obtain n b a where
    q: "site_request (board_routes pw services rts) env input (take 100 (rev ms), api) = ret (n, b, a)"
    and run: "site_run (board_routes pw services rts) requests (b, a) = ret (board, api')"
    by (auto simp: bindP_eq_ret)
  note step = board_request [OF Cons.prems(1) q]
  show ?case
  proof (cases "posted_text (env, input)")
    case None
    with step run Cons.IH [of a ms] e show ?thesis by (simp add: newest_def)
  next
    case (Some m)
    then have "b = take 100 (rev (ms @ [m]))" using step by (simp add: newest_def take_Cons')
    with step run Cons.IH [of a "ms @ [m]"] e Some show ?thesis by simp
  qed
qed simp

text \<open>
  C31. The board is exactly the newest hundred of the messages that were posted, the latest first: after
  any requests to the server from its start that were all answered, it is the first hundred of the
  reversed list of their messages, where a request posts a message when it is one of \<open>POST /message\<close>
  whose message is a string that is not empty, and all others change nothing.
\<close>

theorem board_holds_posts:
  assumes "site_run (board_routes password services routes_string) requests
      ([], built_api (board_routes password services routes_string) dir []) = ret (board, api)"
  shows "board = take 100 (rev (List.map_filter posted_text requests))"
  using board_run [OF board_wired, where pw = password and services = services and rts = routes_string
      and requests = requests and ms = "[]"] assms by force

definition post_hi :: string where
  "post_hi = api_call ''POST /api/message'' (''{'' @ quoted ''message'' @ '':'' @ quoted ''hi'' @ ''}'')"

lemma board_holds_posts_witness:
  "\<exists>board api. site_run (board_routes [] new_empty []) [(sample_env, post_hi)]
      ([], built_api (board_routes [] new_empty []) ''www'' []) = ret (board, api)
    \<and> board = [''hi''] \<and> board = take 100 (rev (List.map_filter posted_text [(sample_env, post_hi)]))"
proof -
  let ?p = "site_run (board_routes [] new_empty []) [(sample_env, post_hi)]
      ([], built_api (board_routes [] new_empty []) ''www'' [])"
  have "case ?p of Some (Inr (board, api)) \<Rightarrow> board = [''hi''] | _ \<Rightarrow> False" by code_simp
  then obtain board api where s: "?p = ret (board, api)" and b: "board = [''hi'']"
    by (auto simp: ret_def split: option.splits sum.splits)
  with board_holds_posts [OF s] show ?thesis by blast
qed

section \<open>The end of the web application\<close>

lemma ending_keys:
  assumes "r \<in> set (bwackwat_routes ask token rts)" "reg_handler r = Open f" "snd s" "\<not> snd (snd (f j s))"
  shows "reg_key r = ''POST /api/end/'' \<and> GetStr j ''token'' = Inr token"
proof -
  have "f = end_action token \<and> reg_key r = ''POST /api/end/'' \<or> (\<exists>name. f = ask_service ask name)
      \<or> (\<exists>t. f = (\<lambda>_. retD t))"
    using assms(1,2) by (auto simp: bwackwat_routes_def open_route_def declare_route_def reg_key_def Let_def)
  with assms(3,4) show ?thesis
    by (cases s; cases "GetStr j ''token''")
      (auto simp: ask_service_def end_action_def bwackwat_end_def
        split: option.splits sum.splits prod.splits if_splits)
qed

text \<open>
  The server is ended only by a request that carries the token, which is the sealed empty text.
\<close>

lemma ended_by_token:
  assumes "run_steps (site_step (bwackwat_routes ask token rts)) ((p, True), api) requests = ((p', False), api')"
  shows "\<exists>(env, input) \<in> set requests. \<exists>req. api_request input = Some req
    \<and> request_route_key HTTP_API req = ''POST /api/end/'' \<and> GetStr req ''token'' = Inr token"
  using assms
proof (induction requests arbitrary: p api)
  case (Cons request requests)
  obtain env input where e: "request = (env, input)" by (cases request)
  obtain q go a where s: "site_step (bwackwat_routes ask token rts) ((p, True), api) (env, input) = ((q, go), a)"
    by (metis prod.exhaust)
  show ?case
  proof (cases go)
    case True
    with Cons.IH [of q a] Cons.prems s e show ?thesis by auto
  next
    case False
    from bwackwat_open s show ?thesis
    proof (rule open_site_state)
      fix req req' r f
      assume req: "api_request input = Some req" and r: "r \<in> set (bwackwat_routes ask token rts)"
        "reg_key r = request_route_key HTTP_API req" "reg_handler r = Open f"
        and b: "(q, go) = snd (f req' (p, True))"
        and keeps: "\<And>k. k \<noteq> session_name \<Longrightarrow> um_find (objectValues req') k = um_find (objectValues req) k"
      have "\<not> snd (snd (f req' (p, True)))" using b False by (metis snd_conv)
      with ending_keys [OF r(1,3), of "(p, True)" req'] r(2)
      have "request_route_key HTTP_API req = ''POST /api/end/''" "GetStr req' ''token'' = Inr token" by simp_all
      moreover from this keeps [of "''token''"] have "GetStr req ''token'' = Inr token"
        by (simp add: GetStr_def session_name_def)
      ultimately show ?thesis using req e by auto
    qed (use False in simp)
  qed
qed simp

end
