(* ===== verification/Spec2Isabelle.thy ===== *)
theory Spec2Isabelle
  imports JsonRoundtrip Util Args Http EpollServer Threads HttpApi Websocket Symmetric EventClient Comd
    Containers PgSql Rearm Ponal Jph2 Jph2Chat Tls TlsClient Distributed Tanks
    Provider Poll Services Jph2Server Terminal Programs Setup Sites
begin

text \<open>
  A verification library for libjaypea, a C++ library of network servers and clients
  (\<open>src/cpp-source\<close>).

  \<^bold>\<open>The program.\<close>  \<open>EpollServer\<close> runs threads that wait on epoll, accept connections, hand what a
  connection sends to \<open>on_read\<close>, and drop a connection on errors and timeouts; \<open>TlsEpollServer\<close> and
  \<open>SymmetricEpollServer\<close> override its accept, send, receive and close.  On top of it
  \<open>HttpApi\<close> installs an \<open>on_read\<close> that parses a request with \<open>Util::parse_http_request\<close> into a
  \<open>JsonObject\<close>, attaches a session, and serves a route or a static file; \<open>Websocket\<close> frames
  messages; \<open>SymmetricEncryptor\<close> seals them.  \<open>EventClient\<close> is the client's side of many
  connections, \<open>TlsClientManager\<close> and \<open>SymmetricTcpClient\<close> make requests, \<open>DistributedNode\<close> compares
  data with its peers, \<open>comd\<close> and \<open>com\<close> are a remote shell over the sealed channel,
  \<open>PgSqlModel\<close> turns requests for tables into SQL.  The programs under \<open>examples\<close> are built from
  these: a web application (\<open>jph2\<close>) with its chat and its game server, a database service
  (\<open>pgsql-provider\<close>) and its application (\<open>bwackwat\<close>), a key-value server, chats, echo servers.

  \<^bold>\<open>Conventions\<close> (theory \<open>Prelude\<close>).  Code is translated into functions on explicit state.  A
  function that may fault returns \<open>'a res\<close> (\<open>Inl\<close>: undefined behaviour that the code reaches, or
  an exception that leaves it), one that may also run forever \<open>'a prog\<close> (\<open>None\<close>), defined by
  \<open>partial_function\<close>, so that not returning is a value that theorems speak about; no fuel is used.
  A class is a record; a \<open>char*\<close> that only moves forward is the rest of the string, another one
  an offset; \<open>std::unordered_map\<close> is an association list with distinct keys behind the contract
  \<open>table\<close>.  What system calls and third-party libraries return is an argument of the step that
  makes the call.  Connections, file descriptors and timers are tables of numbers.

  \<^bold>\<open>Contracts.\<close>  \<open>Prelude\<close> has the locales \<open>table\<close> (interpreted for the hash tables),
  \<open>event_machine\<close> (interpreted for a thread that lost the accept race, for the API server, for the
  clients, for the remote shell, for the web application, for the programs that change the modes of
  the terminal, and for the states of \<open>Rearm\<close>, \<open>Tls\<close>, \<open>Tanks\<close> and \<open>Poll\<close>) and \<open>codec\<close> (interpreted
  for string escapes, JSON text, URL encoding and frames); \<open>Containers\<close> has \<open>container\<close> (interpreted for the queue and for the stack).

  \<^bold>\<open>Theories.\<close>
  \<^item> \<open>Json\<close> (\<open>json.hpp\<close>, \<open>json.cpp\<close>): tree, parser loop, escapes, printer.  \<open>JsonRoundtrip\<close>: what the
    printer writes the parser reads back, when the parser returns and when it does not.
  \<^item> \<open>Util\<close> (\<open>util.cpp\<close>): comparison, URL encoding, replacement, suffixes.  \<open>Args\<close> (\<open>util.cpp\<close>):
    the command line and the configuration file, which write variables of three types.
  \<^item> \<open>Http\<close> (\<open>util.cpp\<close>): the state machine of \<open>parse_http_request\<close>; a request that a client
    composes is read as composed, and the requests that hang or overrun it.
  \<^item> \<open>EpollServer\<close> (\<open>tcp-server.cpp\<close>): one thread with its handlers, the kernel's tables beside it;
    \<open>run_thread\<close> runs rounds of any number of events, and keeps the invariant as long as no event is
    handled whose connection was closed in the same round; what such a stale event breaks; the same
    loop in small steps.  \<open>Threads\<close>: the threads of a server interleaved, each between the events of
    its round, around the accept mutex and the broadcast pipe; they never share a connection, one
    connection can leave a single one of them accepting, and one broadcast faults a second thread.
  \<^item> \<open>HttpApi\<close> (\<open>http-api.cpp\<close>): routes, sessions, checks, static files, cache, templates;
    confinement of files, the cache's budget, the rate limit, and the error paths.
  \<^item> \<open>Websocket\<close> (\<open>websocket.hpp\<close>, \<open>websocket-server.cpp\<close>): frames and handshake.
  \<^item> \<open>Symmetric\<close> (\<open>symmetric-encryptor.cpp\<close> and its users): sealing, the two-block format,
    transaction numbers; integrity and replay, and that \<open>send\<close> reads past the sealed length.
  \<^item> \<open>EventClient\<close> (\<open>tcp-event-client.cpp\<close>, \<open>simple-tcp-client.cpp\<close>): connections as state machines.
  \<^item> \<open>Comd\<close> (\<open>shell.hpp\<close>, \<open>comd-util.cpp\<close>, \<open>examples/comd.cpp\<close>, \<open>examples/com.cpp\<close>): the remote shell.
  \<^item> \<open>Containers\<close> (\<open>queue.hpp\<close>, \<open>stack.hpp\<close>): nodes on a heap, refined to lists.
  \<^item> \<open>PgSql\<close> (\<open>pgsql-model.cpp\<close>): the text of every statement and the JSON of every result.
  \<^item> \<open>Rearm\<close> (\<open>tcp-server.cpp\<close>): when a connection is armed again for reading, over the whole run.
  \<^item> \<open>Tls\<close> (\<open>tls-epoll-server.cpp\<close>, \<open>tls-websocket-server.cpp\<close>): sessions of the TLS library beside
    the connections, and the waiting loops, which return once ten seconds are over.  \<open>TlsClient\<close> (\<open>tls-client-manager.cpp\<close>): requests, the
    reading loop and the body of an answer.
  \<^item> \<open>Distributed\<close> (\<open>symmetric-tcp-client.cpp\<close>, \<open>distributed-node.cpp\<close>): reconnecting requests over
    the sealed channel, and nodes that compare hashes.
  \<^item> \<open>Ponal\<close> (\<open>examples/ponal-server.cpp\<close>, \<open>ponal-client.cpp\<close>): the key-value server refined to a map.
  \<^item> \<open>Jph2\<close> (\<open>examples/jph2\<close>): accounts, threads, messages, points of interest and who may read and
    change them.  \<open>Jph2Chat\<close>: the chat's filter and its log.
  \<^item> \<open>Jph2Server\<close> (\<open>examples/jph2.cpp\<close>): the routes of the web application over \<open>HttpApi\<close>, one request a
    step of the database, the chat and the server; who is let in, which rows change, that the token of
    a login is accepted.  \<open>Sites\<close>: the routes of \<open>libjaypea-api\<close>, \<open>bwackwat\<close> and \<open>music\<close> in the same way.
  \<^item> \<open>Tanks\<close> (\<open>examples/jph2/tanks-wss.cpp\<close>): the game server; double arithmetic is a parameter.
  \<^item> \<open>Provider\<close> (\<open>examples/pgsql-provider.cpp\<close>, \<open>bwackwat.cpp\<close>): the database service with its checks
    of tokens, and the application that talks to it.
  \<^item> \<open>Poll\<close> (\<open>examples/tcp-poll-server.cpp\<close>, \<open>tcp-poll-client.cpp\<close>): the table of descriptors,
    an array outside of which every access is a fault.
  \<^item> \<open>Services\<close> (\<open>simple-tcp-server.cpp\<close> and the smaller examples): chats, the message board, the
    table of services, the music library, the key reader.
  \<^item> \<open>Terminal\<close> (\<open>examples/read-stdin-tty.cpp\<close>, \<open>com.cpp\<close>): the modes of the terminal, from the start of a
    program to each of its ends.  \<open>Setup\<close> (\<open>util.cpp\<close>, \<open>examples/keyfile-gen.cpp\<close>, the constructors of the
    servers and of \<open>SymmetricEncryptor\<close>): files, commands, the text of the help, keys, listening sockets.
  \<^item> \<open>Programs\<close> (the \<open>main\<close> functions under \<open>examples\<close>): the arguments that each declares and that they
    do not disturb each other; the clients of many requests, the echo server and the tests.

  \<^bold>\<open>Bounds.\<close>  \<open>PACKET_LIMIT\<close> and the other sizes are those of the code.  Lengths of frames are words,
  transaction numbers and the length block are written out modulo their width; counters of
  connections and bytes are unbounded integers, which they stay below in every run of the code.

  \<^bold>\<open>Not modelled.\<close>  Sockets, files, processes and signals as such: the results of system calls are
  arguments; OpenSSL, Crypto++, argon2 and libpqxx, which appear as parameters with their documented
  behaviour as named hypotheses where a theorem needs it (\<open>crypto_ok\<close>, \<open>hex_ok\<close>); memory management of
  objects other than the containers and the TLS sessions, so the destructors; logging; data races
  within one step of a handler; \<open>examples/pqxxtest.cpp\<close>, which is one fixed statement.
\<close>

end
